(* ===== verification/Prelude.thy ===== *)
theory Prelude
  imports Main
begin

text \<open>
  Shared vocabulary of the development: Go errors as values (with the wrapping that
  \<^verbatim>\<open>errors.Is\<close> walks), results as sums, and generic list lemmas.

  A Go function returning \<^verbatim>\<open>(T, error)\<close> is a function into \<open>'a result\<close>: \<open>Inl e\<close> when the
  error is not nil, \<open>Inr v\<close> otherwise.  A function returning only \<^verbatim>\<open>error\<close> is a function into
  \<open>goerr option\<close>, where \<open>None\<close> is the nil error.
\<close>

named_theorems go_simps \<open>defining equations that evaluate the modelled operations\<close>

section \<open>Errors\<close>

text \<open>
  The sentinel errors the code compares against with \<^verbatim>\<open>errors.Is\<close>: its own and the ones it
  takes from go-git, context, net and os (\<open>DNSNotFound\<close> is a \<^verbatim>\<open>net.DNSError\<close> with its
  \<^verbatim>\<open>IsNotFound\<close> set, which the code asks for with \<^verbatim>\<open>errors.As\<close>).
\<close>

datatype sentinel =
    ErrUnsupportedURL
  | ErrLimitExceeded
  | ErrSparseUnsupported
  | ErrPinnedFetchUnsupported
  | ErrWantsRestricted
  | ErrRemoteRefNotFound
  | ErrEmptyRemoteRepository
  | ErrAuthenticationRequired
  | ErrAuthorizationFailed
  | ErrObjectNotFound
  | Canceled
  | DeadlineExceeded
  | ErrNotExist
  | DNSNotFound

text \<open>
  \<open>ErrorLine\<close> and \<open>RemoteError\<close> are the messages of a Git server that go-git reports
  (\<^verbatim>\<open>pktline.ErrorLine\<close>, \<^verbatim>\<open>transport.RemoteError\<close>).  \<open>Errorf fmt args causes\<close> is \<^verbatim>\<open>fmt.Errorf\<close>: the format, the arguments that are shown, and
  the errors wrapped with \<^verbatim>\<open>%w\<close>.  \<open>Joined es\<close> is the error \<^verbatim>\<open>errors.Join\<close> builds.
\<close>

datatype goerr =
    Sentinel sentinel
  | ErrorLine string
  | RemoteError string
  | Errorf string "string list" "goerr list"
  | Joined "goerr list"

type_synonym 'a result = "goerr + 'a"

text \<open>\<^verbatim>\<open>errors.Is\<close>: the error itself, or anything it wraps.\<close>

fun errors_is :: "goerr \<Rightarrow> sentinel \<Rightarrow> bool" where
  "errors_is (Sentinel t) s = (t = s)"
| "errors_is (ErrorLine m) s = False"
| "errors_is (RemoteError m) s = False"
| "errors_is (Errorf f args es) s = (\<exists>e\<in>set es. errors_is e s)"
| "errors_is (Joined es) s = (\<exists>e\<in>set es. errors_is e s)"

text \<open>\<^verbatim>\<open>errors.As\<close> for the two kinds of server message: all of them in the order it looks.\<close>

fun error_lines :: "goerr \<Rightarrow> string list" where
  "error_lines (ErrorLine m) = [m]"
| "error_lines (Errorf f args es) = concat (map error_lines es)"
| "error_lines (Joined es) = concat (map error_lines es)"
| "error_lines (Sentinel t) = []"
| "error_lines (RemoteError m) = []"

fun remote_errors :: "goerr \<Rightarrow> string list" where
  "remote_errors (RemoteError m) = [m]"
| "remote_errors (Errorf f args es) = concat (map remote_errors es)"
| "remote_errors (Joined es) = concat (map remote_errors es)"
| "remote_errors (Sentinel t) = []"
| "remote_errors (ErrorLine m) = []"

text \<open>\<^verbatim>\<open>errors.New\<close>: a fresh error that wraps nothing.\<close>

abbreviation errors_new :: "string \<Rightarrow> goerr" where
  "errors_new msg \<equiv> Errorf msg [] []"

text \<open>\<^verbatim>\<open>errors.Join\<close> of non-nil errors: nil for an empty list.\<close>

definition errors_join :: "goerr list \<Rightarrow> goerr option" where
  "errors_join es = (if es = [] then None else Some (Joined es))"

lemma errors_join_eq_None [simp]: "errors_join es = None \<longleftrightarrow> es = []"
  by (simp add: errors_join_def)

lemma errors_join_Some [simp]: "es \<noteq> [] \<Longrightarrow> errors_join es = Some (Joined es)"
  by (simp add: errors_join_def)

section \<open>Results\<close>

text \<open>Sequencing with early return on an error.\<close>

definition bind_result :: "'a result \<Rightarrow> ('a \<Rightarrow> 'b result) \<Rightarrow> 'b result" where
  "bind_result r f = (case r of Inl e \<Rightarrow> Inl e | Inr x \<Rightarrow> f x)"

lemma bind_result_simps [simp]:
  "bind_result (Inl e) f = Inl e"
  "bind_result (Inr x) f = f x"
  by (simp_all add: bind_result_def)

lemma bind_result_Inr_iff:
  "bind_result r f = Inr y \<longleftrightarrow> (\<exists>x. r = Inr x \<and> f x = Inr y)"
  by (cases r) auto

lemma bind_result_split:
  "P (bind_result r f) \<longleftrightarrow> (\<forall>e. r = Inl e \<longrightarrow> P (Inl e)) \<and> (\<forall>x. r = Inr x \<longrightarrow> P (f x))"
  by (cases r) auto

text \<open>The error of a result, wrapped.\<close>

definition wrap_err :: "string \<Rightarrow> string list \<Rightarrow> goerr \<Rightarrow> goerr" where
  "wrap_err fmt args e = Errorf fmt args [e]"

lemma errors_is_wrap [simp]: "errors_is (wrap_err fmt args e) s = errors_is e s"
  by (simp add: wrap_err_def)

section \<open>Lists\<close>

lemma take_eq_append_drop: "take (length p) s = p \<longleftrightarrow> (\<exists>t. s = p @ t)"
  by (metis append_eq_conv_conj append_take_drop_id)

lemma find_SomeD: "List.find P xs = Some x \<Longrightarrow> P x \<and> x \<in> set xs"
  by (induction xs) (auto split: if_splits)

lemma hd_filter_find: "(case filter P xs of [] \<Rightarrow> None | x # _ \<Rightarrow> Some x) = List.find P xs"
  by (induction xs) auto

section \<open>Maps as association lists\<close>

text \<open>Assigning and deleting a key of a Go map kept as an association list.\<close>

definition map_put :: "'k \<Rightarrow> 'v \<Rightarrow> ('k \<times> 'v) list \<Rightarrow> ('k \<times> 'v) list" where
  "map_put k v m = (k, v) # filter (\<lambda>(k', _). k' \<noteq> k) m"

definition map_delete :: "'k \<Rightarrow> ('k \<times> 'v) list \<Rightarrow> ('k \<times> 'v) list" where
  "map_delete k m = filter (\<lambda>(k', _). k' \<noteq> k) m"

lemma map_of_filter_key: "map_of (filter (\<lambda>(k', _). k' \<noteq> k) m) x = (if x = k then None else map_of m x)"
  by (induction m) auto

lemma map_of_put [simp]: "map_of (map_put k v m) x = (if x = k then Some v else map_of m x)"
  by (simp add: map_put_def map_of_filter_key)

lemma map_of_delete [simp]: "map_of (map_delete k m) x = (if x = k then None else map_of m x)"
  by (simp add: map_delete_def map_of_filter_key)

lemma distinct_map_put: "distinct (map fst m) \<Longrightarrow> distinct (map fst (map_put k v m))"
  by (auto simp: map_put_def distinct_map inj_on_def)

lemma length_map_put: "length (map_put k v m) \<le> Suc (length m)"
  by (simp add: map_put_def)

lemma set_map_put: "set (map_put k v m) \<subseteq> insert (k, v) (set m)"
  by (auto simp: map_put_def)

end
