(* ===== verification/Go_Strings.thy ===== *)
theory Go_Strings
  imports Prelude
begin

text \<open>
  The part of Go's \<^verbatim>\<open>strings\<close> and \<^verbatim>\<open>strconv\<close> packages the program uses, on byte strings.

  A Go string is a sequence of bytes, and so is an Isabelle \<open>string\<close>.  Case mapping
  (\<^verbatim>\<open>ToLower\<close>, \<^verbatim>\<open>EqualFold\<close>) and white space (\<^verbatim>\<open>TrimSpace\<close>, \<^verbatim>\<open>Fields\<close>) are those of ASCII: a
  byte from 0x80 on has no case and is no space, where Go would decode UTF-8 and consult the
  Unicode tables.
\<close>

section \<open>Bytes\<close>

abbreviation byte :: "char \<Rightarrow> nat" where
  "byte c \<equiv> of_char c"

definition is_digit :: "char \<Rightarrow> bool" where
  "is_digit c \<longleftrightarrow> 48 \<le> byte c \<and> byte c \<le> 57"

definition is_upper :: "char \<Rightarrow> bool" where
  "is_upper c \<longleftrightarrow> 65 \<le> byte c \<and> byte c \<le> 90"

definition is_lower :: "char \<Rightarrow> bool" where
  "is_lower c \<longleftrightarrow> 97 \<le> byte c \<and> byte c \<le> 122"

definition is_hex :: "char \<Rightarrow> bool" where
  "is_hex c \<longleftrightarrow> is_digit c \<or> (97 \<le> byte c \<and> byte c \<le> 102) \<or> (65 \<le> byte c \<and> byte c \<le> 70)"

definition is_space :: "char \<Rightarrow> bool" where
  "is_space c \<longleftrightarrow> byte c = 32 \<or> (9 \<le> byte c \<and> byte c \<le> 13)"

definition digit_val :: "char \<Rightarrow> nat" where
  "digit_val c = byte c - 48"

definition hex_val :: "char \<Rightarrow> nat" where
  "hex_val c =
     (if is_digit c then byte c - 48
      else if 97 \<le> byte c then byte c - 87 else byte c - 55)"

definition lower_char :: "char \<Rightarrow> char" where
  "lower_char c = (if is_upper c then char_of (byte c + 32) else c)"

lemma byte_less [simp]: "byte c < 256"
  using of_char_mod_256 [of c, where 'a = nat] by (metis mod_less_divisor zero_less_numeral)

lemma byte_char_of [simp]: "n < 256 \<Longrightarrow> byte (char_of n) = n"
  by simp

lemma byte_lower_char: "byte (lower_char c) = (if is_upper c then byte c + 32 else byte c)"
  by (simp add: lower_char_def is_upper_def)

lemma lower_char_idem [simp]: "lower_char (lower_char c) = lower_char c"
  by (simp add: lower_char_def is_upper_def)

lemma lower_char_not_upper [simp]: "\<not> is_upper (lower_char c)"
  by (simp add: is_upper_def byte_lower_char)

lemma lower_char_fixed: "\<not> is_upper c \<Longrightarrow> lower_char c = c"
  by (simp add: lower_char_def)

lemma lower_char_eq_nonletter:
  assumes "\<not> is_lower d"
  shows "lower_char c = d \<longleftrightarrow> c = d \<and> \<not> is_upper c"
  using assms by (auto simp: lower_char_def is_upper_def is_lower_def)

section \<open>Prefixes, suffixes, search\<close>

definition has_prefix :: "string \<Rightarrow> string \<Rightarrow> bool" where
  "has_prefix s p \<longleftrightarrow> take (length p) s = p"

definition has_suffix :: "string \<Rightarrow> string \<Rightarrow> bool" where
  "has_suffix s p \<longleftrightarrow> length p \<le> length s \<and> drop (length s - length p) s = p"

definition trim_prefix :: "string \<Rightarrow> string \<Rightarrow> string" where
  "trim_prefix s p = (if has_prefix s p then drop (length p) s else s)"

definition trim_suffix :: "string \<Rightarrow> string \<Rightarrow> string" where
  "trim_suffix s p = (if has_suffix s p then take (length s - length p) s else s)"

lemma has_prefix_iff: "has_prefix s p \<longleftrightarrow> (\<exists>t. s = p @ t)"
  by (simp add: has_prefix_def take_eq_append_drop)

lemma has_prefix_append [simp]: "has_prefix (p @ t) p"
  by (simp add: has_prefix_def)

lemma has_prefix_Nil [simp]: "has_prefix s []"
  by (simp add: has_prefix_def)

lemma has_prefix_Nil_left [simp]: "has_prefix [] p \<longleftrightarrow> p = []"
  by (auto simp: has_prefix_def)

lemma has_prefix_Cons [simp]: "has_prefix (c # s) (d # p) \<longleftrightarrow> c = d \<and> has_prefix s p"
  by (auto simp: has_prefix_def)

lemma has_prefix_refl [simp]: "has_prefix s s"
  by (simp add: has_prefix_def)

lemma has_suffix_iff: "has_suffix s p \<longleftrightarrow> (\<exists>t. s = t @ p)"
proof
  assume "has_suffix s p"
  then have "s = take (length s - length p) s @ p"
    unfolding has_suffix_def by (metis append_take_drop_id)
  then show "\<exists>t. s = t @ p" by blast
qed (auto simp: has_suffix_def)

lemma has_suffix_append [simp]: "has_suffix (t @ p) p"
  by (auto simp: has_suffix_iff)

lemma has_suffix_Nil [simp]: "has_suffix s []"
  by (simp add: has_suffix_iff)

lemma trim_prefix_append [simp]: "trim_prefix (p @ t) p = t"
  by (simp add: trim_prefix_def)

lemma trim_suffix_append [simp]: "trim_suffix (t @ p) p = t"
  by (simp add: trim_suffix_def)

text \<open>\<^verbatim>\<open>strings.Index\<close>: the first position of a substring, \<open>None\<close> for -1.\<close>

fun index_str :: "string \<Rightarrow> string \<Rightarrow> nat option" where
  "index_str [] sub = (if sub = [] then Some 0 else None)"
| "index_str (c # s) sub =
     (if has_prefix (c # s) sub then Some 0 else map_option Suc (index_str s sub))"

definition contains_str :: "string \<Rightarrow> string \<Rightarrow> bool" where
  "contains_str s sub \<longleftrightarrow> index_str s sub \<noteq> None"

text \<open>\<^verbatim>\<open>strings.LastIndexByte\<close>.\<close>

fun last_index_chr :: "string \<Rightarrow> char \<Rightarrow> nat option" where
  "last_index_chr [] c = None"
| "last_index_chr (x # s) c =
     (case last_index_chr s c of Some i \<Rightarrow> Some (Suc i) | None \<Rightarrow> if x = c then Some 0 else None)"

text \<open>\<^verbatim>\<open>strings.Cut\<close>: (before, after, found).\<close>

definition cut_str :: "string \<Rightarrow> string \<Rightarrow> string \<times> string \<times> bool" where
  "cut_str s sep =
     (case index_str s sep of
        None \<Rightarrow> (s, [], False)
      | Some i \<Rightarrow> (take i s, drop (i + length sep) s, True))"

lemma index_str_Some:
  "index_str s sub = Some i \<Longrightarrow> s = take i s @ sub @ drop (i + length sub) s"
proof (induction s arbitrary: i)
  case Nil
  then show ?case by (simp split: if_splits)
next
  case (Cons c s)
  show ?case
  proof (cases "has_prefix (c # s) sub")
    case True
    then obtain t where "c # s = sub @ t" by (auto simp: has_prefix_iff)
    with True Cons.prems show ?thesis by (cases sub) auto
  next
    case False
    with Cons.prems obtain j where "i = Suc j" "index_str s sub = Some j" by auto
    with Cons.IH [of j] show ?thesis by simp
  qed
qed

lemma index_str_le: "index_str s sub = Some i \<Longrightarrow> i + length sub \<le> length s"
proof (induction s arbitrary: i)
  case (Cons c s)
  then show ?case
    by (auto simp: has_prefix_iff split: if_splits dest: arg_cong [where f = length])
qed (simp split: if_splits)

lemma index_str_None: "index_str s sub = None \<longleftrightarrow> (\<nexists>a b. s = a @ sub @ b)"
proof (induction s)
  case Nil
  then show ?case by auto
next
  case (Cons c s)
  show ?case
  proof
    assume n: "index_str (c # s) sub = None"
    then have np: "\<not> has_prefix (c # s) sub" and ns: "index_str s sub = None"
      by (auto split: if_splits)
    show "\<nexists>a b. c # s = a @ sub @ b"
    proof
      assume "\<exists>a b. c # s = a @ sub @ b"
      then obtain a b where ab: "c # s = a @ sub @ b" by blast
      show False
      proof (cases a)
        case Nil
        with ab np show False by (auto simp: has_prefix_iff)
      next
        case (Cons d a')
        with ab ns Cons.IH show False by auto
      qed
    qed
  next
    assume n: "\<nexists>a b. c # s = a @ sub @ b"
    then have "\<not> has_prefix (c # s) sub" by (metis append_Nil has_prefix_iff)
    moreover have "\<nexists>a b. s = a @ sub @ b" using n by (metis append_Cons)
    ultimately show "index_str (c # s) sub = None" using Cons.IH by simp
  qed
qed

lemma contains_str_iff: "contains_str s sub \<longleftrightarrow> (\<exists>a b. s = a @ sub @ b)"
  by (simp add: contains_str_def index_str_None)

lemma cut_str_found:
  "cut_str s sep = (a, b, True) \<Longrightarrow> s = a @ sep @ b"
  by (auto simp: cut_str_def dest: index_str_Some split: option.splits)

lemma cut_str_not_found:
  "cut_str s sep = (a, b, False) \<Longrightarrow> a = s \<and> b = [] \<and> \<not> contains_str s sep"
  by (auto simp: cut_str_def contains_str_def split: option.splits)

section \<open>Splitting and joining\<close>

text \<open>\<^verbatim>\<open>strings.Split\<close> on a one-byte separator, and \<^verbatim>\<open>strings.Join\<close>.\<close>

fun split_chr :: "char \<Rightarrow> string \<Rightarrow> string list" where
  "split_chr c [] = [[]]"
| "split_chr c (x # xs) =
     (if x = c then [] # split_chr c xs
      else (case split_chr c xs of [] \<Rightarrow> [[x]] | y # ys \<Rightarrow> (x # y) # ys))"

fun join_str :: "string \<Rightarrow> string list \<Rightarrow> string" where
  "join_str sep [] = []"
| "join_str sep [x] = x"
| "join_str sep (x # y # xs) = x @ sep @ join_str sep (y # xs)"

lemma split_chr_not_Nil [simp]: "split_chr c s \<noteq> []"
  by (induction s) (auto split: list.splits)

lemma join_split: "join_str [c] (split_chr c s) = s"
proof (induction s)
  case (Cons x xs)
  obtain y ys where y: "split_chr c xs = y # ys" by (meson neq_Nil_conv split_chr_not_Nil)
  with Cons show ?case by (cases ys) auto
qed simp

lemma split_chr_no_sep: "p \<in> set (split_chr c s) \<Longrightarrow> c \<notin> set p"
proof (induction s arbitrary: p)
  case (Cons x xs)
  obtain y ys where y: "split_chr c xs = y # ys" by (meson neq_Nil_conv split_chr_not_Nil)
  with Cons show ?case by (auto split: if_splits)
qed simp

lemma split_chr_whole: "c \<notin> set s \<Longrightarrow> split_chr c s = [s]"
  by (induction s) auto

lemma split_chr_append_sep:
  "split_chr c (a @ c # b) = split_chr c a @ split_chr c b"
proof (induction a)
  case (Cons x xs)
  obtain y ys where y: "split_chr c xs = y # ys" by (meson neq_Nil_conv split_chr_not_Nil)
  with Cons show ?case by auto
qed simp

lemma split_join:
  assumes "\<forall>p\<in>set ps. c \<notin> set p" and "ps \<noteq> []"
  shows "split_chr c (join_str [c] ps) = ps"
  using assms
proof (induction ps rule: induct_list012)
  case (3 x y zs)
  then show ?case by (simp add: split_chr_append_sep split_chr_whole)
qed (simp_all add: split_chr_whole)

lemma join_str_Cons: "xs \<noteq> [] \<Longrightarrow> join_str sep (x # xs) = x @ sep @ join_str sep xs"
  by (cases xs) auto

lemma join_str_append:
  "xs \<noteq> [] \<Longrightarrow> ys \<noteq> [] \<Longrightarrow> join_str sep (xs @ ys) = join_str sep xs @ sep @ join_str sep ys"
proof (induction xs rule: induct_list012)
  case (2 x)
  then show ?case by (simp add: join_str_Cons)
qed auto

section \<open>Case\<close>

definition to_lower :: "string \<Rightarrow> string" where
  "to_lower s = map lower_char s"

definition equal_fold :: "string \<Rightarrow> string \<Rightarrow> bool" where
  "equal_fold s t \<longleftrightarrow> to_lower s = to_lower t"

lemma to_lower_idem [simp]: "to_lower (to_lower s) = to_lower s"
  by (simp add: to_lower_def comp_def)

lemma to_lower_Nil [simp]: "to_lower s = [] \<longleftrightarrow> s = []"
  by (simp add: to_lower_def)

lemma length_to_lower [simp]: "length (to_lower s) = length s"
  by (simp add: to_lower_def)

lemma equal_fold_refl [simp]: "equal_fold s s"
  by (simp add: equal_fold_def)

lemma equal_fold_sym: "equal_fold s t \<longleftrightarrow> equal_fold t s"
  by (auto simp: equal_fold_def)

lemma equal_fold_trans: "equal_fold s t \<Longrightarrow> equal_fold t u \<Longrightarrow> equal_fold s u"
  by (simp add: equal_fold_def)

lemma equal_fold_length: "equal_fold s t \<Longrightarrow> length s = length t"
  by (metis equal_fold_def length_to_lower)

lemma equal_fold_Nil [simp]: "equal_fold [] t \<longleftrightarrow> t = []" "equal_fold s [] \<longleftrightarrow> s = []"
  by (auto simp: equal_fold_def to_lower_def)

lemma equal_fold_append:
  "length a = length c \<Longrightarrow> equal_fold (a @ b) (c @ d) \<longleftrightarrow> equal_fold a c \<and> equal_fold b d"
  by (simp add: equal_fold_def to_lower_def)

section \<open>White space and trimming\<close>

definition trim_left :: "(char \<Rightarrow> bool) \<Rightarrow> string \<Rightarrow> string" where
  "trim_left P s = dropWhile P s"

definition trim_right :: "(char \<Rightarrow> bool) \<Rightarrow> string \<Rightarrow> string" where
  "trim_right P s = rev (dropWhile P (rev s))"

definition trim_both :: "(char \<Rightarrow> bool) \<Rightarrow> string \<Rightarrow> string" where
  "trim_both P s = trim_right P (trim_left P s)"

definition trim_space :: "string \<Rightarrow> string" where
  "trim_space s = trim_both is_space s"

text \<open>\<^verbatim>\<open>strings.FieldsFunc\<close>: the maximal runs of bytes that are no separators.\<close>

function fields_func :: "(char \<Rightarrow> bool) \<Rightarrow> string \<Rightarrow> string list" where
  "fields_func P [] = []"
| "fields_func P (c # s) =
     (if P c then fields_func P s
      else (c # takeWhile (\<lambda>x. \<not> P x) s) # fields_func P (dropWhile (\<lambda>x. \<not> P x) s))"
  by pat_completeness auto
termination
  by (relation "measure (\<lambda>(P, s). length s)") (auto simp: le_imp_less_Suc length_dropWhile_le)

abbreviation fields :: "string \<Rightarrow> string list" where
  "fields s \<equiv> fields_func is_space s"

lemma trim_both_Nil [simp]: "trim_both P [] = []"
  by (simp add: trim_both_def trim_left_def trim_right_def)

lemma trim_both_eq_Nil: "trim_both P s = [] \<longleftrightarrow> (\<forall>c\<in>set s. P c)"
proof -
  have "trim_both P s = [] \<longleftrightarrow> (\<forall>c\<in>set (dropWhile P s). P c)"
    by (simp add: trim_both_def trim_left_def trim_right_def dropWhile_eq_Nil_conv)
  also have "\<dots> \<longleftrightarrow> dropWhile P s = []"
    by (metis dropWhile_eq_Nil_conv hd_dropWhile list.set_sel(1) list.set(1) empty_iff)
  finally show ?thesis by (simp add: dropWhile_eq_Nil_conv)
qed

section \<open>Numbers\<close>

text \<open>A run of decimal digits as a number.\<close>

definition decimal :: "string \<Rightarrow> int" where
  "decimal s = foldl (\<lambda>n c. 10 * n + int (digit_val c)) 0 s"

text \<open>\<^verbatim>\<open>strconv.Itoa\<close> of a number that is not negative.\<close>

function dec_string :: "int \<Rightarrow> string" where
  "dec_string n =
     (if n < 10 then [char_of (48 + nat n)] else dec_string (n div 10) @ [char_of (48 + nat (n mod 10))])"
  by pat_completeness auto
termination
  by (relation "measure nat") auto

declare dec_string.simps [simp del]

text \<open>
  \<^verbatim>\<open>strconv.Atoi\<close> on a 64-bit platform: an optional sign, at least one digit, and a value in
  the range of \<^verbatim>\<open>int\<close>; \<open>None\<close> is its error.
\<close>

definition atoi :: "string \<Rightarrow> int option" where
  "atoi s =
     (let (neg, d) = (case s of [] \<Rightarrow> (False, s)
                      | c # t \<Rightarrow> if c = CHR ''-'' then (True, t)
                                 else if c = CHR ''+'' then (False, t) else (False, s));
          n = (if neg then - decimal d else decimal d)
      in if d \<noteq> [] \<and> list_all is_digit d \<and> - (2 ^ 63) \<le> n \<and> n < 2 ^ 63 then Some n else None)"

text \<open>\<^verbatim>\<open>strconv.ParseBool\<close>.\<close>

definition parse_bool :: "string \<Rightarrow> bool option" where
  "parse_bool s =
     (if s \<in> {''1'', ''t'', ''T'', ''TRUE'', ''true'', ''True''} then Some True
      else if s \<in> {''0'', ''f'', ''F'', ''FALSE'', ''false'', ''False''} then Some False
      else None)"

end
