(* ===== verification/Net_IP.thy ===== *)
theory Net_IP
  imports Go_Strings "HOL-Library.Word"
begin

text \<open>
  Go's \<^verbatim>\<open>net.IP\<close>, \<^verbatim>\<open>net.IPNet\<close> and the textual forms the program parses: \<^verbatim>\<open>net.ParseIP\<close>,
  \<^verbatim>\<open>net.ParseCIDR\<close>, \<^verbatim>\<open>netip.ParseAddr\<close>, \<^verbatim>\<open>net.SplitHostPort\<close> and \<^verbatim>\<open>net.JoinHostPort\<close>.

  A \<^verbatim>\<open>net.IP\<close> is its byte slice: four bytes, sixteen bytes, or empty for nil.  Bytes are
  8-bit words, so the masks are the code's bit operations.
\<close>

unbundle bit_operations_syntax

type_synonym ip = "8 word list"

section \<open>Addresses\<close>

abbreviation v4_in_v6_prefix :: ip where
  "v4_in_v6_prefix \<equiv> [0, 0, 0, 0, 0, 0, 0, 0, 0, 0, 0xff, 0xff]"

definition to4 :: "ip \<Rightarrow> ip option" where
  "to4 ip =
     (if length ip = 4 then Some ip
      else if length ip = 16 \<and> take 12 ip = v4_in_v6_prefix then Some (drop 12 ip)
      else None)"

definition to16 :: "ip \<Rightarrow> ip" where
  "to16 ip =
     (if length ip = 4 then v4_in_v6_prefix @ ip
      else if length ip = 16 then ip else [])"

definition ipv6_loopback :: ip where
  "ipv6_loopback = [0, 0, 0, 0, 0, 0, 0, 0, 0, 0, 0, 0, 0, 0, 0, 1]"

definition ipv6_unspecified :: ip where
  "ipv6_unspecified = [0, 0, 0, 0, 0, 0, 0, 0, 0, 0, 0, 0, 0, 0, 0, 0]"

definition ipv4_zero :: ip where
  "ipv4_zero = v4_in_v6_prefix @ [0, 0, 0, 0]"

definition ip_equal :: "ip \<Rightarrow> ip \<Rightarrow> bool" where
  "ip_equal a b =
     (if length a = length b then a = b
      else if length a = 4 \<and> length b = 16 then take 12 b = v4_in_v6_prefix \<and> a = drop 12 b
      else if length a = 16 \<and> length b = 4 then take 12 a = v4_in_v6_prefix \<and> drop 12 a = b
      else False)"

section \<open>Classes of addresses\<close>

definition is_unspecified :: "ip \<Rightarrow> bool" where
  "is_unspecified ip \<longleftrightarrow> ip_equal ip ipv4_zero \<or> ip_equal ip ipv6_unspecified"

definition is_loopback :: "ip \<Rightarrow> bool" where
  "is_loopback ip =
     (case to4 ip of Some v \<Rightarrow> v ! 0 = 127 | None \<Rightarrow> ip_equal ip ipv6_loopback)"

definition is_private :: "ip \<Rightarrow> bool" where
  "is_private ip =
     (case to4 ip of
        Some v \<Rightarrow> v ! 0 = 10 \<or> (v ! 0 = 172 \<and> v ! 1 AND 0xf0 = 16) \<or> (v ! 0 = 192 \<and> v ! 1 = 168)
      | None \<Rightarrow> length ip = 16 \<and> ip ! 0 AND 0xfe = 0xfc)"

definition is_multicast :: "ip \<Rightarrow> bool" where
  "is_multicast ip =
     (case to4 ip of
        Some v \<Rightarrow> v ! 0 AND 0xf0 = 0xe0
      | None \<Rightarrow> length ip = 16 \<and> ip ! 0 = 0xff)"

definition is_interface_local_multicast :: "ip \<Rightarrow> bool" where
  "is_interface_local_multicast ip \<longleftrightarrow>
     length ip = 16 \<and> ip ! 0 = 0xff \<and> ip ! 1 AND 0x0f = 0x01"

definition is_link_local_multicast :: "ip \<Rightarrow> bool" where
  "is_link_local_multicast ip =
     (case to4 ip of
        Some v \<Rightarrow> v ! 0 = 224 \<and> v ! 1 = 0 \<and> v ! 2 = 0
      | None \<Rightarrow> length ip = 16 \<and> ip ! 0 = 0xff \<and> ip ! 1 AND 0x0f = 0x02)"

definition is_link_local_unicast :: "ip \<Rightarrow> bool" where
  "is_link_local_unicast ip =
     (case to4 ip of
        Some v \<Rightarrow> v ! 0 = 169 \<and> v ! 1 = 254
      | None \<Rightarrow> length ip = 16 \<and> ip ! 0 = 0xfe \<and> ip ! 1 AND 0xc0 = 0x80)"

section \<open>Networks\<close>

record ip_net =
  net_ip :: ip
  net_mask :: "8 word list"

definition byte_mask :: "nat \<Rightarrow> 8 word" where
  "byte_mask n = (if 8 \<le> n then 0xff else NOT (drop_bit n 0xff))"

text \<open>\<^verbatim>\<open>net.CIDRMask\<close>: \<open>ones\<close> leading one bits in \<open>len\<close> bytes.\<close>

definition cidr_mask :: "nat \<Rightarrow> nat \<Rightarrow> 8 word list" where
  "cidr_mask ones len = map (\<lambda>i. byte_mask (ones - 8 * i)) [0..<len]"

definition apply_mask :: "8 word list \<Rightarrow> 8 word list \<Rightarrow> 8 word list" where
  "apply_mask ip m = map2 (AND) ip m"

text \<open>\<^verbatim>\<open>IP.Mask\<close>, for the masks \<^verbatim>\<open>ParseCIDR\<close> builds (as long as the address family asks for).\<close>

definition ip_mask :: "ip \<Rightarrow> 8 word list \<Rightarrow> ip" where
  "ip_mask ip m =
     (let ip = (if length m = 4 \<and> length ip = 16 \<and> take 12 ip = v4_in_v6_prefix
                then drop 12 ip else ip)
      in if length ip = length m then apply_mask ip m else [])"

text \<open>\<^verbatim>\<open>IPNet.Contains\<close>.\<close>

definition network_number_and_mask :: "ip_net \<Rightarrow> ip \<times> 8 word list" where
  "network_number_and_mask n =
     (let ip = (case to4 (net_ip n) of Some v \<Rightarrow> v | None \<Rightarrow> net_ip n);
          m = net_mask n
      in if to4 (net_ip n) = None \<and> length (net_ip n) \<noteq> 16 then ([], [])
         else if length m = 4 then (if length ip = 4 then (ip, m) else ([], []))
         else if length m = 16 then (if length ip = 4 then (ip, drop 12 m) else (ip, m))
         else ([], []))"

definition ip_net_contains :: "ip_net \<Rightarrow> ip \<Rightarrow> bool" where
  "ip_net_contains n ip =
     (let (nn, m) = network_number_and_mask n;
          x = (case to4 ip of Some v \<Rightarrow> v | None \<Rightarrow> ip)
      in length x = length nn \<and> apply_mask nn m = apply_mask x m)"

section \<open>Parsing addresses\<close>

text \<open>
  One octet of a dotted quad: digits only, no leading zero, at most 255.
\<close>

definition parse_octet :: "string \<Rightarrow> 8 word option" where
  "parse_octet s =
     (if s \<noteq> [] \<and> list_all is_digit s \<and> (hd s = CHR ''0'' \<longrightarrow> length s = 1) \<and> decimal s \<le> 255
      then Some (of_int (decimal s)) else None)"

fun all_some :: "'a option list \<Rightarrow> 'a list option" where
  "all_some [] = Some []"
| "all_some (None # xs) = None"
| "all_some (Some x # xs) = map_option (Cons x) (all_some xs)"

definition parse_ipv4 :: "string \<Rightarrow> ip option" where
  "parse_ipv4 s =
     (let ps = split_chr CHR ''.'' s
      in if length ps = 4 then all_some (map parse_octet ps) else None)"

text \<open>
  The loop of \<^verbatim>\<open>netip.parseIPv6\<close>.  \<open>acc\<close> is what has been written, \<open>ell\<close> the byte offset of
  the ellipsis.  Each round consumes one group, so eight rounds of fuel are enough: a ninth is
  never reached because \<open>length acc < 16\<close> guards the loop.
\<close>

definition hex_number :: "string \<Rightarrow> 16 word" where
  "hex_number s = foldl (\<lambda>n c. 16 * n + of_nat (hex_val c)) 0 s"

fun parse_ipv6_groups :: "nat \<Rightarrow> string \<Rightarrow> ip \<Rightarrow> nat option \<Rightarrow> (ip \<times> nat option) option" where
  "parse_ipv6_groups 0 s acc ell = (if s = [] then Some (acc, ell) else None)"
| "parse_ipv6_groups (Suc k) s acc ell =
     (let g = takeWhile is_hex s; rest = dropWhile is_hex s
      in if g = [] \<or> 4 < length g then None
         else if rest \<noteq> [] \<and> hd rest = CHR ''.'' then
           (if (ell = None \<and> length acc \<noteq> 12) \<or> 16 < length acc + 4 then None
            else case parse_ipv4 s of None \<Rightarrow> None | Some v \<Rightarrow> Some (acc @ v, ell))
         else
           (let acc' = acc @ [ucast (drop_bit 8 (hex_number g)), ucast (hex_number g)]
            in if rest = [] then Some (acc', ell)
               else if hd rest \<noteq> CHR '':'' \<or> tl rest = [] then None
               else if hd (tl rest) = CHR '':'' then
                 (if ell \<noteq> None then None
                  else if tl (tl rest) = [] then Some (acc', Some (length acc'))
                  else parse_ipv6_groups k (tl (tl rest)) acc' (Some (length acc')))
               else parse_ipv6_groups k (tl rest) acc' ell))"

definition expand_ellipsis :: "ip \<Rightarrow> nat option \<Rightarrow> ip option" where
  "expand_ellipsis acc ell =
     (case ell of
        None \<Rightarrow> if length acc = 16 then Some acc else None
      | Some e \<Rightarrow> if length acc < 16
                  then Some (take e acc @ replicate (16 - length acc) 0 @ drop e acc) else None)"

definition parse_ipv6_nozone :: "string \<Rightarrow> ip option" where
  "parse_ipv6_nozone s =
     (if has_prefix s ''::'' then
        (if s = ''::'' then Some ipv6_unspecified
         else Option.bind (parse_ipv6_groups 8 (drop 2 s) [] (Some 0)) (\<lambda>(a, e). expand_ellipsis a e))
      else Option.bind (parse_ipv6_groups 8 s [] None) (\<lambda>(a, e). expand_ellipsis a e))"

text \<open>
  \<^verbatim>\<open>netip.ParseAddr\<close>: the first of dot, colon and percent decides the family.  The result is
  the address and its zone (empty for none).
\<close>

definition parse_addr :: "string \<Rightarrow> (ip \<times> string) option" where
  "parse_addr s =
     (case dropWhile (\<lambda>c. c \<noteq> CHR ''.'' \<and> c \<noteq> CHR '':'' \<and> c \<noteq> CHR ''%'') s of
        [] \<Rightarrow> None
      | c # _ \<Rightarrow>
          if c = CHR ''.'' then map_option (\<lambda>v. (v, [])) (parse_ipv4 s)
          else if c = CHR '':'' then
            (case cut_str s ''%'' of
               (a, zone, found) \<Rightarrow>
                 if found \<and> zone = [] then None
                 else map_option (\<lambda>v. (v, zone)) (parse_ipv6_nozone a))
          else None)"

text \<open>\<^verbatim>\<open>net.ParseIP\<close>: nil (the empty list) for anything else, and for an address with a zone.\<close>

definition parse_ip :: "string \<Rightarrow> ip" where
  "parse_ip s =
     (case parse_addr s of Some (a, []) \<Rightarrow> to16 a | _ \<Rightarrow> [])"

text \<open>\<^verbatim>\<open>net.ParseCIDR\<close>, of which the code uses the network.\<close>

definition parse_cidr :: "string \<Rightarrow> ip_net option" where
  "parse_cidr s =
     (case cut_str s ''/'' of
        (addr, mk, found) \<Rightarrow>
          if \<not> found then None
          else case parse_addr addr of
            Some (a, []) \<Rightarrow>
              if mk \<noteq> [] \<and> list_all is_digit mk \<and> decimal mk \<le> int (8 * length a)
              then let m = cidr_mask (nat (decimal mk)) (length a)
                   in Some \<lparr>net_ip = ip_mask (to16 a) m, net_mask = m\<rparr>
              else None
          | _ \<Rightarrow> None)"

section \<open>Printing addresses\<close>

definition hex_digit :: "int \<Rightarrow> char" where
  "hex_digit d = (if d < 10 then char_of (48 + nat d) else char_of (87 + nat d))"

fun hex_digits :: "nat \<Rightarrow> int \<Rightarrow> string" where
  "hex_digits 0 n = []"
| "hex_digits (Suc k) n =
     (if n < 16 then [hex_digit n] else hex_digits k (n div 16) @ [hex_digit (n mod 16)])"

text \<open>A 16-bit group is printed with at most four hex digits.\<close>

fun groups16 :: "ip \<Rightarrow> int list" where
  "groups16 (a # b # r) = (256 * uint a + uint b) # groups16 r"
| "groups16 _ = []"

fun zero_run :: "int list \<Rightarrow> nat" where
  "zero_run [] = 0"
| "zero_run (g # gs) = (if g = 0 then Suc (zero_run gs) else 0)"

text \<open>The first longest run of at least two zero groups: its start and length.\<close>

fun best_run :: "nat \<Rightarrow> int list \<Rightarrow> nat \<times> nat" where
  "best_run i [] = (i, 0)"
| "best_run i (g # gs) =
     (let here = zero_run (g # gs); (j, n) = best_run (Suc i) gs
      in if n \<le> here \<and> 2 \<le> here then (i, here) else (j, n))"

definition ipv6_string :: "ip \<Rightarrow> string" where
  "ipv6_string ip =
     (let gs = groups16 ip; (i, n) = best_run 0 gs; h = map (hex_digits 4)
      in if n < 2 then join_str '':'' (h gs)
         else join_str '':'' (h (take i gs)) @ ''::'' @ join_str '':'' (h (drop (i + n) gs)))"

definition ip_string :: "ip \<Rightarrow> string" where
  "ip_string ip =
     (if ip = [] then ''<nil>''
      else case to4 ip of
        Some v \<Rightarrow> join_str ''.'' (map (\<lambda>b. dec_string (uint b)) v)
      | None \<Rightarrow>
          if length ip = 16 then ipv6_string ip
          else CHR ''?'' # concat (map (\<lambda>b. [hex_digit (uint b div 16), hex_digit (uint b mod 16)]) ip))"

section \<open>Host and port\<close>

definition join_host_port :: "string \<Rightarrow> string \<Rightarrow> string" where
  "join_host_port host port =
     (if CHR '':'' \<in> set host then ''['' @ host @ '']:'' @ port else host @ '':'' @ port)"

definition split_host_port :: "string \<Rightarrow> (string \<times> string) option" where
  "split_host_port hp =
     (case last_index_chr hp CHR '':'' of
        None \<Rightarrow> None
      | Some i \<Rightarrow>
          if hd hp = CHR ''['' then
            (case index_str hp '']'' of
               None \<Rightarrow> None
             | Some e \<Rightarrow>
                 if Suc e \<noteq> i then None
                 else if CHR ''['' \<in> set (drop 1 hp) \<or> CHR '']'' \<in> set (drop (Suc e) hp) then None
                 else Some (take (e - 1) (drop 1 hp), drop (Suc i) hp))
          else if CHR '':'' \<in> set (take i hp) \<or> CHR ''['' \<in> set hp \<or> CHR '']'' \<in> set hp then None
          else Some (take i hp, drop (Suc i) hp))"

section \<open>Facts about networks\<close>

lemma byte_and_255 [simp]: "(x :: 8 word) AND 255 = x" "255 AND (x :: 8 word) = x"
proof -
  have e: "(255 :: 8 word) = - 1" by simp
  show "x AND 255 = x" "255 AND x = x" unfolding e by simp_all
qed

lemma list_of_length_4: "length xs = 4 \<Longrightarrow> \<exists>a b c d. xs = [a, b, c, d]"
  by (auto simp: numeral_eq_Suc length_Suc_conv)

lemmas net_simps = ip_net_contains_def network_number_and_mask_def apply_mask_def Let_def

lemma to4_four [simp]: "to4 [a, b, c, d] = Some [a, b, c, d]"
  by (simp add: to4_def)

lemma to4_length: "to4 ip = Some v \<Longrightarrow> length v = 4"
  by (auto simp: to4_def split: if_splits)

lemma to4_idem: "to4 ip = Some v \<Longrightarrow> to4 v = Some v"
  by (auto simp: to4_def split: if_splits)

lemma to4_special [simp]: "to4 ipv6_loopback = None" "to4 ipv6_unspecified = None"
  by code_simp+

lemma length_special [simp]: "length ipv6_loopback = 16" "length ipv6_unspecified = 16"
  by code_simp+

lemma to4_head [simp]: "x \<noteq> 0 \<Longrightarrow> length r = 15 \<Longrightarrow> to4 (x # r) = None"
  by (simp add: to4_def)

lemma contains_to4: "to4 ip = Some v \<Longrightarrow> ip_net_contains n ip = ip_net_contains n v"
  by (auto simp: ip_net_contains_def to4_def split: if_splits)

lemma net4_v4:
  "ip_net_contains \<lparr>net_ip = [n0, n1, n2, n3], net_mask = [m0, m1, m2, m3]\<rparr> [a, b, c, d] \<longleftrightarrow>
   n0 AND m0 = a AND m0 \<and> n1 AND m1 = b AND m1 \<and> n2 AND m2 = c AND m2 \<and> n3 AND m3 = d AND m3"
  by (simp add: net_simps)

lemma net4_v6:
  "to4 ip = None \<Longrightarrow> length ip = 16 \<Longrightarrow>
   ip_net_contains \<lparr>net_ip = [x, y, z, w], net_mask = m\<rparr> ip = False"
  by (simp add: net_simps)

lemma net6_v4:
  "length n = 16 \<Longrightarrow> to4 n = None \<Longrightarrow> length m = 16 \<Longrightarrow>
   ip_net_contains \<lparr>net_ip = n, net_mask = m\<rparr> [a, b, c, d] = False"
  by (simp add: net_simps)

lemma net6_v6:
  "to4 ip = None \<Longrightarrow> length ip = 16 \<Longrightarrow> to4 n = None \<Longrightarrow> length n = 16 \<Longrightarrow> length m = 16 \<Longrightarrow>
   ip_net_contains \<lparr>net_ip = n, net_mask = m\<rparr> ip = (map2 (AND) n m = map2 (AND) ip m)"
  by (simp add: net_simps)

lemma map2_and_255: "map2 (AND) n (replicate (length n) (255 :: 8 word)) = n"
  by (induction n) auto

lemma map2_and_0: "map2 (AND) n (replicate (length n) (0 :: 8 word)) = replicate (length n) 0"
  by (induction n) auto

lemma net6_host:
  assumes "length ip = 16" "to4 ip = None" "length n = 16" "to4 n = None"
  shows "ip_net_contains \<lparr>net_ip = n, net_mask = replicate 16 255\<rparr> ip \<longleftrightarrow> ip = n"
  using assms map2_and_255 [of n] map2_and_255 [of ip] by (auto simp: net6_v6)

lemma net6_byte:
  assumes "length ip = 16" "to4 ip = None" "length n = 15" "to4 (x # n) = None" "n = replicate 15 0"
  shows "ip_net_contains \<lparr>net_ip = x # n, net_mask = m # replicate 15 0\<rparr> ip \<longleftrightarrow>
         ip ! 0 AND m = x AND m"
proof -
  from assms(1) obtain a r where ip: "ip = a # r" "length r = 15"
    by (auto simp: numeral_eq_Suc length_Suc_conv)
  then show ?thesis
    using assms map2_and_0 [of n] map2_and_0 [of r] by (auto simp: net6_v6)
qed

lemma net6_two_bytes:
  assumes "length ip = 16" "to4 ip = None" "to4 (x # y # n) = None" "n = replicate 14 0"
  shows "ip_net_contains \<lparr>net_ip = x # y # n, net_mask = m # k # replicate 14 0\<rparr> ip \<longleftrightarrow>
         ip ! 0 AND m = x AND m \<and> ip ! 1 AND k = y AND k"
proof -
  from assms(1) obtain a b r where ip: "ip = a # b # r" "length r = 14"
    by (auto simp: numeral_eq_Suc length_Suc_conv)
  then show ?thesis
    using assms map2_and_0 [of n] map2_and_0 [of r] by (auto simp: net6_v6)
qed

lemma to16_length: "to16 ip = [] \<or> length (to16 ip) = 16"
  by (simp add: to16_def)

lemma parse_ip_length: "parse_ip s = [] \<or> length (parse_ip s) = 16"
  using to16_length by (auto simp: parse_ip_def split: option.split prod.split list.split)

lemma ip_equal_to4:
  "length a = 16 \<Longrightarrow> to4 ip = Some v \<Longrightarrow> ip_equal a ip = ip_equal a v"
  by (auto simp: ip_equal_def to4_def split: if_splits) (metis append_take_drop_id)+

end
