(* ===== verification/Ssrf.thy ===== *)
theory Ssrf
  imports Net_IP
begin

text \<open>
  \<^verbatim>\<open>ssrf/ssrf.go\<close>: the guard that keeps outbound connections away from internal addresses.
  The resolver is a parameter \<open>lookup\<close> from a host name to an error or the addresses; what the
  operating system's connect does is the parameter \<open>reach\<close> of \<open>dial_run\<close>.

  The code's \<^verbatim>\<open>*Guard\<close> is never nil (\<^verbatim>\<open>New\<close> returns a fresh one), so a guard is a record.
\<close>

section \<open>Levels and guards\<close>

datatype level = LevelDefault | LevelNone | LevelLoopback | LevelInternal | LevelCustom

record guard =
  g_level :: level
  g_custom :: "(ip \<Rightarrow> bool) option"
  allow_hosts :: "string list"
  allow_ips :: "ip list"
  allow_nets :: "ip_net list"

text \<open>One entry of the allow list, appended to the list it belongs to.\<close>

definition add_allow :: "guard \<Rightarrow> string \<Rightarrow> guard" where
  "add_allow g entry0 =
     (let entry = trim_space entry0
      in if entry = [] then g
         else if contains_str entry ''/'' then
           (case parse_cidr entry of
              Some n \<Rightarrow> g\<lparr>allow_nets := allow_nets g @ [n]\<rparr>
            | None \<Rightarrow> g)
         else if parse_ip entry \<noteq> [] then g\<lparr>allow_ips := allow_ips g @ [parse_ip entry]\<rparr>
         else g\<lparr>allow_hosts := allow_hosts g @ [entry]\<rparr>)"

definition new_guard :: "level \<Rightarrow> (ip \<Rightarrow> bool) option \<Rightarrow> string list \<Rightarrow> guard" where
  "new_guard lvl custom allow =
     foldl add_allow
       \<lparr>g_level = (if lvl = LevelDefault then LevelInternal else lvl), g_custom = custom,
        allow_hosts = [], allow_ips = [], allow_nets = []\<rparr>
       allow"

definition host_allowed :: "guard \<Rightarrow> string \<Rightarrow> bool" where
  "host_allowed g host = list_ex (\<lambda>h. equal_fold h host) (allow_hosts g)"

definition ip_allowed :: "guard \<Rightarrow> ip \<Rightarrow> bool" where
  "ip_allowed g ip =
     (list_ex (\<lambda>a. ip_equal a ip) (allow_ips g) \<or> list_ex (\<lambda>n. ip_net_contains n ip) (allow_nets g))"

definition enabled :: "guard \<Rightarrow> bool" where
  "enabled g \<longleftrightarrow> g_level g \<noteq> LevelNone"

text \<open>100.64.0.0/10, carrier-grade NAT.\<close>

definition cgnat :: ip_net where
  "cgnat = \<lparr>net_ip = [100, 64, 0, 0], net_mask = cidr_mask 10 4\<rparr>"

definition blocked :: "guard \<Rightarrow> ip \<Rightarrow> bool" where
  "blocked g ip0 =
     (if \<not> enabled g then False
      else if ip0 = [] then True
      else if ip_allowed g ip0 then False
      else let ip = (case to4 ip0 of Some v \<Rightarrow> v | None \<Rightarrow> ip0)
        in case g_level g of
          LevelCustom \<Rightarrow> (case g_custom g of None \<Rightarrow> False | Some f \<Rightarrow> f ip)
        | LevelLoopback \<Rightarrow> is_loopback ip \<or> is_unspecified ip
        | LevelInternal \<Rightarrow>
            is_loopback ip \<or> is_private ip \<or> ip_net_contains cgnat ip \<or>
            is_link_local_unicast ip \<or> is_link_local_multicast ip \<or>
            is_interface_local_multicast ip \<or> is_multicast ip \<or> is_unspecified ip
        | _ \<Rightarrow> False)"

text \<open>The error of a rejected target, as \<^verbatim>\<open>BlockedAddressError.Error\<close> prints it.\<close>

definition blocked_address_error :: "string \<Rightarrow> ip \<Rightarrow> goerr" where
  "blocked_address_error host ip =
     (if host \<noteq> [] \<and> (ip = [] \<or> host \<noteq> ip_string ip)
      then Errorf ''refusing to connect to %s (resolves to blocked address %s)'' [host, ip_string ip] []
      else Errorf ''refusing to connect to blocked address %s'' [ip_string ip] [])"

section \<open>The pre-fetch check\<close>

definition is_numeric_part :: "string \<Rightarrow> bool" where
  "is_numeric_part s =
     (if 2 \<le> length s \<and> (has_prefix s ''0x'' \<or> has_prefix s ''0X'') then list_all is_hex (drop 2 s)
      else s \<noteq> [] \<and> list_all is_digit s)"

definition is_numeric_host :: "string \<Rightarrow> bool" where
  "is_numeric_host host =
     (let parts = split_chr CHR ''.'' host
      in if 4 < length parts then False else list_all is_numeric_part parts)"

text \<open>
  The loop over the resolved addresses: stops at the first allowed one (\<open>None\<close>), otherwise
  ends with the first blocked one (nil, the empty list, when there was none).
\<close>

fun check_addrs :: "guard \<Rightarrow> ip \<Rightarrow> ip list \<Rightarrow> ip option" where
  "check_addrs g first [] = Some first"
| "check_addrs g first (a # as) =
     (if \<not> blocked g a then None else check_addrs g (if first = [] then a else first) as)"

type_synonym resolver = "string \<Rightarrow> ip list result"

definition check_host :: "guard \<Rightarrow> resolver \<Rightarrow> string \<Rightarrow> goerr option" where
  "check_host g lookup host =
     (if \<not> enabled g \<or> host = [] \<or> host_allowed g host then None
      else if parse_ip host \<noteq> [] then
        (if blocked g (parse_ip host) then Some (blocked_address_error host (parse_ip host)) else None)
      else if is_numeric_host host then
        Some (Errorf ''ssrf guard: refusing non-canonical IP literal %q'' [host] [])
      else case lookup host of
        Inl err \<Rightarrow> Some (Errorf ''ssrf guard: cannot resolve host %q: %w'' [host] [err])
      | Inr addrs \<Rightarrow>
          (case check_addrs g [] addrs of
             None \<Rightarrow> None
           | Some first \<Rightarrow> if first = [] then None else Some (blocked_address_error host first)))"

section \<open>The dial guard\<close>

text \<open>\<^verbatim>\<open>Guard.Control\<close>: called by the dialer with the resolved address.\<close>

definition control :: "guard \<Rightarrow> string \<Rightarrow> goerr option" where
  "control g address =
     (let host = (case split_host_port address of Some (h, _) \<Rightarrow> h | None \<Rightarrow> address);
          ip = parse_ip host
      in if ip = [] then Some (Errorf ''ssrf guard: cannot parse dial address %q'' [address] [])
         else if blocked g ip then Some (blocked_address_error host ip)
         else None)"

definition host_of :: "string \<Rightarrow> string" where
  "host_of addr = (case split_host_port addr of Some (h, _) \<Rightarrow> h | None \<Rightarrow> addr)"

definition exempt_host :: "string \<Rightarrow> (string \<Rightarrow> bool) option" where
  "exempt_host host =
     (if host = [] then None
      else Some (\<lambda>addr. equal_fold (case split_host_port addr of Some (h, _) \<Rightarrow> h | None \<Rightarrow> addr) host))"

text \<open>
  The dialer \<^verbatim>\<open>DialContext\<close> uses for an address: a plain \<^verbatim>\<open>net.Dialer\<close>, or one whose
  \<^verbatim>\<open>Control\<close> hook is the guard's.
\<close>

datatype dialer = Plain | Guarded guard

definition dial_context :: "guard \<Rightarrow> (string \<Rightarrow> bool) option \<Rightarrow> string \<Rightarrow> dialer" where
  "dial_context g exempt addr =
     (if \<not> enabled g then Plain
      else if (case exempt of None \<Rightarrow> False | Some f \<Rightarrow> f addr) \<or> host_allowed g (host_of addr)
      then Plain else Guarded g)"

text \<open>
  \<^verbatim>\<open>net.Dialer\<close>: it resolves the address to the textual addresses \<open>targets\<close>, runs the hook on
  each before connecting, and returns the first that \<open>reach\<close> lets it connect to.
\<close>

definition dialer_control :: "dialer \<Rightarrow> string \<Rightarrow> goerr option" where
  "dialer_control d target = (case d of Plain \<Rightarrow> None | Guarded g \<Rightarrow> control g target)"

definition dial_run :: "dialer \<Rightarrow> (string \<Rightarrow> bool) \<Rightarrow> string list \<Rightarrow> string option" where
  "dial_run d reach targets =
     List.find (\<lambda>t. dialer_control d t = None \<and> reach t) targets"

section \<open>Facts about the guard\<close>

lemma add_allow_level [simp]:
  "g_level (add_allow g e) = g_level g" "g_custom (add_allow g e) = g_custom g"
  by (simp_all add: add_allow_def Let_def split: option.splits)

lemma foldl_add_allow_level [simp]:
  "g_level (foldl add_allow g es) = g_level g" "g_custom (foldl add_allow g es) = g_custom g"
  by (induction es arbitrary: g) simp_all

lemma new_guard_level [simp]:
  "g_level (new_guard l c a) = (if l = LevelDefault then LevelInternal else l)"
  "g_custom (new_guard l c a) = c"
  by (simp_all add: new_guard_def)

lemma new_guard_no_allow:
  "allow_hosts (new_guard l c []) = []" "allow_ips (new_guard l c []) = []"
  "allow_nets (new_guard l c []) = []"
  by (simp_all add: new_guard_def)

lemma ip_allowed_none [simp]: "allow_ips g = [] \<Longrightarrow> allow_nets g = [] \<Longrightarrow> \<not> ip_allowed g ip"
  by (simp add: ip_allowed_def)

lemma check_addrs_None: "check_addrs g f as = None \<longleftrightarrow> (\<exists>a\<in>set as. \<not> blocked g a)"
  by (induction as arbitrary: f) auto

lemma check_addrs_Some:
  "check_addrs g f as = Some b \<Longrightarrow> (\<forall>a\<in>set as. blocked g a) \<and> (b = f \<or> b \<in> set as)"
  by (induction as arbitrary: f) (auto split: if_splits)

lemma check_addrs_first:
  "check_addrs g f as = Some b \<Longrightarrow> f \<noteq> [] \<Longrightarrow> b = f"
  by (induction as arbitrary: f) (auto split: if_splits)

lemma check_addrs_nil:
  "check_addrs g [] as = Some [] \<Longrightarrow> \<forall>a\<in>set as. a = []"
  by (induction as) (auto split: if_splits dest: check_addrs_first)

lemma control_None:
  "control g t = None \<longleftrightarrow> parse_ip (host_of t) \<noteq> [] \<and> \<not> blocked g (parse_ip (host_of t))"
  by (auto simp: control_def host_of_def Let_def)

lemma dial_run_Some:
  "dial_run d reach ts = Some t \<Longrightarrow> t \<in> set ts \<and> reach t \<and> dialer_control d t = None"
  unfolding dial_run_def by (drule find_SomeD) auto

lemma dial_allowed:
  assumes "enabled g"
    and "dial_run (dial_context g exempt addr) reach targets = Some t"
  shows "(\<exists>f. exempt = Some f \<and> f addr) \<or> host_allowed g (host_of addr) \<or>
         (parse_ip (host_of t) \<noteq> [] \<and> \<not> blocked g (parse_ip (host_of t)))"
proof (cases "dial_context g exempt addr")
  case Plain
  then show ?thesis using assms(1) by (auto simp: dial_context_def split: if_splits option.splits)
next
  case (Guarded h)
  then have "h = g" by (auto simp: dial_context_def split: if_splits)
  with Guarded dial_run_Some [OF assms(2)] show ?thesis
    by (simp add: dialer_control_def control_None)
qed

section \<open>The internal level\<close>

text \<open>The networks the internal level is documented to block, and what they parse to.\<close>

definition internal_cidrs :: "string list" where
  "internal_cidrs =
     [''127.0.0.0/8'', ''10.0.0.0/8'', ''172.16.0.0/12'', ''192.168.0.0/16'', ''100.64.0.0/10'',
      ''169.254.0.0/16'', ''224.0.0.0/4'', ''0.0.0.0/32'',
      ''::1/128'', ''::/128'', ''fc00::/7'', ''fe80::/10'', ''ff00::/8'']"
definition internal_nets :: "ip_net list" where
  "internal_nets =
     [\<lparr>net_ip = [127, 0, 0, 0], net_mask = [255, 0, 0, 0]\<rparr>,
      \<lparr>net_ip = [10, 0, 0, 0], net_mask = [255, 0, 0, 0]\<rparr>,
      \<lparr>net_ip = [172, 16, 0, 0], net_mask = [255, 240, 0, 0]\<rparr>,
      \<lparr>net_ip = [192, 168, 0, 0], net_mask = [255, 255, 0, 0]\<rparr>,
      \<lparr>net_ip = [100, 64, 0, 0], net_mask = [255, 192, 0, 0]\<rparr>,
      \<lparr>net_ip = [169, 254, 0, 0], net_mask = [255, 255, 0, 0]\<rparr>,
      \<lparr>net_ip = [224, 0, 0, 0], net_mask = [240, 0, 0, 0]\<rparr>,
      \<lparr>net_ip = [0, 0, 0, 0], net_mask = [255, 255, 255, 255]\<rparr>,
      \<lparr>net_ip = ipv6_loopback, net_mask = replicate 16 255\<rparr>,
      \<lparr>net_ip = ipv6_unspecified, net_mask = replicate 16 255\<rparr>,
      \<lparr>net_ip = 252 # replicate 15 0, net_mask = 254 # replicate 15 0\<rparr>,
      \<lparr>net_ip = 254 # 128 # replicate 14 0, net_mask = 255 # 192 # replicate 14 0\<rparr>,
      \<lparr>net_ip = 255 # replicate 15 0, net_mask = 255 # replicate 15 0\<rparr>]"

lemma internal_cidrs_parse: "map parse_cidr internal_cidrs = map Some internal_nets"
  by code_simp

lemma cgnat_eq: "cgnat = \<lparr>net_ip = [100, 64, 0, 0], net_mask = [255, 192, 0, 0]\<rparr>"
  by code_simp

lemmas class_simps = blocked_def enabled_def new_guard_no_allow is_loopback_def is_private_def
  cgnat_eq is_link_local_unicast_def is_link_local_multicast_def is_interface_local_multicast_def
  is_multicast_def is_unspecified_def ip_equal_def ipv4_zero_def

lemma internal_nets_v4:
  "blocked (new_guard LevelInternal cu []) [a, b, c, d] \<longleftrightarrow>
   (\<exists>n\<in>set internal_nets. ip_net_contains n [a, b, c, d])"
  by (simp add: internal_nets_def net4_v4 net6_v4)
     (auto simp: class_simps net4_v4 ipv6_unspecified_def)

lemma internal_nets_v6:
  assumes "length ip = 16" and "to4 ip = None"
  shows "blocked (new_guard LevelInternal cu []) ip \<longleftrightarrow> (\<exists>n\<in>set internal_nets. ip_net_contains n ip)"
proof -
  have nz: "ip \<noteq> v4_in_v6_prefix @ [0, 0, 0, 0]" "ip \<noteq> []"
    using assms by (auto simp: to4_def)
  have "(\<exists>n\<in>set internal_nets. ip_net_contains n ip) \<longleftrightarrow>
    ip = ipv6_loopback \<or> ip = ipv6_unspecified \<or> ip ! 0 AND 254 = 252 \<or>
    (ip ! 0 = 254 \<and> ip ! 1 AND 192 = 128) \<or> ip ! 0 = 255"
    using assms by (simp add: internal_nets_def net4_v6 net6_host net6_byte net6_two_bytes)
  also have "\<dots> \<longleftrightarrow> blocked (new_guard LevelInternal cu []) ip"
    using nz assms by (auto simp: class_simps net4_v6)
  finally show ?thesis ..
qed

lemma internal_nets_length:
  "n \<in> set internal_nets \<Longrightarrow> length (fst (network_number_and_mask n)) \<in> {4, 16}"
  by (auto simp: internal_nets_def network_number_and_mask_def to4_def Let_def
      ipv6_loopback_def ipv6_unspecified_def split: option.splits)

lemma blocked_to4_no_allow:
  "to4 ip = Some v \<Longrightarrow> allow_ips g = [] \<Longrightarrow> allow_nets g = [] \<Longrightarrow> blocked g ip = blocked g v"
  using to4_idem [of ip v] by (auto simp: blocked_def Let_def) (auto simp: to4_def split: if_splits)

lemma internal_nets_odd_length:
  assumes "to4 ip = None" and "length ip \<noteq> 16" and "ip \<noteq> []"
  shows "\<not> blocked (new_guard LevelInternal cu []) ip" and
    "\<not> (\<exists>n\<in>set internal_nets. ip_net_contains n ip)"
proof -
  have l: "length ip \<noteq> 4" using assms(1) by (auto simp: to4_def)
  then show "\<not> (\<exists>n\<in>set internal_nets. ip_net_contains n ip)"
    using assms internal_nets_length by (fastforce simp: ip_net_contains_def split: prod.splits)
  show "\<not> blocked (new_guard LevelInternal cu []) ip"
    using assms l length_special by (auto simp: class_simps net_simps simp del: length_special)
qed

section \<open>The order of the levels\<close>

text \<open>The constants of the source are numbered in order; \<open>\<le>\<close> on levels compares those numbers.\<close>

fun level_int :: "level \<Rightarrow> int" where
  "level_int LevelDefault = 0"
| "level_int LevelNone = 1"
| "level_int LevelLoopback = 2"
| "level_int LevelInternal = 3"
| "level_int LevelCustom = 4"

instantiation level :: linorder
begin

definition less_eq_level :: "level \<Rightarrow> level \<Rightarrow> bool" where
  "less_eq_level a b \<longleftrightarrow> level_int a \<le> level_int b"

definition less_level :: "level \<Rightarrow> level \<Rightarrow> bool" where
  "less_level a b \<longleftrightarrow> level_int a < level_int b"

instance
proof
  fix a b :: level
  show "a \<le> b \<Longrightarrow> b \<le> a \<Longrightarrow> a = b"
    by (cases a; cases b) (simp_all add: less_eq_level_def)
qed (auto simp: less_eq_level_def less_level_def)

end

lemma add_allow_update:
  "add_allow (g\<lparr>g_level := l, g_custom := c\<rparr>) e = (add_allow g e)\<lparr>g_level := l, g_custom := c\<rparr>"
  by (simp add: add_allow_def Let_def split: option.splits)

lemma new_guard_update:
  "new_guard l' c' a =
     (new_guard l c a)\<lparr>g_level := (if l' = LevelDefault then LevelInternal else l'), g_custom := c'\<rparr>"
proof -
  have "foldl add_allow (g\<lparr>g_level := x, g_custom := y\<rparr>) es = (foldl add_allow g es)\<lparr>g_level := x, g_custom := y\<rparr>" for g x y es
    by (induction es arbitrary: g) (simp_all add: add_allow_update)
  from this [symmetric] show ?thesis by (simp add: new_guard_def)
qed

text \<open>Between \<^verbatim>\<open>None\<close> and \<^verbatim>\<open>Internal\<close> a higher level blocks whatever a lower one blocks.\<close>

lemma higher_level_blocks:
  assumes "LevelNone \<le> l" and "l \<le> l'" and "l' \<le> LevelInternal" and "blocked (new_guard l c a) ip"
  shows "blocked (new_guard l' c' a) ip"
proof -
  have "ip_allowed (new_guard l' c' a) ip = ip_allowed (new_guard l c a) ip"
    by (simp add: new_guard_update [of l' c' a l c] ip_allowed_def)
  then show ?thesis
    using assms by (cases l; cases l') (auto simp: blocked_def enabled_def less_eq_level_def Let_def split: if_splits)
qed

section \<open>Properties\<close>

text \<open>
  C7. At the default (internal) level the guard blocks exactly the documented networks:
  loopback, RFC 1918, CGNAT, link-local including the metadata endpoint, multicast, unique
  local and the unspecified addresses, in either address family and in the IPv4-mapped form,
  and no other address.
\<close>

theorem internal_level_exact:
  assumes "ip \<noteq> []"
  shows "blocked (new_guard LevelInternal cu []) ip \<longleftrightarrow>
         (\<exists>c\<in>set internal_cidrs. \<exists>n. parse_cidr c = Some n \<and> ip_net_contains n ip)"
proof -
  have "(\<exists>c\<in>set internal_cidrs. \<exists>n. parse_cidr c = Some n \<and> ip_net_contains n ip) \<longleftrightarrow>
        (\<exists>p\<in>set (map parse_cidr internal_cidrs). \<exists>n. p = Some n \<and> ip_net_contains n ip)"
    by auto
  also have "\<dots> \<longleftrightarrow> (\<exists>n\<in>set internal_nets. ip_net_contains n ip)"
    unfolding internal_cidrs_parse by auto
  also have "\<dots> \<longleftrightarrow> blocked (new_guard LevelInternal cu []) ip"
  proof (cases "to4 ip")
    case None
    then show ?thesis
      using internal_nets_v6 internal_nets_odd_length assms by (cases "length ip = 16") blast+
  next
    case (Some v)
    then obtain a b c d where v: "v = [a, b, c, d]" using to4_length list_of_length_4 by blast
    show ?thesis
      using contains_to4 [OF Some] blocked_to4_no_allow [OF Some, of "new_guard LevelInternal cu []"]
        internal_nets_v4 [of cu a b c d] v
      by (simp add: new_guard_no_allow)
  qed
  finally show ?thesis ..
qed

theorem internal_level_exact_witness:
  "blocked (new_guard LevelInternal None []) [169, 254, 169, 254] \<and>
   \<not> blocked (new_guard LevelInternal None []) [8, 8, 8, 8]"
proof -
  have "\<exists>c\<in>set internal_cidrs. \<exists>n. parse_cidr c = Some n \<and> ip_net_contains n [169, 254, 169, 254]"
  proof (intro bexI exI conjI)
    show "parse_cidr ''169.254.0.0/16'' = Some \<lparr>net_ip = [169, 254, 0, 0], net_mask = [255, 255, 0, 0]\<rparr>"
      by code_simp
    show "ip_net_contains \<lparr>net_ip = [169, 254, 0, 0], net_mask = [255, 255, 0, 0]\<rparr> [169, 254, 169, 254]"
      by (simp add: net4_v4)
    show "''169.254.0.0/16'' \<in> set internal_cidrs" by (simp add: internal_cidrs_def)
  qed
  moreover have "\<not> blocked (new_guard LevelInternal None []) [8, 8, 8, 8]" by code_simp
  ultimately show ?thesis using internal_level_exact [of "[169, 254, 169, 254]" None] by simp
qed

text \<open>The guard does not depend on whether an IPv4 address is written in four or sixteen bytes.\<close>

lemma add_allow_ips_length:
  "\<forall>a\<in>set (allow_ips g). length a = 16 \<Longrightarrow> \<forall>a\<in>set (allow_ips (add_allow g e)). length a = 16"
  using parse_ip_length [of "trim_space e"] by (auto simp: add_allow_def Let_def split: option.splits)

lemma add_allows_ips_length:
  "\<forall>a\<in>set (allow_ips g). length a = 16 \<Longrightarrow>
   \<forall>a\<in>set (allow_ips (foldl add_allow g al)). length a = 16"
proof (induction al arbitrary: g)
  case (Cons e es)
  show ?case unfolding foldl_Cons by (rule Cons.IH) (rule add_allow_ips_length [OF Cons.prems])
qed simp

lemma new_guard_ips_length: "a \<in> set (allow_ips (new_guard l c al)) \<Longrightarrow> length a = 16"
  using add_allows_ips_length [of "\<lparr>g_level = (if l = LevelDefault then LevelInternal else l), g_custom = c, allow_hosts = [], allow_ips = [], allow_nets = []\<rparr>" al]
  by (simp add: new_guard_def)

lemma ip_allowed_to4:
  "to4 ip = Some v \<Longrightarrow> ip_allowed (new_guard l c al) ip = ip_allowed (new_guard l c al) v"
  using new_guard_ips_length ip_equal_to4 contains_to4
  unfolding ip_allowed_def list_ex_iff by metis

text \<open>
  Writing an IPv4 address in its IPv6-mapped form (\<^verbatim>\<open>::ffff:a.b.c.d\<close>) changes no verdict,
  at any level, with any custom predicate and any allow list.
\<close>

theorem blocked_mapped_same:
  assumes "to4 ip = Some v"
  shows "blocked (new_guard l c al) ip = blocked (new_guard l c al) v"
proof -
  have "ip \<noteq> []" "v \<noteq> []" using assms to4_length [OF assms] by (auto simp: to4_def)
  then show ?thesis
    using assms to4_idem [OF assms] ip_allowed_to4 [OF assms, of l c al]
    by (simp add: blocked_def Let_def)
qed

theorem blocked_mapped_same_witness:
  "blocked (new_guard LevelDefault None [''192.168.0.0/16'']) (parse_ip ''::ffff:10.1.2.3'') =
   blocked (new_guard LevelDefault None [''192.168.0.0/16'']) [10, 1, 2, 3]"
  by (rule blocked_mapped_same) code_simp

text \<open>
  C21. The pre-fetch check passes a host exactly when the guard is off, the host is empty or
  on the allow list, it is an IP literal that is not blocked, or it is a name (not a number
  \<^verbatim>\<open>inet_aton\<close> would read as an address) that resolves, to an address that is not blocked or to
  no address.  Everything else fails closed: blocked literals, non-canonical literals, names
  that do not resolve, and names with only blocked addresses.
\<close>

theorem check_host_exact:
  "check_host g lookup host = None \<longleftrightarrow>
     \<not> enabled g \<or> host = [] \<or> host_allowed g host \<or>
     (if parse_ip host \<noteq> [] then \<not> blocked g (parse_ip host)
      else \<not> is_numeric_host host \<and>
           (\<exists>addrs. lookup host = Inr addrs \<and>
              ((\<exists>a\<in>set addrs. \<not> blocked g a) \<or> (\<forall>a\<in>set addrs. a = []))))"
proof -
  have "(case check_addrs g [] addrs of None \<Rightarrow> True | Some f \<Rightarrow> f = []) \<longleftrightarrow>
        (\<exists>a\<in>set addrs. \<not> blocked g a) \<or> (\<forall>a\<in>set addrs. a = [])" for addrs
  proof (cases "check_addrs g [] addrs")
    case None
    then show ?thesis using check_addrs_None [of g "[]" addrs] by simp
  next
    case (Some f)
    then have "f = [] \<or> f \<in> set addrs" "\<forall>a\<in>set addrs. blocked g a"
      using check_addrs_Some by blast+
    with Some check_addrs_nil [of g addrs] show ?thesis by auto
  qed
  note loop = this
  show ?thesis
  proof (cases "lookup host")
    case (Inl e)
    then show ?thesis by (simp add: check_host_def)
  next
    case (Inr addrs)
    have "check_host g lookup host = None \<longleftrightarrow> \<not> enabled g \<or> host = [] \<or> host_allowed g host \<or>
        (if parse_ip host \<noteq> [] then \<not> blocked g (parse_ip host)
         else \<not> is_numeric_host host \<and>
           (case check_addrs g [] addrs of None \<Rightarrow> True | Some f \<Rightarrow> f = []))"
      by (simp add: check_host_def Inr split: option.splits)
    then show ?thesis unfolding loop by (simp add: Inr)
  qed
qed

theorem check_host_exact_witness:
  "check_host (new_guard LevelInternal None []) (\<lambda>_. Inr [[127, 0, 0, 1]]) ''evil.com'' \<noteq> None"
proof -
  let ?g = "new_guard LevelInternal None []"
  have "enabled ?g" "\<not> host_allowed ?g ''evil.com''" "parse_ip ''evil.com'' = []" "blocked ?g [127, 0, 0, 1]"
    by code_simp+
  then show ?thesis by (simp add: check_host_exact [of ?g "\<lambda>_. Inr [[127, 0, 0, 1]]" "''evil.com''"])
qed

text \<open>
  The dial guard is what makes redirects and DNS rebinding harmless: whatever names resolve
  to and whatever can be reached, a connection that is made goes to an address that is not
  blocked, unless the dial address was exempt (a trusted proxy) or its host is on the allow list.
\<close>

theorem dial_never_reaches_blocked:
  assumes "enabled g"
    and "dial_run (dial_context g exempt addr) reach targets = Some t"
  shows "(\<exists>f. exempt = Some f \<and> f addr) \<or> host_allowed g (host_of addr) \<or>
         (parse_ip (host_of t) \<noteq> [] \<and> \<not> blocked g (parse_ip (host_of t)))"
  using assms by (rule dial_allowed)

theorem dial_never_reaches_blocked_witness:
  "dial_run (dial_context (new_guard LevelInternal None []) None ''evil.com:80'') (\<lambda>_. True)
     [''127.0.0.1:80'', ''8.8.8.8:80''] = Some ''8.8.8.8:80'' \<and>
   \<not> blocked (new_guard LevelInternal None []) (parse_ip ''8.8.8.8'')"
proof -
  have e: "enabled (new_guard LevelInternal None [])" by code_simp
  have r: "dial_run (dial_context (new_guard LevelInternal None []) None ''evil.com:80'') (\<lambda>_. True)
     [''127.0.0.1:80'', ''8.8.8.8:80''] = Some ''8.8.8.8:80''" by code_simp
  have h: "host_of ''8.8.8.8:80'' = ''8.8.8.8''" by code_simp
  show ?thesis using dial_never_reaches_blocked [OF e r] r
    by (simp add: h host_allowed_def new_guard_no_allow)
qed

end
