(* ===== verification/Go_Url.thy ===== *)
theory Go_Url
  imports Net_IP
begin

text \<open>
  The parts of \<^verbatim>\<open>net/url\<close> (as of Go 1.26, the version \<^verbatim>\<open>go.mod\<close> names) the program relies on:
  parsing, printing, escaping, host and port, and query parameters.  \<^verbatim>\<open>url.Values\<close> is the list
  of its key/value pairs in the order they were added; a Go map from keys to value lists holds
  the same information up to the order between different keys, which no operation observes
  (\<^verbatim>\<open>Encode\<close> sorts by key).
\<close>

section \<open>Escaping\<close>

datatype url_mode = EncPath | EncHost | EncZone | EncUserPassword | EncQuery | EncFragment

definition is_alnum :: "char \<Rightarrow> bool" where
  "is_alnum c = (is_upper c \<or> is_lower c \<or> is_digit c)"

definition should_escape :: "char \<Rightarrow> url_mode \<Rightarrow> bool" where
  "should_escape c mode =
     (if is_alnum c then False
      else if mode \<in> {EncHost, EncZone} \<and> c \<in> set ''!$&()*+,;=:[]<>\"'' \<union> {CHR 0x27} then False
      else if c \<in> set ''-_.~'' then False
      else if c \<in> set ''$&+,/:;=?@'' then
        (case mode of
           EncPath \<Rightarrow> c = CHR ''?''
         | EncUserPassword \<Rightarrow> c \<in> set ''@/?:''
         | EncQuery \<Rightarrow> True
         | EncFragment \<Rightarrow> False
         | _ \<Rightarrow> True)
      else if mode = EncFragment \<and> c \<in> set ''!()*'' then False
      else True)"

definition upper_hex :: "nat \<Rightarrow> char" where
  "upper_hex d = (if d < 10 then char_of (48 + d) else char_of (55 + d))"

definition escape_chr :: "url_mode \<Rightarrow> char \<Rightarrow> string" where
  "escape_chr mode c =
     (if c = CHR '' '' \<and> mode = EncQuery then ''+''
      else if should_escape c mode then [CHR ''%'', upper_hex (byte c div 16), upper_hex (byte c mod 16)]
      else [c])"

definition url_escape :: "url_mode \<Rightarrow> string \<Rightarrow> string" where
  "url_escape mode s = concat (map (escape_chr mode) s)"

definition unhex2 :: "char \<Rightarrow> char \<Rightarrow> char" where
  "unhex2 a b = char_of (16 * hex_val a + hex_val b)"

text \<open>
  Host names may only escape non-ASCII bytes (and \<^verbatim>\<open>%25\<close>); a zone may escape what a host could
  hold unescaped.
\<close>

definition escape_allowed :: "url_mode \<Rightarrow> char \<Rightarrow> char \<Rightarrow> bool" where
  "escape_allowed mode a b =
     (is_hex a \<and> is_hex b \<and>
      (mode = EncHost \<longrightarrow> 8 \<le> hex_val a \<or> [a, b] = ''25'') \<and>
      (mode = EncZone \<longrightarrow> [a, b] = ''25'' \<or> unhex2 a b = CHR '' '' \<or> \<not> should_escape (unhex2 a b) EncHost))"

fun url_unescape :: "url_mode \<Rightarrow> string \<Rightarrow> string option" where
  "url_unescape mode [] = Some []"
| "url_unescape mode (c # s) =
     (if c = CHR ''%'' then
        (case s of
           a # b # r \<Rightarrow>
             if escape_allowed mode a b then map_option (Cons (unhex2 a b)) (url_unescape mode r) else None
         | _ \<Rightarrow> None)
      else if mode \<in> {EncHost, EncZone} \<and> byte c < 128 \<and> should_escape c mode then None
      else map_option (Cons (if c = CHR ''+'' \<and> mode = EncQuery then CHR '' '' else c)) (url_unescape mode s))"

section \<open>URLs\<close>

record userinfo =
  ui_username :: string
  ui_password :: "string option"

record url =
  u_scheme :: string
  u_opaque :: string
  u_user :: "userinfo option"
  u_host :: string
  u_path :: string
  u_raw_path :: string
  u_omit_host :: bool
  u_force_query :: bool
  u_raw_query :: string
  u_fragment :: string
  u_raw_fragment :: string

definition empty_url :: url where
  "empty_url = \<lparr>u_scheme = [], u_opaque = [], u_user = None, u_host = [], u_path = [], u_raw_path = [],
     u_omit_host = False, u_force_query = False, u_raw_query = [], u_fragment = [], u_raw_fragment = []\<rparr>"

fun get_scheme_from :: "string \<Rightarrow> string \<Rightarrow> (string \<times> string) option" where
  "get_scheme_from seen [] = Some ([], rev seen)"
| "get_scheme_from seen (c # s) =
     (if is_upper c \<or> is_lower c then get_scheme_from (c # seen) s
      else if is_digit c \<or> c \<in> set ''+-.'' then
        (if seen = [] then Some ([], c # s) else get_scheme_from (c # seen) s)
      else if c = CHR '':'' then (if seen = [] then None else Some (rev seen, s))
      else Some ([], rev seen @ c # s))"

definition get_scheme :: "string \<Rightarrow> (string \<times> string) option" where
  "get_scheme s = get_scheme_from [] s"

definition valid_optional_port :: "string \<Rightarrow> bool" where
  "valid_optional_port p = (p = [] \<or> (hd p = CHR '':'' \<and> list_all is_digit (tl p)))"

definition valid_userinfo :: "string \<Rightarrow> bool" where
  "valid_userinfo s = list_all (\<lambda>c. is_alnum c \<or> c \<in> set ''-._:~!$&()*+,;=%@'' \<or> c = CHR 0x27) s"

definition url_parse_host :: "string \<Rightarrow> string option" where
  "url_parse_host host =
     (case last_index_chr host CHR ''['' of
        Some (Suc _) \<Rightarrow> None
      | Some 0 \<Rightarrow>
          (case last_index_chr host CHR '']'' of
             None \<Rightarrow> None
           | Some close \<Rightarrow>
               let colon_port = drop (Suc close) host;
                   hostname = take (close - 1) (drop 1 host)
               in if \<not> valid_optional_port colon_port then None
                  else
                    (case (case index_str hostname ''%25'' of
                             Some z \<Rightarrow>
                               (case (url_unescape EncHost (take z hostname), url_unescape EncZone (drop z hostname)) of
                                  (Some a, Some b) \<Rightarrow> Some (a @ b) | _ \<Rightarrow> None)
                           | None \<Rightarrow> url_unescape EncHost hostname) of
                       None \<Rightarrow> None
                     | Some name \<Rightarrow>
                         (case parse_addr name of
                            None \<Rightarrow> None
                          | Some (a, _) \<Rightarrow>
                              if length a = 4 then None
                              else Some (''['' @ name @ '']'' @ colon_port))))
      | None \<Rightarrow>
          (case index_str host '':'' of
             Some i \<Rightarrow> if valid_optional_port (drop i host) then url_unescape EncHost host else None
           | None \<Rightarrow> url_unescape EncHost host))"

definition url_parse_userinfo :: "string \<Rightarrow> userinfo option" where
  "url_parse_userinfo info =
     (if \<not> valid_userinfo info then None
      else case cut_str info '':'' of
        (name, pw, found) \<Rightarrow>
          if \<not> found then map_option (\<lambda>n. \<lparr>ui_username = n, ui_password = None\<rparr>) (url_unescape EncUserPassword info)
          else (case (url_unescape EncUserPassword name, url_unescape EncUserPassword pw) of
                  (Some n, Some p) \<Rightarrow> Some \<lparr>ui_username = n, ui_password = Some p\<rparr>
                | _ \<Rightarrow> None))"

definition url_parse_authority :: "string \<Rightarrow> (userinfo option \<times> string) option" where
  "url_parse_authority authority =
     (case last_index_chr authority CHR ''@'' of
        None \<Rightarrow> map_option (\<lambda>h. (None, h)) (url_parse_host authority)
      | Some i \<Rightarrow>
          (case (url_parse_host (drop (Suc i) authority), url_parse_userinfo (take i authority)) of
             (Some h, Some ui) \<Rightarrow> Some (Some ui, h)
           | _ \<Rightarrow> None))"

definition set_url_path :: "string \<Rightarrow> url \<Rightarrow> url option" where
  "set_url_path p u =
     (case url_unescape EncPath p of
        None \<Rightarrow> None
      | Some path \<Rightarrow> Some (u\<lparr>u_path := path, u_raw_path := (if url_escape EncPath path = p then [] else p)\<rparr>))"

definition set_url_fragment :: "string \<Rightarrow> url \<Rightarrow> url option" where
  "set_url_fragment f u =
     (case url_unescape EncFragment f of
        None \<Rightarrow> None
      | Some frag \<Rightarrow>
          Some (u\<lparr>u_fragment := frag, u_raw_fragment := (if url_escape EncFragment frag = f then [] else f)\<rparr>))"

definition contains_ctl :: "string \<Rightarrow> bool" where
  "contains_ctl s = list_ex (\<lambda>c. byte c < 32 \<or> byte c = 127) s"

definition url_parse_hier :: "string \<Rightarrow> url \<Rightarrow> url option" where
  "url_parse_hier rest u =
     (if has_prefix rest ''//'' \<and> (u_scheme u \<noteq> [] \<or> \<not> has_prefix rest ''///'') then
        (let authority = takeWhile (\<lambda>c. c \<noteq> CHR ''/'') (drop 2 rest);
             path = dropWhile (\<lambda>c. c \<noteq> CHR ''/'') (drop 2 rest)
         in case url_parse_authority authority of
              None \<Rightarrow> None
            | Some (user, host) \<Rightarrow> set_url_path path (u\<lparr>u_user := user, u_host := host\<rparr>))
      else if u_scheme u \<noteq> [] \<and> has_prefix rest ''/'' then set_url_path rest (u\<lparr>u_omit_host := True\<rparr>)
      else set_url_path rest u)"

definition url_parse_nofrag :: "string \<Rightarrow> url option" where
  "url_parse_nofrag raw =
     (if contains_ctl raw then None
      else if raw = ''*'' then Some (empty_url\<lparr>u_path := ''*''\<rparr>)
      else case get_scheme raw of
        None \<Rightarrow> None
      | Some (scheme, rest0) \<Rightarrow>
          let force = (has_suffix rest0 ''?'' \<and> length (filter (\<lambda>c. c = CHR ''?'') rest0) = 1);
              (rest, query, _) = cut_str rest0 ''?'';
              u = empty_url\<lparr>u_scheme := to_lower scheme, u_force_query := force, u_raw_query := query\<rparr>
          in if \<not> has_prefix rest ''/'' \<and> scheme \<noteq> [] then Some (u\<lparr>u_opaque := rest\<rparr>)
             else if \<not> has_prefix rest ''/'' \<and> CHR '':'' \<in> set (takeWhile (\<lambda>c. c \<noteq> CHR ''/'') rest) then None
             else url_parse_hier rest u)"

text \<open>\<^verbatim>\<open>url.Parse\<close>; \<open>None\<close> is its error.\<close>

definition url_parse :: "string \<Rightarrow> url option" where
  "url_parse raw =
     (case cut_str raw ''#'' of
        (u, frag, _) \<Rightarrow>
          (case url_parse_nofrag u of
             None \<Rightarrow> None
           | Some v \<Rightarrow> if frag = [] then Some v else set_url_fragment frag v))"

section \<open>Host and port\<close>

definition url_split_host_port :: "string \<Rightarrow> string \<times> string" where
  "url_split_host_port hp =
     (let (host, port) =
        (case last_index_chr hp CHR '':'' of
           Some i \<Rightarrow> if valid_optional_port (drop i hp) then (take i hp, drop (Suc i) hp) else (hp, [])
         | None \<Rightarrow> (hp, []))
      in if has_prefix host ''['' \<and> has_suffix host '']'' then (take (length host - 2) (drop 1 host), port)
         else (host, port))"

definition url_hostname :: "url \<Rightarrow> string" where
  "url_hostname u = fst (url_split_host_port (u_host u))"

definition url_port :: "url \<Rightarrow> string" where
  "url_port u = snd (url_split_host_port (u_host u))"

section \<open>Printing\<close>

definition valid_encoded :: "url_mode \<Rightarrow> string \<Rightarrow> bool" where
  "valid_encoded mode s =
     list_all (\<lambda>c. c \<in> set ''!$&()*+,;=:@[]%'' \<or> c = CHR 0x27 \<or> \<not> should_escape c mode) s"

definition escaped_path :: "url \<Rightarrow> string" where
  "escaped_path u =
     (if u_raw_path u \<noteq> [] \<and> valid_encoded EncPath (u_raw_path u) \<and>
         url_unescape EncPath (u_raw_path u) = Some (u_path u) then u_raw_path u
      else if u_path u = ''*'' then ''*''
      else url_escape EncPath (u_path u))"

definition escaped_fragment :: "url \<Rightarrow> string" where
  "escaped_fragment u =
     (if u_raw_fragment u \<noteq> [] \<and> valid_encoded EncFragment (u_raw_fragment u) \<and>
         url_unescape EncFragment (u_raw_fragment u) = Some (u_fragment u) then u_raw_fragment u
      else url_escape EncFragment (u_fragment u))"

definition userinfo_string :: "userinfo \<Rightarrow> string" where
  "userinfo_string ui =
     url_escape EncUserPassword (ui_username ui) @
     (case ui_password ui of None \<Rightarrow> [] | Some p \<Rightarrow> '':'' @ url_escape EncUserPassword p)"

definition url_authority_string :: "url \<Rightarrow> string" where
  "url_authority_string u =
     (if u_scheme u \<noteq> [] \<or> u_host u \<noteq> [] \<or> u_user u \<noteq> None then
        (if u_omit_host u \<and> u_host u = [] \<and> u_user u = None then []
         else (if u_host u \<noteq> [] \<or> u_path u \<noteq> [] \<or> u_user u \<noteq> None then ''//'' else []) @
              (case u_user u of None \<Rightarrow> [] | Some ui \<Rightarrow> userinfo_string ui @ ''@'') @
              url_escape EncHost (u_host u))
      else [])"

definition url_string :: "url \<Rightarrow> string" where
  "url_string u =
     (let pre = (if u_scheme u \<noteq> [] then u_scheme u @ '':'' else []);
          body =
            (if u_opaque u \<noteq> [] then u_opaque u
             else let auth = url_authority_string u;
                      path = escaped_path u;
                      slash = (if path \<noteq> [] \<and> hd path \<noteq> CHR ''/'' \<and> u_host u \<noteq> [] then ''/'' else []);
                      dot = (if pre @ auth @ slash = [] \<and> CHR '':'' \<in> set (takeWhile (\<lambda>c. c \<noteq> CHR ''/'') path)
                             then ''./'' else [])
                  in auth @ slash @ dot @ path)
      in pre @ body @
         (if u_force_query u \<or> u_raw_query u \<noteq> [] then ''?'' @ u_raw_query u else []) @
         (if u_fragment u \<noteq> [] then ''#'' @ escaped_fragment u else []))"

section \<open>Query parameters\<close>

type_synonym query = "(string \<times> string) list"

definition parse_pair :: "string \<Rightarrow> (string \<times> string) option" where
  "parse_pair p =
     (if p = [] \<or> CHR '';'' \<in> set p then None
      else case cut_str p ''='' of
        (k, v, _) \<Rightarrow>
          (case (url_unescape EncQuery k, url_unescape EncQuery v) of
             (Some k', Some v') \<Rightarrow> Some (k', v') | _ \<Rightarrow> None))"

text \<open>\<^verbatim>\<open>URL.Query\<close>: malformed pairs are dropped.\<close>

definition query_pairs :: "string \<Rightarrow> query" where
  "query_pairs q = List.map_filter parse_pair (split_chr CHR ''&'' q)"

text \<open>\<^verbatim>\<open>url.ParseQuery\<close>: the pairs, and an error when one was malformed.\<close>

definition parse_query :: "string \<Rightarrow> query option" where
  "parse_query q =
     (if \<exists>p\<in>set (split_chr CHR ''&'' q). p \<noteq> [] \<and> parse_pair p = None then None
      else Some (query_pairs q))"

definition query_get :: "query \<Rightarrow> string \<Rightarrow> string" where
  "query_get q k = (case map_of q k of None \<Rightarrow> [] | Some v \<Rightarrow> v)"

definition query_has :: "query \<Rightarrow> string \<Rightarrow> bool" where
  "query_has q k = list_ex (\<lambda>(k', _). k' = k) q"

definition query_del :: "query \<Rightarrow> string \<Rightarrow> query" where
  "query_del q k = filter (\<lambda>(k', _). k' \<noteq> k) q"

fun str_le :: "string \<Rightarrow> string \<Rightarrow> bool" where
  "str_le [] t = True"
| "str_le (c # s) [] = False"
| "str_le (c # s) (d # t) = (byte c < byte d \<or> (c = d \<and> str_le s t))"

fun insert_pair :: "string \<times> string \<Rightarrow> query \<Rightarrow> query" where
  "insert_pair p [] = [p]"
| "insert_pair p (q # qs) = (if str_le (fst p) (fst q) then p # q # qs else q # insert_pair p qs)"

definition sort_pairs :: "query \<Rightarrow> query" where
  "sort_pairs q = foldr insert_pair q []"

definition query_encode :: "query \<Rightarrow> string" where
  "query_encode q =
     join_str ''&'' (map (\<lambda>(k, v). url_escape EncQuery k @ ''='' @ url_escape EncQuery v) (sort_pairs q))"

definition url_query :: "url \<Rightarrow> query" where
  "url_query u = query_pairs (u_raw_query u)"

section \<open>Round trips\<close>

lemma upper_hex_digits:
  assumes "d < 16"
  shows "is_hex (upper_hex d) \<and> hex_val (upper_hex d) = d \<and> is_alnum (upper_hex d)"
  using assms
  by (auto simp: upper_hex_def is_hex_def is_alnum_def is_digit_def is_upper_def is_lower_def
      hex_val_def digit_val_def)

lemma byte_halves: "byte c div 16 < 16" "byte c mod 16 < 16"
  using byte_less [of c] by (auto intro: less_mult_imp_div_less)

lemma unhex2_upper_hex: "unhex2 (upper_hex (byte c div 16)) (upper_hex (byte c mod 16)) = c"
  using upper_hex_digits [OF byte_halves(1)] upper_hex_digits [OF byte_halves(2)]
  by (simp add: unhex2_def)

lemma percent_plus_escaped: "should_escape CHR ''%'' mode" "should_escape CHR ''+'' EncQuery"
  by (cases mode; simp add: should_escape_def is_alnum_def is_digit_def is_upper_def is_lower_def)+

lemma unescape_escape_chr:
  assumes "mode \<notin> {EncHost, EncZone}"
  shows "url_unescape mode (escape_chr mode c @ s) = map_option (Cons c) (url_unescape mode s)"
proof -
  have "escape_allowed mode (upper_hex (byte c div 16)) (upper_hex (byte c mod 16))"
    using assms upper_hex_digits [OF byte_halves(1)] upper_hex_digits [OF byte_halves(2)] by (simp add: escape_allowed_def)
  moreover have "c \<noteq> CHR ''%''" if "\<not> should_escape c mode" using that percent_plus_escaped(1) by blast
  moreover have "c \<noteq> CHR ''+''" if "\<not> should_escape c EncQuery" using that percent_plus_escaped(2) by blast
  ultimately show ?thesis
    using assms by (auto simp: escape_chr_def unhex2_upper_hex)
qed

lemma unescape_escape:
  "mode \<notin> {EncHost, EncZone} \<Longrightarrow> url_unescape mode (url_escape mode s) = Some s"
proof (induction s)
  case (Cons c s)
  then have "url_unescape mode (url_escape mode (c # s)) = map_option (Cons c) (url_unescape mode (url_escape mode s))"
    using unescape_escape_chr [of mode c "url_escape mode s"] by (simp add: url_escape_def)
  with Cons show ?case by simp
qed (simp add: url_escape_def)

lemma escape_query_chars:
  assumes "x \<in> set (url_escape EncQuery s)"
  shows "x \<notin> set ''&;=#?''"
proof -
  have special: "list_all (\<lambda>y. should_escape y EncQuery \<and> \<not> is_alnum y) ''&;=#?''" by code_simp
  obtain c where c: "x \<in> set (escape_chr EncQuery c)" using assms by (auto simp: url_escape_def)
  have "is_alnum (upper_hex (byte c div 16))" "is_alnum (upper_hex (byte c mod 16))"
    using upper_hex_digits [OF byte_halves(1)] upper_hex_digits [OF byte_halves(2)] by simp_all
  with c consider "x = CHR ''+''" | "x = CHR ''%''" | "is_alnum x" | "\<not> should_escape x EncQuery"
    by (auto simp: escape_chr_def split: if_splits)
  then show ?thesis
  proof cases
    case 3 then show ?thesis using special by (auto simp: list_all_iff)
  next
    case 4 then show ?thesis using special by (auto simp: list_all_iff)
  qed simp_all
qed

definition encode_pair :: "string \<times> string \<Rightarrow> string" where
  "encode_pair kv = url_escape EncQuery (fst kv) @ ''='' @ url_escape EncQuery (snd kv)"

lemma encode_pair_chars: "x \<in> set (encode_pair kv) \<Longrightarrow> x \<notin> set ''&;#?''"
  using escape_query_chars by (fastforce simp: encode_pair_def)

lemma cut_at_new: "c \<notin> set a \<Longrightarrow> cut_str (a @ c # b) [c] = (a, b, True)"
proof -
  assume "c \<notin> set a"
  then have "index_str (a @ c # b) [c] = Some (length a)" by (induction a) auto
  then show ?thesis by (simp add: cut_str_def)
qed

lemma parse_encode_pair: "parse_pair (encode_pair kv) = Some kv"
proof -
  have a: "CHR ''='' \<notin> set (url_escape EncQuery (fst kv))" using escape_query_chars by fastforce
  have "cut_str (encode_pair kv) ''='' =
     (url_escape EncQuery (fst kv), url_escape EncQuery (snd kv), True)"
    using cut_at_new [OF a] by (simp add: encode_pair_def)
  moreover have "CHR '';'' \<notin> set (encode_pair kv)" using encode_pair_chars by fastforce
  moreover have "encode_pair kv \<noteq> []" by (simp add: encode_pair_def)
  ultimately show ?thesis by (simp add: parse_pair_def unescape_escape)
qed

lemma query_pairs_join: "query_pairs (join_str ''&'' (map encode_pair q)) = q"
proof (cases "q = []")
  case False
  have "split_chr CHR ''&'' (join_str ''&'' (map encode_pair q)) = map encode_pair q"
    using False encode_pair_chars by (intro split_join) fastforce+
  then show ?thesis
    by (simp add: query_pairs_def List.map_filter_def comp_def parse_encode_pair)
qed (simp add: query_pairs_def List.map_filter_def parse_pair_def)

lemma query_encode_alt: "query_encode q = join_str ''&'' (map encode_pair (sort_pairs q))"
  unfolding query_encode_def encode_pair_def case_prod_unfold by simp

lemma query_pairs_encode: "query_pairs (query_encode q) = sort_pairs q"
  by (simp add: query_encode_alt query_pairs_join)

text \<open>Sorting by key keeps, for every key, its values in order.\<close>

lemma str_le_refl [simp]: "str_le s s"
  by (induction s) auto

lemma filter_insert_pair:
  "filter (\<lambda>(k', _). k' = k) (insert_pair p q) = filter (\<lambda>(k', _). k' = k) (p # q)"
  by (induction q) (auto split: if_splits)

lemma filter_sort_pairs: "filter (\<lambda>(k', _). k' = k) (sort_pairs q) = filter (\<lambda>(k', _). k' = k) q"
proof (induction q)
  case (Cons p q)
  have "sort_pairs (p # q) = insert_pair p (sort_pairs q)" by (simp add: sort_pairs_def)
  then show ?case using Cons by (simp add: filter_insert_pair split: prod.splits)
qed (simp add: sort_pairs_def)

end
