(* ===== verification/Settings.thy ===== *)
theory Settings
  imports Ssrf Go_Url "HOL-Library.Sublist"
begin

text \<open>
  \<^verbatim>\<open>settings/settings.go\<close>, first half: the settings every protocol is given, and how a
  credential, key, certificate or proxy is chosen for a URL or a host.

  Byte slices are strings; one that the code compares with nil is a \<open>string option\<close>.  The
  code's pointers into the configured slices are only read, so a matched element is returned
  by value.  The base transport, whose parts only \<open>Settings_Net\<close> uses, is the type parameter
  \<open>'t\<close>.
\<close>

section \<open>Data\<close>

record aws_credentials =
  access_key_id :: string
  secret_access_key :: string
  session_token :: string
  aws_region :: string

record gcp_credentials =
  service_account_key :: string
  gcp_endpoint :: string

record oci_credential =
  oci_registry :: string
  oci_username :: string
  oci_password :: string

record ssh_credential =
  ssh_host :: string
  ssh_key :: "string option"

record https_credential =
  hc_host :: string
  hc_username :: string
  hc_password :: string
  hc_path :: string

record client_certificate =
  cc_host :: string
  cc_cert :: string
  cc_key :: string

record proxy_config =
  px_host :: string
  px_url :: "url option"
  px_username :: string
  px_password :: string

record git_config =
  ssh_keys :: "ssh_credential list"
  known_hosts :: "string option"
  git_depth :: int
  insecure_skip_host_key_verify :: bool
  ssh_to_https_enabled :: bool
  recurse_submodules :: bool

text \<open>The dynamic credential callback: protocol, host and path to username, password and ok.\<close>

type_synonym credential_request = "string \<Rightarrow> string \<Rightarrow> string \<Rightarrow> string option \<times> string option \<times> bool"

record 't settings =
  enable_auto_extract :: bool
  aws_creds :: aws_credentials
  gcp_creds :: gcp_credentials
  oci_credentials :: "oci_credential list"
  oci_plain_http :: bool
  https_credentials :: "https_credential list"
  git :: git_config
  no_system_fallback :: bool
  no_ambient_credentials :: bool
  temporary_directory :: string
  http_transport :: "'t option"
  use_netrc :: bool
  tls_ca_certs :: "string list"
  client_certificates :: "client_certificate list"
  proxies :: "proxy_config list"
  ssrf_level :: level
  ssrf_custom :: "(ip \<Rightarrow> bool) option"
  ssrf_allow :: "string list"
  http_credential_request :: "credential_request option"
  connect_probe_timeout :: int
  max_bytes :: int
  allowed_local_dirs :: "string list"

definition default_max_bytes :: int where
  "default_max_bytes = 10 * 2 ^ 30"

text \<open>\<open>Defaults\<close>; \<open>tmp\<close> is \<^verbatim>\<open>os.TempDir()\<close>.\<close>

definition default_settings :: "string \<Rightarrow> 't settings" where
  "default_settings tmp =
     \<lparr>enable_auto_extract = True,
      aws_creds = \<lparr>access_key_id = [], secret_access_key = [], session_token = [], aws_region = []\<rparr>,
      gcp_creds = \<lparr>service_account_key = [], gcp_endpoint = []\<rparr>,
      oci_credentials = [], oci_plain_http = False, https_credentials = [],
      git = \<lparr>ssh_keys = [], known_hosts = None, git_depth = 0, insecure_skip_host_key_verify = False,
             ssh_to_https_enabled = False, recurse_submodules = False\<rparr>,
      no_system_fallback = False, no_ambient_credentials = False, temporary_directory = tmp,
      http_transport = None, use_netrc = False, tls_ca_certs = [], client_certificates = [], proxies = [],
      ssrf_level = LevelDefault, ssrf_custom = None, ssrf_allow = [], http_credential_request = None,
      connect_probe_timeout = 0, max_bytes = default_max_bytes, allowed_local_dirs = []\<rparr>"

section \<open>HTTPS credentials\<close>

definition has_prefix_fold :: "string \<Rightarrow> string \<Rightarrow> bool" where
  "has_prefix_fold s pre = (length pre \<le> length s \<and> equal_fold (take (length pre) s) pre)"

definition has_segment_prefix_fold :: "string \<Rightarrow> string \<Rightarrow> bool" where
  "has_segment_prefix_fold s pre =
     (if \<not> has_prefix_fold s pre then False
      else length s = length pre \<or> s ! length pre = CHR ''/'')"

text \<open>One round of the loop: the length of the matched path prefix (-1 for a host-only match).\<close>

definition https_match :: "url \<Rightarrow> string \<Rightarrow> https_credential \<Rightarrow> int option" where
  "https_match u url_user cred =
     (if \<not> equal_fold (hc_host cred) (url_hostname u) then None
      else if url_user \<noteq> [] \<and> \<not> equal_fold (hc_username cred) url_user then None
      else if hc_path cred \<noteq> [] then
        (let cred_path = trim_suffix (hc_path cred) ''/'';
             url_path = trim_suffix (trim_suffix (u_path u) ''/'') ''.git''
         in if has_segment_prefix_fold url_path cred_path then Some (int (length cred_path)) else None)
      else Some (- 1))"

definition match_https_credentials :: "'t settings \<Rightarrow> string \<Rightarrow> https_credential list" where
  "match_https_credentials s raw =
     (case url_parse raw of
        None \<Rightarrow> []
      | Some u \<Rightarrow>
          let url_user = (case u_user u of None \<Rightarrow> [] | Some ui \<Rightarrow> ui_username ui);
              matches = List.map_filter
                (\<lambda>c. map_option (\<lambda>n. (c, n)) (https_match u url_user c)) (https_credentials s)
          in map fst (sort_key (\<lambda>(_, n). - n) matches))"

definition match_https_credential :: "'t settings \<Rightarrow> string \<Rightarrow> https_credential option" where
  "match_https_credential s raw =
     (case match_https_credentials s raw of [] \<Rightarrow> None | c # _ \<Rightarrow> Some c)"

section \<open>Host-scoped choices\<close>

fun match_ssh_key_loop :: "string \<Rightarrow> string option \<Rightarrow> ssh_credential list \<Rightarrow> string option" where
  "match_ssh_key_loop host fallback [] = fallback"
| "match_ssh_key_loop host fallback (c # cs) =
     (if ssh_host c = [] then match_ssh_key_loop host (if fallback = None then ssh_key c else fallback) cs
      else if equal_fold (ssh_host c) host then ssh_key c
      else match_ssh_key_loop host fallback cs)"

definition match_ssh_key :: "'t settings \<Rightarrow> string \<Rightarrow> string option" where
  "match_ssh_key s host = match_ssh_key_loop host None (ssh_keys (git s))"

fun match_ssh_keys_loop :: "string \<Rightarrow> string option list \<Rightarrow> string option list \<Rightarrow> ssh_credential list \<Rightarrow> string option list" where
  "match_ssh_keys_loop host host_keys defaults [] = host_keys @ defaults"
| "match_ssh_keys_loop host host_keys defaults (c # cs) =
     (if ssh_host c = [] then match_ssh_keys_loop host host_keys (defaults @ [ssh_key c]) cs
      else if equal_fold (ssh_host c) host then match_ssh_keys_loop host (host_keys @ [ssh_key c]) defaults cs
      else match_ssh_keys_loop host host_keys defaults cs)"

definition match_ssh_keys :: "'t settings \<Rightarrow> string \<Rightarrow> string option list" where
  "match_ssh_keys s host = match_ssh_keys_loop host [] [] (ssh_keys (git s))"

fun match_oci_loop :: "string \<Rightarrow> oci_credential option \<Rightarrow> oci_credential list \<Rightarrow> oci_credential option" where
  "match_oci_loop registry fallback [] = fallback"
| "match_oci_loop registry fallback (c # cs) =
     (if oci_registry c = [] then match_oci_loop registry (if fallback = None then Some c else fallback) cs
      else if equal_fold (oci_registry c) registry then Some c
      else match_oci_loop registry fallback cs)"

definition match_oci_credential :: "'t settings \<Rightarrow> string \<Rightarrow> oci_credential option" where
  "match_oci_credential s registry = match_oci_loop registry None (oci_credentials s)"

fun match_cert_loop :: "string \<Rightarrow> client_certificate option \<Rightarrow> client_certificate list \<Rightarrow> client_certificate option" where
  "match_cert_loop host fallback [] = fallback"
| "match_cert_loop host fallback (c # cs) =
     (if cc_host c = [] then match_cert_loop host (if fallback = None then Some c else fallback) cs
      else if equal_fold (cc_host c) host then Some c
      else match_cert_loop host fallback cs)"

definition match_client_certificate :: "'t settings \<Rightarrow> string \<Rightarrow> client_certificate option" where
  "match_client_certificate s host = match_cert_loop host None (client_certificates s)"

fun match_proxy_loop :: "string \<Rightarrow> proxy_config option \<Rightarrow> proxy_config list \<Rightarrow> proxy_config option" where
  "match_proxy_loop host fallback [] = fallback"
| "match_proxy_loop host fallback (p # ps) =
     (if px_host p = [] then match_proxy_loop host (if fallback = None then Some p else fallback) ps
      else if equal_fold (px_host p) host then Some p
      else match_proxy_loop host fallback ps)"

definition match_proxy :: "'t settings \<Rightarrow> string \<Rightarrow> proxy_config option" where
  "match_proxy s host = match_proxy_loop host None (proxies s)"

definition proxy_url :: "proxy_config option \<Rightarrow> url option" where
  "proxy_url p =
     (case p of
        None \<Rightarrow> None
      | Some c \<Rightarrow>
          (case px_url c of
             None \<Rightarrow> None
           | Some u \<Rightarrow>
               if px_username c \<noteq> [] \<or> px_password c \<noteq> []
               then Some (u\<lparr>u_user := Some \<lparr>ui_username = px_username c, ui_password = Some (px_password c)\<rparr>\<rparr>)
               else Some u))"

definition ssrf_guard :: "'t settings \<Rightarrow> guard" where
  "ssrf_guard s = new_guard (ssrf_level s) (ssrf_custom s) (ssrf_allow s)"

text \<open>
  The callback of the caller is a function of what it is asked: effects of its own are not modelled,
  and neither is when it is asked, which for Git is only once the credentials before it were tried.
\<close>

definition request_credential :: "'t settings \<Rightarrow> string \<Rightarrow> string \<Rightarrow> string \<Rightarrow> (string \<times> string) option" where
  "request_credential s protocol host path =
     (case http_credential_request s of
        None \<Rightarrow> None
      | Some f \<Rightarrow>
          (case f protocol host path of
             (u, p, ok) \<Rightarrow>
               if \<not> ok then None
               else Some (case u of None \<Rightarrow> [] | Some x \<Rightarrow> x, case p of None \<Rightarrow> [] | Some x \<Rightarrow> x)))"

section \<open>The contract of a host-scoped choice\<close>

text \<open>
  The four choosers share one contract: the first entry for the host wins, otherwise the
  first usable default.  \<open>pick\<close> is the operation, \<open>scope\<close> the host of an entry (empty for a
  default) and \<open>result\<close> what is returned for it.
\<close>

locale host_scoped =
  fixes scope :: "'c \<Rightarrow> string"
    and result :: "'c \<Rightarrow> 'v option"
    and pick :: "'c list \<Rightarrow> string \<Rightarrow> 'v option"
  assumes pick_first:
    "pick cs host =
       (case List.find (\<lambda>c. scope c \<noteq> [] \<and> equal_fold (scope c) host) cs of
          Some c \<Rightarrow> result c
        | None \<Rightarrow> Option.bind (List.find (\<lambda>c. scope c = [] \<and> result c \<noteq> None) cs) result)"
begin

lemma specific_wins:
  assumes "c \<in> set cs" and "scope c \<noteq> []" and "equal_fold (scope c) host"
  shows "\<exists>d\<in>set cs. scope d \<noteq> [] \<and> equal_fold (scope d) host \<and> pick cs host = result d"
proof -
  let ?P = "\<lambda>c. scope c \<noteq> [] \<and> equal_fold (scope c) host"
  have "List.find ?P cs \<noteq> None" using assms by (auto simp: find_None_iff)
  then obtain d where d: "List.find ?P cs = Some d" by blast
  then show ?thesis using find_SomeD [OF d] by (auto simp: pick_first)
qed

lemma default_otherwise:
  assumes "\<forall>c\<in>set cs. scope c \<noteq> [] \<longrightarrow> \<not> equal_fold (scope c) host"
  shows "pick cs host = Option.bind (List.find (\<lambda>c. scope c = [] \<and> result c \<noteq> None) cs) result"
proof -
  have "List.find (\<lambda>c. scope c \<noteq> [] \<and> equal_fold (scope c) host) cs = None"
    using assms by (auto simp: find_None_iff)
  then show ?thesis by (simp add: pick_first)
qed

lemma never_other_host:
  assumes "pick cs host = Some v"
  shows "\<exists>c\<in>set cs. result c = Some v \<and> (scope c = [] \<or> equal_fold (scope c) host)"
  using assms by (auto simp: pick_first Option.bind_eq_Some_conv dest!: find_SomeD split: option.splits)

lemma host_case_insensitive:
  assumes "equal_fold host host'"
  shows "pick cs host = pick cs host'"
proof -
  have "equal_fold (scope c) host = equal_fold (scope c) host'" for c
    using assms by (metis equal_fold_sym equal_fold_trans)
  then show ?thesis by (simp add: pick_first)
qed

lemma append_other:
  assumes "\<forall>d\<in>set ds. scope d \<noteq> [] \<and> \<not> equal_fold (scope d) host"
  shows "pick (cs @ ds) host = pick cs host"
proof -
  have app: "List.find P (cs @ ds) = List.find P cs" if "\<forall>d\<in>set ds. \<not> P d" for P :: "'c \<Rightarrow> bool"
    using that by (induction cs) (auto simp: find_None_iff)
  have "List.find (\<lambda>c. scope c \<noteq> [] \<and> equal_fold (scope c) host) (cs @ ds) =
      List.find (\<lambda>c. scope c \<noteq> [] \<and> equal_fold (scope c) host) cs"
    "List.find (\<lambda>c. scope c = [] \<and> result c \<noteq> None) (cs @ ds) =
      List.find (\<lambda>c. scope c = [] \<and> result c \<noteq> None) cs"
    using assms by (auto intro!: app)
  then show ?thesis unfolding pick_first by (simp only:)
qed

end

text \<open>A loop with a fallback computes that choice.\<close>

lemma oci_loop_find:
  "match_oci_loop h fb cs =
     (case List.find (\<lambda>c. oci_registry c \<noteq> [] \<and> equal_fold (oci_registry c) h) cs of
        Some c \<Rightarrow> Some c
      | None \<Rightarrow> if fb = None then List.find (\<lambda>c. oci_registry c = []) cs else fb)"
  by (induction cs arbitrary: fb) (auto split: option.splits)

lemma cert_loop_find:
  "match_cert_loop h fb cs =
     (case List.find (\<lambda>c. cc_host c \<noteq> [] \<and> equal_fold (cc_host c) h) cs of
        Some c \<Rightarrow> Some c
      | None \<Rightarrow> if fb = None then List.find (\<lambda>c. cc_host c = []) cs else fb)"
  by (induction cs arbitrary: fb) (auto split: option.splits)

lemma proxy_loop_find:
  "match_proxy_loop h fb cs =
     (case List.find (\<lambda>c. px_host c \<noteq> [] \<and> equal_fold (px_host c) h) cs of
        Some c \<Rightarrow> Some c
      | None \<Rightarrow> if fb = None then List.find (\<lambda>c. px_host c = []) cs else fb)"
  by (induction cs arbitrary: fb) (auto split: option.splits)

lemma ssh_loop_find:
  "match_ssh_key_loop h fb cs =
     (case List.find (\<lambda>c. ssh_host c \<noteq> [] \<and> equal_fold (ssh_host c) h) cs of
        Some c \<Rightarrow> ssh_key c
      | None \<Rightarrow> if fb = None then Option.bind (List.find (\<lambda>c. ssh_host c = [] \<and> ssh_key c \<noteq> None) cs) ssh_key
               else fb)"
  by (induction cs arbitrary: fb) (auto split: option.splits)

lemma bind_Some [simp]: "Option.bind x Some = x"
  by (cases x) auto

interpretation oci: host_scoped oci_registry Some "\<lambda>cs h. match_oci_loop h None cs"
  by unfold_locales (simp add: oci_loop_find split: option.splits)

interpretation cert: host_scoped cc_host Some "\<lambda>cs h. match_cert_loop h None cs"
  by unfold_locales (simp add: cert_loop_find split: option.splits)

interpretation proxy: host_scoped px_host Some "\<lambda>cs h. match_proxy_loop h None cs"
  by unfold_locales (simp add: proxy_loop_find split: option.splits)

interpretation ssh: host_scoped ssh_host ssh_key "\<lambda>cs h. match_ssh_key_loop h None cs"
  by unfold_locales (simp add: ssh_loop_find split: option.splits)

lemma match_ssh_keys_loop_eq:
  "match_ssh_keys_loop h hk ds cs =
     hk @ map ssh_key (filter (\<lambda>c. ssh_host c \<noteq> [] \<and> equal_fold (ssh_host c) h) cs) @
     ds @ map ssh_key (filter (\<lambda>c. ssh_host c = []) cs)"
  by (induction cs arbitrary: hk ds) auto

section \<open>Path prefixes\<close>

text \<open>A path in lower case, as the list of its segments.\<close>

definition fold_segments :: "string \<Rightarrow> string list" where
  "fold_segments p = split_chr CHR ''/'' (to_lower p)"

lemma to_lower_take_drop: "to_lower s = to_lower (take n s) @ to_lower (drop n s)"
  unfolding to_lower_def map_append [symmetric] by simp

lemma lower_char_slash: "lower_char c = CHR ''/'' \<longleftrightarrow> c = CHR ''/''"
  using lower_char_eq_nonletter [of "CHR ''/''" c] by (auto simp: is_lower_def is_upper_def)

lemma split_prefix:
  "prefix (split_chr c p) (split_chr c s) \<longleftrightarrow> s = p \<or> (\<exists>r. s = p @ c # r)"
proof
  assume "prefix (split_chr c p) (split_chr c s)"
  then obtain qs where qs: "split_chr c s = split_chr c p @ qs" by (auto simp: prefix_def)
  have "s = join_str [c] (split_chr c p @ qs)" using qs join_split by metis
  then show "s = p \<or> (\<exists>r. s = p @ c # r)"
    using join_str_append [of "split_chr c p" qs "[c]"] by (cases "qs = []") (auto simp: join_split)
next
  assume "s = p \<or> (\<exists>r. s = p @ c # r)"
  then show "prefix (split_chr c p) (split_chr c s)" by (auto simp: split_chr_append_sep)
qed

lemma has_segment_prefix_fold_iff:
  "has_segment_prefix_fold s pre \<longleftrightarrow> prefix (fold_segments pre) (fold_segments s)"
proof -
  have "has_segment_prefix_fold s pre \<longleftrightarrow>
      length pre \<le> length s \<and> to_lower (take (length pre) s) = to_lower pre \<and>
      (drop (length pre) s = [] \<or> hd (drop (length pre) s) = CHR ''/'')"
    by (cases "length pre < length s")
      (auto simp: has_segment_prefix_fold_def has_prefix_fold_def equal_fold_def hd_drop_conv_nth)
  also have "\<dots> \<longleftrightarrow> to_lower s = to_lower pre \<or> (\<exists>r. to_lower s = to_lower pre @ CHR ''/'' # r)"
  proof (cases "length pre \<le> length s")
    case True
    have e: "to_lower s = to_lower pre @ t \<longleftrightarrow> to_lower (take (length pre) s) = to_lower pre \<and> to_lower (drop (length pre) s) = t" for t
      using to_lower_take_drop [of s "length pre"] True by (auto simp: append_eq_append_conv)
    have d: "to_lower d = [] \<or> (\<exists>r. to_lower d = CHR ''/'' # r) \<longleftrightarrow> d = [] \<or> hd d = CHR ''/''" for d
      by (cases d) (auto simp: to_lower_def lower_char_slash)
    have "to_lower s = to_lower pre \<or> (\<exists>r. to_lower s = to_lower pre @ CHR ''/'' # r) \<longleftrightarrow>
        to_lower (take (length pre) s) = to_lower pre \<and>
        (to_lower (drop (length pre) s) = [] \<or> (\<exists>r. to_lower (drop (length pre) s) = CHR ''/'' # r))"
      unfolding e using e [of "[]"] by auto
    then show ?thesis unfolding d using True by blast
  next
    case False
    have "length (to_lower s) = length s" "length (to_lower pre) = length pre" by simp_all
    then show ?thesis using False by (metis append_eq_conv_conj length_append le_add1 order_refl)
  qed
  also have "\<dots> \<longleftrightarrow> prefix (fold_segments pre) (fold_segments s)"
    by (simp add: fold_segments_def split_prefix)
  finally show ?thesis .
qed

section \<open>Properties\<close>

text \<open>What it means for a credential to cover a URL, path segment by path segment.\<close>

definition covers :: "url \<Rightarrow> https_credential \<Rightarrow> bool" where
  "covers u c \<longleftrightarrow>
     equal_fold (hc_host c) (url_hostname u) \<and>
     (case u_user u of
        Some ui \<Rightarrow> ui_username ui = [] \<or> equal_fold (hc_username c) (ui_username ui)
      | None \<Rightarrow> True) \<and>
     (hc_path c = [] \<or>
      prefix (fold_segments (trim_suffix (hc_path c) ''/''))
             (fold_segments (trim_suffix (trim_suffix (u_path u) ''/'') ''.git'')))"

definition specificity :: "https_credential \<Rightarrow> int" where
  "specificity c = (if hc_path c = [] then - 1 else int (length (trim_suffix (hc_path c) ''/'')))"

lemma https_match_covers:
  "https_match u (case u_user u of None \<Rightarrow> [] | Some ui \<Rightarrow> ui_username ui) c =
     (if covers u c then Some (specificity c) else None)"
  by (auto simp: https_match_def covers_def specificity_def Let_def has_segment_prefix_fold_iff
      split: option.splits)

lemma map_filter_if: "List.map_filter (\<lambda>c. map_option (\<lambda>n. (c, n)) (if P c then Some (f c) else None)) cs =
    map (\<lambda>c. (c, f c)) (filter P cs)"
  by (induction cs) (auto simp: List.map_filter_def)

lemma sort_key_map_pair: "map fst (sort_key (\<lambda>(_, n). - n) (map (\<lambda>c. (c, f c)) cs)) = sort_key (\<lambda>c. - f c) cs"
  for f :: "'a \<Rightarrow> int"
proof -
  have pair: "insort_key (\<lambda>(_, n). - n) (c, f c) (map (\<lambda>c. (c, f c)) xs) =
      map (\<lambda>c. (c, f c)) (insort_key (\<lambda>c. - f c) c xs)" for c xs
    by (induction xs) auto
  have "sort_key (\<lambda>(_, n). - n) (map (\<lambda>c. (c, f c)) cs) = map (\<lambda>c. (c, f c)) (sort_key (\<lambda>c. - f c) cs)"
    by (induction cs) (simp_all add: pair)
  then show ?thesis by (simp add: comp_def)
qed

lemma match_https_credentials_sort:
  "url_parse raw = Some u \<Longrightarrow>
   match_https_credentials s raw = sort_key (\<lambda>c. - specificity c) (filter (covers u) (https_credentials s))"
  by (simp add: match_https_credentials_def https_match_covers map_filter_if sort_key_map_pair Let_def)

text \<open>
  C23. The HTTPS credentials offered for a URL are exactly the configured ones that cover it
  (host, account, and path on segment boundaries, all ignoring case), most specific first, and
  those of equal specificity in the order they were configured.
\<close>

theorem match_https_credentials_correct:
  assumes "url_parse raw = Some u"
  shows "set (match_https_credentials s raw) = {c \<in> set (https_credentials s). covers u c} \<and>
     sorted_wrt (\<lambda>a b. specificity b \<le> specificity a) (match_https_credentials s raw) \<and>
     (\<forall>n. filter (\<lambda>c. specificity c = n) (match_https_credentials s raw) =
          filter (\<lambda>c. covers u c \<and> specificity c = n) (https_credentials s))"
proof (intro conjI allI)
  let ?cs = "filter (covers u) (https_credentials s)"
  note eq = match_https_credentials_sort [OF assms, of s]
  show "set (match_https_credentials s raw) = {c \<in> set (https_credentials s). covers u c}"
    by (auto simp: eq)
  have "sorted (map (\<lambda>c. - specificity c) (sort_key (\<lambda>c. - specificity c) ?cs))" by simp
  then show "sorted_wrt (\<lambda>a b. specificity b \<le> specificity a) (match_https_credentials s raw)"
    by (simp add: eq sorted_map)
  fix n
  have "filter (\<lambda>c. - specificity c = - n) (sort_key (\<lambda>c. - specificity c) ?cs) =
      filter (\<lambda>c. - specificity c = - n) ?cs"
    by (rule sort_key_stable [of _ "- n"])
  then show "filter (\<lambda>c. specificity c = n) (match_https_credentials s raw) =
      filter (\<lambda>c. covers u c \<and> specificity c = n) (https_credentials s)"
    by (simp add: eq conj_commute)
qed

text \<open>Concrete settings for the witnesses.\<close>

definition demo_cred :: "string \<Rightarrow> string \<Rightarrow> https_credential" where
  "demo_cred host path = \<lparr>hc_host = host, hc_username = ''u'', hc_password = ''p'', hc_path = path\<rparr>"

definition demo_settings :: "https_credential list \<Rightarrow> unit settings" where
  "demo_settings cs = (default_settings ''/tmp'')\<lparr>https_credentials := cs\<rparr>"

definition demo_url :: url where
  "demo_url = the (url_parse ''https://h/COO/mod.git'')"

lemma demo_url_parse: "url_parse ''https://h/COO/mod.git'' = Some demo_url"
  and demo_url_path: "u_path demo_url = ''/COO/mod.git''"
  by code_simp+

theorem match_https_credentials_correct_witness:
  "set (match_https_credentials (demo_settings [demo_cred ''h'' [], demo_cred ''h'' ''/coo'']) ''https://h/COO/mod.git'') =
   {c \<in> {demo_cred ''h'' [], demo_cred ''h'' ''/coo''}. covers demo_url c}"
  using match_https_credentials_correct [OF demo_url_parse, of "demo_settings [demo_cred ''h'' [], demo_cred ''h'' ''/coo'']"]
  by (simp add: demo_settings_def)

text \<open>
  A credential scoped to a repository's own path is not offered for that repository when the
  path is written with its \<^verbatim>\<open>.git\<close> suffix: the suffix is cut from the URL's path and kept on the
  credential's.
\<close>

theorem git_suffix_credential_never_matches:
  assumes "url_parse raw = Some u" and "has_suffix (u_path u) ''.git''" and "hc_path c = u_path u"
  shows "c \<notin> set (match_https_credentials s raw)"
proof -
  obtain t where t: "u_path u = t @ ''.git''" using assms(2) by (auto simp: has_suffix_iff)
  have n: "\<not> has_suffix (t @ ''.git'') ''/''" by (simp add: has_suffix_def)
  have "trim_suffix (hc_path c) ''/'' = t @ ''.git''" "trim_suffix (trim_suffix (u_path u) ''/'') ''.git'' = t"
    using n by (simp_all add: assms(3) t) (simp_all add: trim_suffix_def)
  moreover have "\<not> has_segment_prefix_fold t (t @ ''.git'')"
    by (simp add: has_segment_prefix_fold_def has_prefix_fold_def)
  ultimately have "\<not> covers u c" by (simp add: covers_def has_segment_prefix_fold_iff assms(3) t)
  then show ?thesis by (simp add: match_https_credentials_sort [OF assms(1)])
qed

theorem git_suffix_credential_never_matches_witness:
  "demo_cred ''h'' ''/COO/mod.git'' \<notin>
   set (match_https_credentials (demo_settings [demo_cred ''h'' ''/COO/mod.git'']) ''https://h/COO/mod.git'')"
  by (rule git_suffix_credential_never_matches [OF demo_url_parse])
    (simp_all add: demo_url_path demo_cred_def has_suffix_def)

text \<open>
  A registry credential is chosen among the configured ones, is for that registry or a default,
  and is never a default when some credential names the registry.
\<close>

theorem match_oci_credential_scoped:
  assumes "match_oci_credential s registry = Some c"
  shows "c \<in> set (oci_credentials s) \<and>
     (oci_registry c = [] \<or> equal_fold (oci_registry c) registry) \<and>
     ((\<exists>d\<in>set (oci_credentials s). oci_registry d \<noteq> [] \<and> equal_fold (oci_registry d) registry) \<longrightarrow>
      oci_registry c \<noteq> [])"
proof -
  have c: "match_oci_loop registry None (oci_credentials s) = Some c"
    using assms by (simp add: match_oci_credential_def)
  from oci.never_other_host [OF c] have "c \<in> set (oci_credentials s)"
    "oci_registry c = [] \<or> equal_fold (oci_registry c) registry" by auto
  moreover have "oci_registry c \<noteq> []" if "d \<in> set (oci_credentials s)" "oci_registry d \<noteq> []"
    "equal_fold (oci_registry d) registry" for d
    using oci.specific_wins [OF that] c by auto
  ultimately show ?thesis by blast
qed

definition demo_oci :: oci_credential where
  "demo_oci = \<lparr>oci_registry = ''ghcr.io'', oci_username = ''u'', oci_password = ''p''\<rparr>"

theorem match_oci_credential_scoped_witness:
  "oci_registry demo_oci = [] \<or> equal_fold (oci_registry demo_oci) ''GHCR.io''"
proof -
  let ?s = "(default_settings [] :: unit settings)\<lparr>oci_credentials :=
      [demo_oci\<lparr>oci_registry := []\<rparr>, demo_oci]\<rparr>"
  have "equal_fold ''ghcr.io'' ''GHCR.io''" by code_simp
  then have "match_oci_credential ?s ''GHCR.io'' = Some demo_oci"
    by (simp add: match_oci_credential_def demo_oci_def)
  from match_oci_credential_scoped [OF this] show ?thesis by blast
qed

text \<open>
  The SSH identities offered to a host are the keys configured for it followed by the
  defaults, each group in configuration order, and (when no configured key is nil) the single
  key chosen for a host is the first of them.
\<close>

theorem match_ssh_keys_order:
  assumes "\<forall>c\<in>set (ssh_keys (git s)). ssh_key c \<noteq> None"
  shows "match_ssh_keys s host =
       map ssh_key (filter (\<lambda>c. ssh_host c \<noteq> [] \<and> equal_fold (ssh_host c) host) (ssh_keys (git s))) @
       map ssh_key (filter (\<lambda>c. ssh_host c = []) (ssh_keys (git s))) \<and>
     match_ssh_key s host = (case match_ssh_keys s host of [] \<Rightarrow> None | k # _ \<Rightarrow> k)"
proof
  let ?cs = "ssh_keys (git s)"
  let ?P = "\<lambda>c. ssh_host c \<noteq> [] \<and> equal_fold (ssh_host c) host"
  show eq: "match_ssh_keys s host = map ssh_key (filter ?P ?cs) @ map ssh_key (filter (\<lambda>c. ssh_host c = []) ?cs)"
    by (simp add: match_ssh_keys_def match_ssh_keys_loop_eq)
  have d: "List.find (\<lambda>c. ssh_host c = [] \<and> ssh_key c \<noteq> None) ?cs = List.find (\<lambda>c. ssh_host c = []) ?cs"
    using assms by (intro find_cong) auto
  have k: "match_ssh_key s host =
      (case List.find ?P ?cs of Some c \<Rightarrow> ssh_key c | None \<Rightarrow> Option.bind (List.find (\<lambda>c. ssh_host c = []) ?cs) ssh_key)"
    unfolding match_ssh_key_def ssh.pick_first d ..
  show "match_ssh_key s host = (case match_ssh_keys s host of [] \<Rightarrow> None | k # _ \<Rightarrow> k)"
    unfolding k eq hd_filter_find [symmetric]
    by (cases "filter ?P ?cs"; cases "filter (\<lambda>c. ssh_host c = []) ?cs") simp_all
qed

definition demo_ssh :: "unit settings" where
  "demo_ssh = (default_settings [])\<lparr>git := (git (default_settings [] :: unit settings))\<lparr>ssh_keys :=
     [\<lparr>ssh_host = [], ssh_key = Some ''d''\<rparr>, \<lparr>ssh_host = ''h'', ssh_key = Some ''k''\<rparr>]\<rparr>\<rparr>"

theorem match_ssh_keys_order_witness:
  "match_ssh_keys demo_ssh ''H'' = [Some ''k'', Some ''d''] \<and> match_ssh_key demo_ssh ''H'' = Some ''k''"
proof -
  have e: "equal_fold ''h'' ''H''" by code_simp
  have "\<forall>c\<in>set (ssh_keys (git demo_ssh)). ssh_key c \<noteq> None" by (simp add: demo_ssh_def)
  from match_ssh_keys_order [OF this, of "''H''"] show ?thesis by (simp add: demo_ssh_def e)
qed

end
