(* ===== verification/Go_Paths.thy ===== *)
theory Go_Paths
  imports Go_Strings
begin

text \<open>
  Go's \<^verbatim>\<open>path\<close> and (on Unix) \<^verbatim>\<open>path/filepath\<close>: \<^verbatim>\<open>Clean\<close>, \<^verbatim>\<open>Join\<close>, \<^verbatim>\<open>Base\<close>, \<^verbatim>\<open>Dir\<close>, \<^verbatim>\<open>Ext\<close>,
  \<^verbatim>\<open>IsAbs\<close>.  \<^verbatim>\<open>Clean\<close> is its documented rewriting, run over the path's elements with the
  output so far as a stack.  The lemmas relate a cleaned path to its list of elements: cleaning
  is idempotent, the elements of a joined path are those of the first part continued, and a
  string prefix ending in a slash is a prefix of elements.
\<close>

definition is_abs :: "string \<Rightarrow> bool" where
  "is_abs p \<longleftrightarrow> has_prefix p ''/''"

definition clean_step :: "bool \<Rightarrow> string list \<Rightarrow> string \<Rightarrow> string list" where
  "clean_step rooted st c =
     (if c = [] \<or> c = ''.'' then st
      else if c = ''..'' then
        (if st \<noteq> [] \<and> last st \<noteq> ''..'' then butlast st else if rooted then st else st @ [c])
      else st @ [c])"

definition clean_comps :: "bool \<Rightarrow> string list \<Rightarrow> string list \<Rightarrow> string list" where
  "clean_comps rooted st cs = foldl (clean_step rooted) st cs"

text \<open>The elements of the cleaned path.\<close>

definition path_comps :: "string \<Rightarrow> string list" where
  "path_comps p = clean_comps (is_abs p) [] (split_chr CHR ''/'' p)"

definition unsplit :: "bool \<Rightarrow> string list \<Rightarrow> string" where
  "unsplit rooted cs =
     (if rooted then CHR ''/'' # join_str ''/'' cs
      else if cs = [] then ''.'' else join_str ''/'' cs)"

definition path_clean :: "string \<Rightarrow> string" where
  "path_clean p = unsplit (is_abs p) (path_comps p)"

definition path_join :: "string list \<Rightarrow> string" where
  "path_join elems =
     (case dropWhile (\<lambda>e. e = []) elems of
        [] \<Rightarrow> []
      | es \<Rightarrow> path_clean (join_str ''/'' es))"

definition path_base :: "string \<Rightarrow> string" where
  "path_base p =
     (if p = [] then ''.''
      else let q = trim_right (\<lambda>c. c = CHR ''/'') p;
               b = last (split_chr CHR ''/'' q)
           in if b = [] then ''/'' else b)"

text \<open>Everything up to and including the last slash, cleaned.\<close>

definition path_dir :: "string \<Rightarrow> string" where
  "path_dir p =
     path_clean (case last_index_chr p CHR ''/'' of None \<Rightarrow> [] | Some i \<Rightarrow> take (Suc i) p)"

text \<open>The suffix from the last dot of the last element.\<close>

definition path_ext :: "string \<Rightarrow> string" where
  "path_ext p =
     (let b = last (split_chr CHR ''/'' p)
      in case last_index_chr b CHR ''.'' of None \<Rightarrow> [] | Some i \<Rightarrow> drop i b)"

text \<open>\<^verbatim>\<open>filepath.FromSlash\<close> changes nothing on Unix.\<close>

definition from_slash :: "string \<Rightarrow> string" where
  "from_slash p = p"

section \<open>Cleaned elements\<close>

text \<open>What every list of cleaned elements satisfies.\<close>

definition proper_comp :: "string \<Rightarrow> bool" where
  "proper_comp c \<longleftrightarrow> c \<noteq> [] \<and> c \<noteq> ''.'' \<and> CHR ''/'' \<notin> set c"

text \<open>Elements other than \<^verbatim>\<open>..\<close>, and \<^verbatim>\<open>..\<close> only at the start of a path that is not rooted.\<close>

definition normal_comps :: "bool \<Rightarrow> string list \<Rightarrow> bool" where
  "normal_comps rooted cs \<longleftrightarrow>
     (\<forall>c\<in>set cs. proper_comp c) \<and>
     (\<exists>n rest. cs = replicate n ''..'' @ rest \<and> ''..'' \<notin> set rest \<and> (rooted \<longrightarrow> n = 0))"

lemma normal_comps_Nil [simp]: "normal_comps rooted []"
  by (simp add: normal_comps_def)

lemma normal_comps_last_dotdot:
  assumes "normal_comps rooted cs" and "cs = [] \<or> last cs = ''..''"
  shows "cs = replicate (length cs) ''..''"
proof -
  from assms(1) obtain n rest
    where cs: "cs = replicate n ''..'' @ rest" and r: "''..'' \<notin> set rest"
    by (auto simp: normal_comps_def)
  have "rest = []"
  proof (rule ccontr)
    assume ne: "rest \<noteq> []"
    with cs assms(2) have "last rest = ''..''" by auto
    with ne r show False by (metis last_in_set)
  qed
  with cs show ?thesis by simp
qed

lemma normal_comps_butlast: "normal_comps rooted cs \<Longrightarrow> normal_comps rooted (butlast cs)"
proof -
  assume n: "normal_comps rooted cs"
  then obtain n rest where cs: "cs = replicate n ''..'' @ rest" and
    r: "''..'' \<notin> set rest" and z: "rooted \<longrightarrow> n = 0"
    by (auto simp: normal_comps_def)
  have p: "\<forall>c\<in>set (butlast cs). proper_comp c"
    using n by (auto simp: normal_comps_def dest: in_set_butlastD)
  show ?thesis
  proof (cases "rest = []")
    case True
    with cs have "butlast cs = replicate (n - 1) ''..'' @ []" by (simp add: butlast_conv_take)
    with p z show ?thesis
      unfolding normal_comps_def by (intro conjI exI [of _ "n - 1"] exI [of _ "[]"]) auto
  next
    case False
    with cs have "butlast cs = replicate n ''..'' @ butlast rest" by (simp add: butlast_append)
    with p z r show ?thesis
      unfolding normal_comps_def
      by (intro conjI exI [of _ n] exI [of _ "butlast rest"]) (auto dest: in_set_butlastD)
  qed
qed

lemma normal_comps_snoc:
  assumes "normal_comps rooted cs" and "proper_comp c" and "c \<noteq> ''..''"
  shows "normal_comps rooted (cs @ [c])"
proof -
  from assms(1) obtain n rest where cs: "cs = replicate n ''..'' @ rest" and
    "''..'' \<notin> set rest" "rooted \<longrightarrow> n = 0"
    by (auto simp: normal_comps_def)
  then have "cs @ [c] = replicate n ''..'' @ (rest @ [c])" "''..'' \<notin> set (rest @ [c])"
    using assms(3) by auto
  with assms(1,2) \<open>rooted \<longrightarrow> n = 0\<close> show ?thesis
    unfolding normal_comps_def by (intro conjI exI [of _ n] exI [of _ "rest @ [c]"]) auto
qed

lemma normal_comps_replicate:
  "normal_comps False (replicate n ''..'')"
  unfolding normal_comps_def
  by (intro conjI exI [of _ n] exI [of _ "[]"]) (auto simp: proper_comp_def)

lemma clean_step_normal:
  assumes "normal_comps rooted st" and "CHR ''/'' \<notin> set c"
  shows "normal_comps rooted (clean_step rooted st c)"
proof -
  consider "c = [] \<or> c = ''.''" | "c = ''..''" | "proper_comp c" "c \<noteq> ''..''"
    using assms(2) by (auto simp: proper_comp_def)
  then show ?thesis
  proof cases
    case 2
    show ?thesis
    proof (cases "st \<noteq> [] \<and> last st \<noteq> ''..''")
      case False
      then have "st = replicate (length st) ''..''"
        using assms(1) normal_comps_last_dotdot by blast
      then have "st @ [''..''] = replicate (Suc (length st)) ''..''"
        by (metis replicate_append_same replicate_Suc)
      with False 2 assms(1) show ?thesis
        by (cases rooted) (auto simp: clean_step_def normal_comps_replicate simp del: replicate_Suc)
    qed (use 2 assms(1) in \<open>simp add: clean_step_def normal_comps_butlast\<close>)
  qed (use assms(1) in \<open>auto simp: clean_step_def normal_comps_snoc proper_comp_def\<close>)
qed

lemma clean_comps_normal:
  assumes "normal_comps rooted st" and "\<forall>c\<in>set cs. CHR ''/'' \<notin> set c"
  shows "normal_comps rooted (clean_comps rooted st cs)"
  using assms unfolding clean_comps_def
  by (induction cs arbitrary: st) (auto intro: clean_step_normal)

lemma path_comps_normal: "normal_comps (is_abs p) (path_comps p)"
  unfolding path_comps_def by (rule clean_comps_normal) (auto dest: split_chr_no_sep)

lemma clean_comps_append:
  "clean_comps r st (xs @ ys) = clean_comps r (clean_comps r st xs) ys"
  by (simp add: clean_comps_def)

text \<open>Cleaning elements that are already clean changes nothing.\<close>

lemma clean_comps_rest:
  assumes "''..'' \<notin> set rest" and "\<forall>c\<in>set rest. proper_comp c"
  shows "clean_comps r st rest = st @ rest"
  using assms
  by (induction rest arbitrary: st) (auto simp: clean_comps_def clean_step_def proper_comp_def)

lemma clean_comps_dotdots:
  assumes "st = [] \<or> last st = ''..''"
  shows "clean_comps False st (replicate n ''..'') = st @ replicate n ''..''"
  using assms
proof (induction n arbitrary: st)
  case (Suc n)
  then have "clean_step False st ''..'' = st @ [''..'']" by (auto simp: clean_step_def)
  with Suc.IH [of "st @ [''..'']"] show ?case by (simp add: clean_comps_def)
qed (simp add: clean_comps_def)

lemma clean_comps_normal_id:
  assumes "normal_comps r cs"
  shows "clean_comps r [] cs = cs"
proof -
  from assms obtain n rest where cs: "cs = replicate n ''..'' @ rest" and
    r: "''..'' \<notin> set rest" "r \<longrightarrow> n = 0" and p: "\<forall>c\<in>set rest. proper_comp c"
    by (auto simp: normal_comps_def)
  have "clean_comps r [] (replicate n ''..'') = replicate n ''..''"
    using r(2) clean_comps_dotdots [of "[]" n] by (cases r) (auto simp: clean_comps_def)
  with cs r p show ?thesis by (simp add: clean_comps_append clean_comps_rest)
qed

section \<open>Cleaned paths and their elements\<close>

lemma normal_comps_no_slash: "normal_comps r cs \<Longrightarrow> \<forall>c\<in>set cs. CHR ''/'' \<notin> set c"
  by (auto simp: normal_comps_def proper_comp_def)

lemma not_abs_join:
  assumes "normal_comps r cs" and "cs \<noteq> []"
  shows "\<not> is_abs (join_str ''/'' cs)"
proof -
  from assms obtain c d cs' where "cs = (c # d) # cs'" "c \<noteq> CHR ''/''"
    by (cases cs; cases "hd cs") (auto simp: normal_comps_def proper_comp_def)
  then show ?thesis by (cases cs') (auto simp: is_abs_def)
qed

lemma unsplit_not_Nil:
  assumes "normal_comps r cs"
  shows "unsplit q cs \<noteq> []"
proof (cases cs)
  case (Cons c cs')
  with assms have "c \<noteq> []" by (auto simp: normal_comps_def proper_comp_def)
  with Cons show ?thesis by (cases cs') (auto simp: unsplit_def)
qed (simp add: unsplit_def)

lemma is_abs_unsplit: "normal_comps r cs \<Longrightarrow> is_abs (unsplit r cs) = r"
  by (cases r) (auto simp: unsplit_def is_abs_def dest: not_abs_join [unfolded is_abs_def])

lemma path_clean_not_Nil [simp]: "path_clean p \<noteq> []"
  unfolding path_clean_def by (rule unsplit_not_Nil [OF path_comps_normal])

lemma is_abs_clean [simp]: "is_abs (path_clean p) = is_abs p"
  by (simp add: path_clean_def is_abs_unsplit path_comps_normal)

lemma path_comps_unsplit:
  assumes "normal_comps r cs"
  shows "path_comps (unsplit r cs) = cs"
proof (cases "cs = []")
  case True
  then show ?thesis
    by (cases r) (simp_all add: path_comps_def unsplit_def is_abs_def clean_comps_def clean_step_def)
next
  case False
  have s: "split_chr CHR ''/'' (join_str ''/'' cs) = cs"
    using False assms normal_comps_no_slash split_join by blast
  have a: "is_abs (unsplit r cs) = r" using assms by (rule is_abs_unsplit)
  show ?thesis
  proof (cases r)
    case True
    then have "path_comps (unsplit r cs) = clean_comps True [] ([] # cs)"
      using a s by (simp add: path_comps_def unsplit_def)
    also have "\<dots> = clean_comps True [] cs" by (simp add: clean_comps_def clean_step_def)
    finally show ?thesis using assms True clean_comps_normal_id by auto
  next
    case r: False
    then show ?thesis
      using a s False assms clean_comps_normal_id by (simp add: path_comps_def unsplit_def)
  qed
qed

lemma path_comps_clean [simp]: "path_comps (path_clean p) = path_comps p"
  unfolding path_clean_def by (rule path_comps_unsplit [OF path_comps_normal])

lemma path_clean_idem [simp]: "path_clean (path_clean p) = path_clean p"
proof -
  have "path_clean (path_clean p) = unsplit (is_abs (path_clean p)) (path_comps (path_clean p))"
    by (rule path_clean_def)
  also have "\<dots> = unsplit (is_abs p) (path_comps p)"
    by (simp only: is_abs_clean path_comps_clean)
  also have "\<dots> = path_clean p" by (rule path_clean_def [symmetric])
  finally show ?thesis .
qed

lemma path_clean_eq_iff:
  "path_clean p = path_clean q \<longleftrightarrow> is_abs p = is_abs q \<and> path_comps p = path_comps q"
proof
  assume e: "path_clean p = path_clean q"
  show "is_abs p = is_abs q \<and> path_comps p = path_comps q"
    using arg_cong [OF e, of is_abs] arg_cong [OF e, of path_comps] by simp
qed (simp add: path_clean_def)

lemma is_abs_append: "a \<noteq> [] \<Longrightarrow> is_abs (a @ b) = is_abs a"
  by (cases a) (auto simp: is_abs_def)

lemma path_comps_append:
  assumes "a \<noteq> []"
  shows "path_comps (a @ CHR ''/'' # b) =
         clean_comps (is_abs a) (path_comps a) (split_chr CHR ''/'' b)"
  using assms by (simp add: path_comps_def is_abs_append split_chr_append_sep clean_comps_append)

lemma path_join_two:
  "a \<noteq> [] \<Longrightarrow> path_join [a, b] = path_clean (a @ CHR ''/'' # b)"
  by (simp add: path_join_def)

lemma path_comps_join:
  assumes "a \<noteq> []"
  shows "path_comps (path_join [a, b]) =
         clean_comps (is_abs a) (path_comps a) (split_chr CHR ''/'' b)"
  using assms by (simp add: path_join_two path_comps_append)

lemma is_abs_join: "a \<noteq> [] \<Longrightarrow> is_abs (path_join [a, b]) = is_abs a"
  by (simp add: path_join_two is_abs_append)

text \<open>A string prefix ending in a slash is a proper prefix of elements.\<close>

lemma prefix_slash_iff:
  assumes A: "normal_comps r A" and B: "normal_comps r' B" and ne: "B \<noteq> []"
  shows "has_prefix (join_str ''/'' A) (join_str ''/'' B @ ''/'') \<longleftrightarrow> (\<exists>c cs. A = B @ c # cs)"
proof
  assume "has_prefix (join_str ''/'' A) (join_str ''/'' B @ ''/'')"
  then obtain t where t: "join_str ''/'' A = join_str ''/'' B @ CHR ''/'' # t"
    by (auto simp: has_prefix_iff)
  then have "A \<noteq> []" by auto
  then have "A = split_chr CHR ''/'' (join_str ''/'' A)"
    using A normal_comps_no_slash split_join by metis
  also have "\<dots> = B @ split_chr CHR ''/'' t"
    using B ne normal_comps_no_slash split_join by (metis split_chr_append_sep t)
  finally show "\<exists>c cs. A = B @ c # cs" by (metis neq_Nil_conv split_chr_not_Nil)
next
  assume "\<exists>c cs. A = B @ c # cs"
  then show "has_prefix (join_str ''/'' A) (join_str ''/'' B @ ''/'')"
    using ne by (auto simp: join_str_append has_prefix_iff)
qed

text \<open>Elements after a last element that is not \<^verbatim>\<open>..\<close> cannot be \<^verbatim>\<open>..\<close>.\<close>

lemma normal_comps_no_dotdot_after:
  assumes n: "normal_comps r (xs @ q)" and l: "if xs = [] then r else last xs \<noteq> ''..''"
  shows "''..'' \<notin> set q"
proof -
  from n obtain k rest where e: "xs @ q = replicate k ''..'' @ rest" and
    nd: "''..'' \<notin> set rest" and z: "r \<longrightarrow> k = 0"
    by (auto simp: normal_comps_def)
  show ?thesis
  proof (cases "xs = []")
    case True
    with e nd z l show ?thesis by auto
  next
    case False
    have "k < length xs"
    proof (rule ccontr)
      assume "\<not> k < length xs"
      then have "xs = replicate (length xs) ''..''"
        using arg_cong [OF e, of "take (length xs)"] by (simp add: min_def)
      then have "last xs = ''..''" using False by (metis last_replicate length_0_conv)
      with False l show False by simp
    qed
    then have "q = drop (length xs - k) rest"
      using arg_cong [OF e, of "drop (length xs)"] by simp
    with nd show ?thesis by (auto dest: in_set_dropD)
  qed
qed

end
