(* ===== verification/Safepath.thy ===== *)
theory Safepath
  imports Go_Paths
begin

text \<open>
  \<^verbatim>\<open>internal/safepath\<close> and its twin \<^verbatim>\<open>securePath\<close> of \<^verbatim>\<open>protocols/git/sparse.go\<close>: joining an
  untrusted relative path onto a trusted root without leaving it.  The interface the archive and
  bucket writers rely on is the locale \<open>contained_join\<close>; both functions interpret it.
\<close>

section \<open>The operations\<close>

definition safe_join :: "string \<Rightarrow> string \<Rightarrow> string result" where
  "safe_join root rel =
     (let joined = path_join [root, from_slash rel];
          clean_root = path_clean root
      in if joined \<noteq> clean_root \<and> \<not> has_prefix joined (clean_root @ ''/'')
         then Inl (Errorf ''path %q escapes the destination directory'' [rel] [])
         else Inr joined)"

definition secure_path :: "string \<Rightarrow> string \<Rightarrow> string result" where
  "secure_path root rel =
     (let joined = path_join [root, from_slash rel];
          clean_root = path_clean root
      in if joined \<noteq> clean_root \<and> \<not> has_prefix joined (clean_root @ ''/'')
         then Inl (Errorf ''path %q escapes the destination directory'' [rel] [])
         else Inr joined)"

section \<open>Containment\<close>

text \<open>
  \<open>contained root p\<close>: the elements of \<open>p\<close> are those of \<open>root\<close> followed by elements none of which
  is \<^verbatim>\<open>..\<close>.  \<open>anchored root\<close> excludes the roots that consist of \<^verbatim>\<open>..\<close> elements only.
\<close>

definition contained :: "string \<Rightarrow> string \<Rightarrow> bool" where
  "contained root p \<longleftrightarrow>
     is_abs p = is_abs root \<and>
     (\<exists>q. path_comps p = path_comps root @ q \<and> ''..'' \<notin> set q)"

definition anchored :: "string \<Rightarrow> bool" where
  "anchored root \<longleftrightarrow> path_comps root = [] \<or> last (path_comps root) \<noteq> ''..''"

lemma contained_refl [simp, intro]: "contained root root"
  by (simp add: contained_def)

lemma contained_trans: "contained a b \<Longrightarrow> contained b c \<Longrightarrow> contained a c"
  unfolding contained_def by fastforce

lemma contained_clean [simp]:
  "contained (path_clean root) p = contained root p"
  "contained root (path_clean p) = contained root p"
  by (simp_all add: contained_def)

lemma path_clean_dot: "path_comps root = [] \<Longrightarrow> path_clean root = (if is_abs root then ''/'' else ''.'')"
  by (simp add: path_clean_def unsplit_def)

lemma path_clean_not_dot:
  assumes "path_comps p \<noteq> []"
  shows "path_clean p = (if is_abs p then CHR ''/'' # join_str ''/'' (path_comps p)
                         else join_str ''/'' (path_comps p))"
  using assms by (simp add: path_clean_def unsplit_def)

text \<open>A cleaned path never starts with \<^verbatim>\<open>./\<close> or \<^verbatim>\<open>//\<close>.\<close>

lemma clean_no_dot_slash: "\<not> has_prefix (path_clean p) ''./''"
proof (cases "path_comps p = []")
  case True
  then show ?thesis by (simp add: path_clean_dot)
next
  case False
  then obtain c cs where c: "path_comps p = c # cs" by (cases "path_comps p") auto
  with path_comps_normal [of p] have "proper_comp c" by (auto simp: normal_comps_def)
  then have p: "c \<noteq> []" "c \<noteq> ''.''" "CHR ''/'' \<notin> set c" by (auto simp: proper_comp_def)
  have "\<not> has_prefix (join_str ''/'' (c # cs)) ''./''"
    using p by (cases cs; cases c; cases "tl c") auto
  then show ?thesis using False c by (auto simp: path_clean_not_dot)
qed

lemma clean_no_slash_slash: "\<not> has_prefix (path_clean p) ''//''"
proof (cases "path_comps p = []")
  case True
  then show ?thesis by (simp add: path_clean_dot)
next
  case False
  with not_abs_join [OF path_comps_normal] have n: "\<not> is_abs (join_str ''/'' (path_comps p))" by blast
  then have "\<not> is_abs (path_clean p) \<or> \<not> has_prefix (tl (path_clean p)) ''/''"
    using False by (simp add: path_clean_not_dot is_abs_def)
  then show ?thesis by (auto simp: is_abs_def has_prefix_iff)
qed

text \<open>When the guard of the joins lets a joined path through.\<close>

lemma join_guard_iff:
  assumes ne: "path_comps root \<noteq> []"
  shows "path_join [root, rel] = path_clean root \<or>
           has_prefix (path_join [root, rel]) (path_clean root @ ''/'') \<longleftrightarrow>
         (\<exists>q. path_comps (path_join [root, rel]) = path_comps root @ q)"
    (is "?eq \<or> ?pre \<longleftrightarrow> ?ext")
proof -
  have r: "root \<noteq> []" using ne by (auto simp: path_comps_def clean_comps_def clean_step_def)
  let ?A = "path_comps (path_join [root, rel])" and ?B = "path_comps root"
  have abs: "is_abs (path_join [root, rel]) = is_abs root" using r by (rule is_abs_join)
  have cl: "path_join [root, rel] = path_clean (path_join [root, rel])"
    using r by (simp add: path_join_two)
  have e: "?eq \<longleftrightarrow> ?A = ?B"
    by (subst cl) (simp add: path_clean_eq_iff abs)
  have p: "?pre \<longleftrightarrow> (\<exists>c cs. ?A = ?B @ c # cs)"
  proof (cases "?A = []")
    case True
    have "\<not> ?pre"
    proof
      assume ?pre
      then have "length (path_clean root @ ''/'') \<le> length (path_join [root, rel])"
        by (auto simp: has_prefix_iff)
      moreover have "length (path_join [root, rel]) = 1"
        using True by (subst cl) (simp add: path_clean_dot)
      ultimately show False by simp
    qed
    with True show ?thesis by simp
  next
    case False
    have "?pre \<longleftrightarrow> has_prefix (join_str ''/'' ?A) (join_str ''/'' ?B @ ''/'')"
      using False ne abs by (subst cl) (simp add: path_clean_not_dot)
    then show ?thesis
      using prefix_slash_iff [OF path_comps_normal path_comps_normal ne] by blast
  qed
  show ?thesis
    unfolding e p by (metis append.right_neutral neq_Nil_conv)
qed

lemma safe_join_Inr:
  "safe_join root rel = Inr p \<longleftrightarrow>
     p = path_join [root, rel] \<and>
     (path_join [root, rel] = path_clean root \<or>
      has_prefix (path_join [root, rel]) (path_clean root @ ''/''))"
  by (auto simp: safe_join_def from_slash_def Let_def)

lemma safe_join_Inl:
  "safe_join root rel = Inl e \<Longrightarrow> e = Errorf ''path %q escapes the destination directory'' [rel] []"
  by (simp add: safe_join_def Let_def split: if_splits)

lemma safe_join_degenerate:
  assumes "path_comps root = []" and "safe_join root rel = Inr p"
  shows "p = path_clean root"
proof (cases "root = [] \<and> rel = []")
  case True
  with assms(2) have False by (simp add: safe_join_def) code_simp
  then show ?thesis ..
next
  case False
  then have c: "path_join [root, rel] = path_clean (path_join [root, rel])"
    by (cases "root = []"; cases "rel = []") (simp_all add: path_join_def)
  have "\<not> has_prefix (path_join [root, rel]) (path_clean root @ ''/'')"
    using clean_no_dot_slash [of "path_join [root, rel]"]
      clean_no_slash_slash [of "path_join [root, rel]"] assms(1) c
    by (auto simp: path_clean_dot)
  with assms(2) show ?thesis by (simp add: safe_join_Inr)
qed

lemma safe_join_contained:
  assumes a: "anchored root" and j: "safe_join root rel = Inr p"
  shows "contained root p"
proof (cases "path_comps root = []")
  case True
  with j safe_join_degenerate have "p = path_clean root" by blast
  then show ?thesis by simp
next
  case False
  then have r: "root \<noteq> []" by (auto simp: path_comps_def clean_comps_def clean_step_def)
  from j False obtain q where p: "p = path_join [root, rel]" and
    q: "path_comps p = path_comps root @ q"
    by (auto simp: safe_join_Inr join_guard_iff)
  have "''..'' \<notin> set q"
    using path_comps_normal [of p] a False q
    by (intro normal_comps_no_dotdot_after [of _ "path_comps root"]) (auto simp: anchored_def)
  with p q r show ?thesis by (auto simp: contained_def is_abs_join)
qed

lemma safe_join_complete:
  assumes "path_comps root \<noteq> []" and "contained root (path_join [root, rel])"
  shows "safe_join root rel = Inr (path_join [root, rel])"
  using assms by (auto simp: safe_join_Inr join_guard_iff contained_def)

lemma contained_join_plain:
  assumes "root \<noteq> []" and "''..'' \<notin> set (split_chr CHR ''/'' rel)"
  shows "contained root (path_join [root, rel])"
proof -
  have "clean_comps a st cs = st @ filter (\<lambda>c. c \<noteq> [] \<and> c \<noteq> ''.'') cs"
    if "''..'' \<notin> set cs" for a st cs
    using that by (induction cs arbitrary: st) (auto simp: clean_comps_def clean_step_def)
  from this [OF assms(2)] assms show ?thesis by (auto simp: contained_def is_abs_join path_comps_join)
qed

section \<open>The interface\<close>

text \<open>
  What a writer of untrusted entries relies on: a path the join returns lies inside the root,
  whatever the relative path is, and the only error is the refusal.
\<close>

locale contained_join =
  fixes join :: "string \<Rightarrow> string \<Rightarrow> string result"
  assumes join_contained: "anchored root \<Longrightarrow> join root rel = Inr p \<Longrightarrow> contained root p"
    and join_complete:
      "path_comps root \<noteq> [] \<Longrightarrow> contained root (path_join [root, rel]) \<Longrightarrow>
       join root rel = Inr (path_join [root, rel])"
    and join_value: "join root rel = Inr p \<Longrightarrow> p = path_join [root, rel]"
begin

lemma join_iff:
  assumes "anchored root" and "path_comps root \<noteq> []"
  shows "(\<exists>p. join root rel = Inr p) \<longleftrightarrow> contained root (path_join [root, rel])"
  using assms join_contained join_complete join_value by blast

lemma joins_contained:
  assumes "anchored root" and "\<forall>rel\<in>set rels. join root rel = Inr (f rel)"
  shows "\<forall>p\<in>f ` set rels. contained root p"
  using assms join_contained by blast

lemma join_plain:
  assumes "path_comps root \<noteq> []" and "''..'' \<notin> set (split_chr CHR ''/'' rel)"
  shows "join root rel = Inr (path_join [root, rel])"
proof -
  have "root \<noteq> []" using assms(1) by (auto simp: path_comps_def clean_comps_def clean_step_def)
  with assms show ?thesis by (intro join_complete contained_join_plain)
qed

end

interpretation safepath: contained_join safe_join
  by unfold_locales (auto simp: safe_join_contained safe_join_complete, simp add: safe_join_Inr)

lemma secure_path_eq: "secure_path = safe_join"
  by (simp add: fun_eq_iff secure_path_def safe_join_def)

interpretation securepath: contained_join secure_path
  unfolding secure_path_eq by (rule safepath.contained_join_axioms)

section \<open>Properties\<close>

text \<open>
  C22. \<^verbatim>\<open>safepath.Join\<close> is exact: for a root that names something below the current or the
  root directory and does not end in \<^verbatim>\<open>..\<close>, it accepts a relative path precisely when the
  joined path stays inside the root (so \<^verbatim>\<open>a/../b\<close> is accepted and only an escape is refused),
  and what it returns is the cleaned join.
\<close>

theorem safe_join_exact:
  assumes "anchored root" and "path_comps root \<noteq> []"
  shows "safe_join root rel =
           (if contained root (path_join [root, rel]) then Inr (path_join [root, rel])
            else Inl (Errorf ''path %q escapes the destination directory'' [rel] []))"
proof (cases "contained root (path_join [root, rel])")
  case True
  then show ?thesis using assms safepath.join_complete by simp
next
  case False
  then have "\<nexists>p. safe_join root rel = Inr p" using assms safepath.join_iff by blast
  then obtain e where "safe_join root rel = Inl e" by (cases "safe_join root rel") auto
  with False show ?thesis using safe_join_Inl by auto
qed

theorem safe_join_exact_witness:
  "safe_join ''/tmp/x'' ''a/../b'' = Inr ''/tmp/x/b'' \<and>
   safe_join ''/tmp/x'' ''../y'' = Inl (Errorf ''path %q escapes the destination directory'' [''../y''] [])"
proof -
  have "anchored ''/tmp/x''" "path_comps ''/tmp/x'' \<noteq> []" by code_simp+
  note e = safe_join_exact [OF this]
  have "contained ''/tmp/x'' (path_join [''/tmp/x'', ''a/../b''])"
    unfolding contained_def by (intro conjI exI [of _ "[''b'']"]) code_simp+
  moreover have "\<not> contained ''/tmp/x'' (path_join [''/tmp/x'', ''../y''])"
  proof -
    have "path_comps (path_join [''/tmp/x'', ''../y'']) = [''tmp'', ''y'']"
      "path_comps ''/tmp/x'' = [''tmp'', ''x'']" by code_simp+
    then show ?thesis by (simp add: contained_def)
  qed
  moreover have "path_join [''/tmp/x'', ''a/../b''] = ''/tmp/x/b''" by code_simp
  ultimately show ?thesis using e by simp
qed

text \<open>
  The limit of that guarantee: with a root made of \<^verbatim>\<open>..\<close> elements the string-prefix
  test accepts a path outside the root, so its hypothesis on the root cannot be dropped.
\<close>

theorem safe_join_dotdot_root_escapes:
  "safe_join ''..'' ''../x'' = Inr ''../../x'' \<and> \<not> contained ''..'' ''../../x''"
proof -
  have "safe_join ''..'' ''../x'' = Inr ''../../x''" by code_simp
  moreover have "path_comps ''../../x'' = [''..'', ''..'', ''x'']" "path_comps ''..'' = [''..'']"
    by code_simp+
  ultimately show ?thesis by (simp add: contained_def)
qed

end
