(* ===== verification/Git_Url.thy ===== *)
theory Git_Url
  imports Settings Safepath
begin

text \<open>
  \<^verbatim>\<open>protocols/git/git.go\<close>: detecting and parsing Git URLs, the host and scheme of a remote, the
  conversions between SSH and HTTPS remotes, and the URLs a clone is attempted with.
\<close>

section \<open>Forced detection\<close>

text \<open>
  \<^verbatim>\<open>protocols.ForcedDetector\<close>: with its prefix a protocol may accept more, but what it accepts
  without the prefix it accepts with it, as the same download.
\<close>

locale forced_detector =
  fixes detect :: "string \<Rightarrow> 'd option"
    and detect_forced :: "string \<Rightarrow> 'd option"
  assumes forced_agrees: "detect u = Some d \<Longrightarrow> detect_forced u = Some d"
begin

lemma forced_extends: "detect u = None \<or> detect u = detect_forced u"
  using forced_agrees by (cases "detect u") auto

lemma refused_forced_refused: "detect_forced u = None \<Longrightarrow> detect u = None"
  using forced_agrees by (cases "detect u") auto

end

section \<open>Parsing\<close>

record git_dl =
  gd_repo_url :: string
  gd_subdir :: string
  gd_ref :: string
  gd_depth :: int

definition is_word_char :: "char \<Rightarrow> bool" where
  "is_word_char c = (is_alnum c \<or> c = CHR ''_'')"

definition is_scp_host_char :: "char \<Rightarrow> bool" where
  "is_scp_host_char c = (is_alnum c \<or> c \<in> set ''._-'')"

text \<open>The regular expression \<^verbatim>\<open>scpPattern\<close>: a user, an at sign, a host and a colon.\<close>

definition scp_match :: "string \<Rightarrow> bool" where
  "scp_match s =
     (let user = takeWhile is_word_char s; r = dropWhile is_word_char s;
          host = takeWhile is_scp_host_char (tl r); r' = dropWhile is_scp_host_char (tl r)
      in user \<noteq> [] \<and> r \<noteq> [] \<and> hd r = CHR ''@'' \<and> host \<noteq> [] \<and> r' \<noteq> [] \<and> hd r' = CHR '':'')"

definition split_subdir :: "string \<Rightarrow> string \<times> string" where
  "split_subdir p =
     (case index_str p ''//'' of
        Some i \<Rightarrow> (take i p, trim_prefix (drop (i + 2) p) ''/'')
      | None \<Rightarrow> (p, []))"

definition parse_depth :: "string \<Rightarrow> int" where
  "parse_depth s =
     (if s = [] then 0
      else case atoi s of None \<Rightarrow> 0 | Some n \<Rightarrow> if n < 0 then 0 else n)"

definition resolve_subdir :: "string \<Rightarrow> string \<Rightarrow> string" where
  "resolve_subdir path_subdir query_subdir =
     (let p = (if path_subdir = [] then query_subdir else path_subdir)
      in trim_both (\<lambda>c. c = CHR ''/'') (path_clean (''/'' @ p)))"

definition known_git_hosts :: "string list" where
  "known_git_hosts =
     [''github.com'', ''gitlab.com'', ''bitbucket.org'', ''codeberg.org'', ''dev.azure.com'', ''sr.ht'']"

definition reserved_host_paths :: "string list" where
  "reserved_host_paths = [''api'']"

definition gitlab_legacy_routes :: "string list" where
  "gitlab_legacy_routes = [''raw'', ''blob'', ''tree'', ''archive'', ''releases'']"

definition is_repo_path :: "string \<Rightarrow> string \<Rightarrow> bool" where
  "is_repo_path host p =
     (let segments = split_chr CHR ''/'' (trim_both (\<lambda>c. c = CHR ''/'') (fst (split_subdir p)))
      in if length segments < 2 \<or> to_lower (hd segments) \<in> set reserved_host_paths then False
         else if host \<in> {''github.com'', ''bitbucket.org'', ''codeberg.org''} then length segments = 2
         else if host = ''gitlab.com'' then
           ''-'' \<notin> set segments \<and> list_all (\<lambda>s. s \<notin> set gitlab_legacy_routes) (drop 2 segments)
         else True)"

definition is_git_url :: "url \<Rightarrow> bool" where
  "is_git_url u =
     (if u_scheme u = ''ssh'' then True
      else if query_has (url_query u) ''archive'' then False
      else if has_suffix (u_path u) ''.git'' \<or> contains_str (u_path u) ''.git//'' then True
      else let host = to_lower (url_hostname u)
        in if host \<in> set known_git_hosts then is_repo_path host (u_path u) else False)"

definition parse_scp_url :: "string \<Rightarrow> git_dl option" where
  "parse_scp_url raw0 =
     (let (raw, query) = (case index_str raw0 ''?'' of
            Some i \<Rightarrow> (take i raw0, drop (i + 1) raw0) | None \<Rightarrow> (raw0, []));
          (repo, subdir) = split_subdir raw
      in if query = [] then
           Some \<lparr>gd_repo_url = repo, gd_subdir = resolve_subdir subdir [], gd_ref = [], gd_depth = 0\<rparr>
         else case parse_query query of
           None \<Rightarrow> None
         | Some q \<Rightarrow>
             Some \<lparr>gd_repo_url = repo, gd_subdir = resolve_subdir subdir (query_get q ''subdir''),
                    gd_ref = query_get q ''ref'', gd_depth = parse_depth (query_get q ''depth'')\<rparr>)"

definition add_https :: "string \<Rightarrow> string" where
  "add_https raw = (if contains_str raw ''://'' then raw else ''https://'' @ raw)"

definition parse_git_url :: "string \<Rightarrow> bool \<Rightarrow> git_dl option" where
  "parse_git_url raw forced =
     (if scp_match raw then parse_scp_url raw
      else case url_parse (add_https raw) of
        None \<Rightarrow> None
      | Some u \<Rightarrow>
          if \<not> forced \<and> \<not> is_git_url u then None
          else let (repo_path, subdir) = split_subdir (u_path u); q = url_query u
            in Some \<lparr>gd_repo_url = url_string (u\<lparr>u_path := repo_path, u_raw_query := [], u_fragment := [],
                                               u_force_query := False\<rparr>),
                     gd_subdir = resolve_subdir subdir (query_get q ''subdir''),
                     gd_ref = query_get q ''ref'', gd_depth = parse_depth (query_get q ''depth'')\<rparr>)"

definition git_detect :: "string \<Rightarrow> git_dl option" where
  "git_detect raw = parse_git_url raw False"

definition git_detect_forced :: "string \<Rightarrow> git_dl option" where
  "git_detect_forced raw = parse_git_url raw True"

interpretation git: forced_detector git_detect git_detect_forced
  by unfold_locales
    (auto simp: git_detect_def git_detect_forced_def parse_git_url_def split: if_splits option.splits)

section \<open>Hosts and schemes of a remote\<close>

text \<open>The part of an SCP-style URL between the at sign and the colon, and what follows it.\<close>

definition scp_parts :: "string \<Rightarrow> string \<times> string" where
  "scp_parts raw =
     (case index_str raw ''@'' of
        None \<Rightarrow> ([], [])
      | Some a \<Rightarrow>
          (case index_str (drop a raw) '':'' of
             None \<Rightarrow> ([], [])
           | Some c \<Rightarrow> (take (c - 1) (drop (a + 1) raw), drop (a + c + 1) raw)))"

definition ssh_host_of :: "string \<Rightarrow> string" where
  "ssh_host_of raw =
     (if scp_match raw then fst (scp_parts raw)
      else case url_parse raw of Some u \<Rightarrow> url_hostname u | None \<Rightarrow> [])"

definition git_url_host :: "string \<Rightarrow> string" where
  "git_url_host raw =
     (if has_prefix raw ''ssh://'' \<or> scp_match raw then ssh_host_of raw
      else case url_parse raw of Some u \<Rightarrow> url_hostname u | None \<Rightarrow> [])"

definition http_remote_url :: "string \<Rightarrow> url option" where
  "http_remote_url raw =
     (if scp_match raw then None
      else case url_parse raw of
        None \<Rightarrow> None
      | Some u \<Rightarrow> if u_scheme u \<noteq> ''https'' \<and> u_scheme u \<noteq> ''http'' then None else Some u)"

definition git_url_scheme :: "string \<Rightarrow> string" where
  "git_url_scheme raw = (case http_remote_url raw of Some u \<Rightarrow> u_scheme u | None \<Rightarrow> [])"

definition git_host_port :: "string \<Rightarrow> string \<times> string" where
  "git_host_port raw =
     (if scp_match raw then (ssh_host_of raw, ''22'')
      else case url_parse raw of
        None \<Rightarrow> ([], [])
      | Some u \<Rightarrow>
          if url_hostname u = [] then ([], [])
          else (url_hostname u,
                if url_port u \<noteq> [] then url_port u
                else if u_scheme u = ''ssh'' then ''22''
                else if u_scheme u = ''https'' then ''443''
                else if u_scheme u = ''http'' then ''80''
                else []))"

section \<open>Between SSH and HTTPS\<close>

definition https_to_ssh :: "string \<Rightarrow> string" where
  "https_to_ssh raw =
     (case url_parse raw of
        None \<Rightarrow> []
      | Some u \<Rightarrow>
          let host = url_hostname u; path = trim_prefix (u_path u) ''/''
          in if host = [] then []
             else if host = ''dev.azure.com'' then
               (let parts = split_chr CHR ''/'' path
                in if 4 \<le> length parts \<and> parts ! 2 = ''_git''
                   then ''ssh://git@ssh.dev.azure.com/v3/'' @ parts ! 0 @ ''/'' @ parts ! 1 @ ''/'' @ parts ! 3
                   else [])
             else let p = trim_suffix path ''.git''
               in if p = [] then [] else ''ssh://git@'' @ host @ ''/'' @ p @ ''.git'')"

definition azure_devops_https :: "string \<Rightarrow> string" where
  "azure_devops_https raw =
     (case url_parse raw of
        None \<Rightarrow> []
      | Some u \<Rightarrow>
          if url_hostname u \<noteq> ''ssh.dev.azure.com'' then []
          else let parts = split_chr CHR ''/'' (trim_prefix (u_path u) ''/'')
            in if length parts < 4 \<or> parts ! 0 \<noteq> ''v3'' then []
               else url_string (u\<lparr>u_host := ''dev.azure.com'',
                 u_path := ''/'' @ parts ! 1 @ ''/'' @ parts ! 2 @ ''/_git/'' @ parts ! 3\<rparr>))"

definition finish_https :: "string \<Rightarrow> string" where
  "finish_https https = (let azure = azure_devops_https https in if azure \<noteq> [] then azure else https)"

definition ssh_to_https :: "string \<Rightarrow> string" where
  "ssh_to_https raw =
     (if scp_match raw then finish_https (''https://'' @ fst (scp_parts raw) @ ''/'' @ snd (scp_parts raw))
      else if has_prefix raw ''ssh://'' then
        (case url_parse raw of
           None \<Rightarrow> raw
         | Some u \<Rightarrow> finish_https (url_string (u\<lparr>u_scheme := ''https'', u_user := None\<rparr>)))
      else raw)"

definition clone_candidates :: "'t settings \<Rightarrow> git_dl \<Rightarrow> string list" where
  "clone_candidates s d =
     (let orig = gd_repo_url d
      in if ssh_to_https_enabled (git s) then [ssh_to_https orig]
         else if has_prefix orig ''ssh://'' \<or> scp_match orig then
           (if ssh_to_https orig \<noteq> orig then [orig, ssh_to_https orig] else [orig])
         else case url_parse orig of
           None \<Rightarrow> [orig]
         | Some u \<Rightarrow>
             if (u_scheme u = ''https'' \<or> u_scheme u = ''http'') \<and>
                match_ssh_key s (url_hostname u) \<noteq> None \<and> https_to_ssh orig \<noteq> []
             then [orig, https_to_ssh orig] else [orig])"

section \<open>Plain hosts and paths\<close>

text \<open>
  Characters that need no escaping in a URL, for which parsing and printing can be followed
  symbolically: those of an SCP-style host, and the slash in addition for paths.
\<close>

definition is_path_char :: "char \<Rightarrow> bool" where
  "is_path_char c = (is_scp_host_char c \<or> c = CHR ''/'')"

lemmas char_class_simps = is_path_char_def is_scp_host_char_def is_word_char_def is_alnum_def
  is_digit_def is_upper_def is_lower_def

lemma special_chars [simp]:
  "\<not> is_path_char CHR ''#''" "\<not> is_path_char CHR ''?''" "\<not> is_path_char CHR ''@''"
  "\<not> is_path_char CHR '':''" "\<not> is_path_char CHR ''[''" "\<not> is_path_char CHR '']''"
  "\<not> is_path_char CHR ''%''" "\<not> is_path_char CHR ''*''" "is_path_char CHR ''/''" "\<not> is_scp_host_char CHR ''/''"
  by (simp_all add: char_class_simps)

lemma host_char_path: "is_scp_host_char c \<Longrightarrow> is_path_char c"
  by (simp add: is_path_char_def)

lemma path_chars_not: "list_all is_path_char h \<Longrightarrow> \<not> is_path_char c \<Longrightarrow> c \<notin> set h"
  by (auto simp: list_all_iff)

lemma host_chars_not: "list_all is_scp_host_char h \<Longrightarrow> \<not> is_scp_host_char c \<Longrightarrow> c \<notin> set h"
  by (auto simp: list_all_iff)

lemma host_chars_path: "list_all is_scp_host_char h \<Longrightarrow> list_all is_path_char h"
  by (auto simp: list_all_iff host_char_path)

lemma no_escape:
  "is_path_char c \<Longrightarrow> \<not> should_escape c EncPath" "is_scp_host_char c \<Longrightarrow> \<not> should_escape c EncHost"
  by (auto simp: should_escape_def is_path_char_def is_scp_host_char_def)

lemma path_char_not_ctl: "is_path_char c \<Longrightarrow> 32 \<le> byte c \<and> byte c \<noteq> 127"
  by (auto simp: char_class_simps)

lemma unescape_host: "list_all is_scp_host_char h \<Longrightarrow> url_unescape EncHost h = Some h"
proof (induction h)
  case (Cons c h)
  then have "is_path_char c" by (simp add: host_char_path)
  then have "c \<noteq> CHR ''%''" by auto
  with Cons show ?case by (simp add: no_escape)
qed simp

lemma unescape_path: "list_all is_path_char p \<Longrightarrow> url_unescape EncPath p = Some p"
proof (induction p)
  case (Cons c p)
  then have "c \<noteq> CHR ''%''" by auto
  with Cons show ?case by simp
qed simp

lemma escape_path: "list_all is_path_char p \<Longrightarrow> url_escape EncPath p = p"
  by (induction p) (auto simp: url_escape_def escape_chr_def no_escape)

lemma escape_host: "list_all is_scp_host_char p \<Longrightarrow> url_escape EncHost p = p"
  by (induction p) (auto simp: url_escape_def escape_chr_def no_escape)

lemma last_index_chr_None: "c \<notin> set s \<Longrightarrow> last_index_chr s c = None"
  by (induction s) auto

lemma index_chr_None: "c \<notin> set s \<Longrightarrow> index_str s [c] = None"
  by (induction s) auto

lemma index_chr_first: "c \<notin> set a \<Longrightarrow> index_str (a @ c # b) [c] = Some (length a)"
  by (induction a) auto

lemma parse_host_plain: "list_all is_scp_host_char h \<Longrightarrow> url_parse_host h = Some h"
  using path_chars_not [OF host_chars_path, of h "CHR ''[''"] path_chars_not [OF host_chars_path, of h "CHR '':''"]
  by (simp add: url_parse_host_def last_index_chr_None index_chr_None unescape_host)

lemma parse_authority_plain: "list_all is_scp_host_char h \<Longrightarrow> url_parse_authority h = Some (None, h)"
  using path_chars_not [OF host_chars_path, of h "CHR ''@''"]
  by (simp add: url_parse_authority_def last_index_chr_None parse_host_plain)

lemma hostname_plain:
  assumes "list_all is_scp_host_char (u_host u)"
  shows "url_hostname u = u_host u" "url_port u = []"
proof -
  have n: "CHR '':'' \<notin> set (u_host u)" "CHR ''['' \<notin> set (u_host u)"
    using path_chars_not [OF host_chars_path [OF assms]] by simp_all
  then have "\<not> has_prefix (u_host u) ''[''" by (auto simp: has_prefix_iff)
  with n show "url_hostname u = u_host u" "url_port u = []"
    by (simp_all add: url_hostname_def url_port_def url_split_host_port_def last_index_chr_None)
qed

lemma get_scheme_https: "get_scheme (''https://'' @ x) = Some (''https'', ''//'' @ x)"
  by (simp add: get_scheme_def is_upper_def is_lower_def is_digit_def)

lemma get_scheme_ssh: "get_scheme (''ssh://'' @ x) = Some (''ssh'', ''//'' @ x)"
  by (simp add: get_scheme_def is_upper_def is_lower_def is_digit_def)

lemma cut_chr_append:
  "c \<notin> set a \<Longrightarrow> cut_str (a @ s) [c] = (case cut_str s [c] of (x, y, f) \<Rightarrow> (a @ x, y, f))"
proof (induction a)
  case Nil
  then show ?case by (simp split: prod.splits)
next
  case (Cons d a)
  then show ?case
    by (auto simp: cut_str_def split: option.splits prod.splits)
qed

lemma set_url_path_host: "set_url_path p u = Some v \<Longrightarrow> u_host v = u_host u \<and> u_scheme v = u_scheme u \<and> u_user v = u_user u \<and>
   u_opaque v = u_opaque u"
  by (auto simp: set_url_path_def split: option.splits)

lemma takeWhile_host:
  "list_all is_scp_host_char h \<Longrightarrow> takeWhile (\<lambda>c. c \<noteq> CHR ''/'') (h @ CHR ''/'' # p) = h"
  "list_all is_scp_host_char h \<Longrightarrow> dropWhile (\<lambda>c. c \<noteq> CHR ''/'') (h @ CHR ''/'' # p) = CHR ''/'' # p"
  using host_chars_not [of h "CHR ''/''"] by (auto simp: takeWhile_tail dropWhile_append)

lemma parse_hier_plain:
  assumes "list_all is_scp_host_char h" and "u_scheme u \<noteq> []"
  shows "url_parse_hier (''//'' @ h @ ''/'' @ p) u = set_url_path (CHR ''/'' # p) (u\<lparr>u_user := None, u_host := h\<rparr>)"
  using assms by (simp add: url_parse_hier_def takeWhile_host parse_authority_plain)

text \<open>Whatever follows the host, a URL that starts this way has this host and no user.\<close>

lemma parse_https_host:
  assumes "url_parse (''https://'' @ h @ ''/'' @ p) = Some u" and h: "list_all is_scp_host_char h"
  shows "u_host u = h \<and> u_scheme u = ''https'' \<and> u_user u = None \<and> u_opaque u = []"
proof -
  have hn: "c \<notin> set h" if "\<not> is_path_char c" for c using path_chars_not [OF host_chars_path [OF h] that] .
  obtain p1 frag f where c1: "cut_str p ''#'' = (p1, frag, f)" by (cases "cut_str p ''#''")
  have "cut_str ((''https://'' @ h @ ''/'') @ p) ''#'' = ((''https://'' @ h @ ''/'') @ p1, frag, f)"
    using hn by (subst cut_chr_append) (auto simp: c1)
  then obtain v where v: "url_parse_nofrag (''https://'' @ h @ ''/'' @ p1) = Some v"
    and uv: "u_host u = u_host v" "u_scheme u = u_scheme v" "u_user u = u_user v"
      "u_opaque u = u_opaque v"
    using assms(1) by (auto simp: url_parse_def set_url_fragment_def split: option.splits if_splits)
  obtain p2 query g where c2: "cut_str p1 ''?'' = (p2, query, g)" by (cases "cut_str p1 ''?''")
  have c2': "cut_str ((''//'' @ h @ ''/'') @ p1) ''?'' = ((''//'' @ h @ ''/'') @ p2, query, g)"
    using hn by (subst cut_chr_append) (auto simp: c2)
  obtain w where w: "u_scheme w = ''https''" "u_user w = None" "u_opaque w = []"
    and vw: "set_url_path (CHR ''/'' # p2) (w\<lparr>u_user := None, u_host := h\<rparr>) = Some v"
  proof -
    let ?r = "''//'' @ h @ ''/'' @ p1"
    let ?w = "empty_url\<lparr>u_scheme := ''https'', u_force_query := has_suffix ?r ''?'' \<and>
        length (filter (\<lambda>c. c = CHR ''?'') ?r) = 1, u_raw_query := query\<rparr>"
    have "to_lower ''https'' = ''https''" by code_simp
    then have "url_parse_hier (''//'' @ h @ ''/'' @ p2) ?w = Some v"
      using v c2' by (simp add: url_parse_nofrag_def get_scheme_https [simplified] Let_def split: if_splits)
    then have "set_url_path (CHR ''/'' # p2) (?w\<lparr>u_user := None, u_host := h\<rparr>) = Some v"
      by (subst (asm) parse_hier_plain [OF h]) simp_all
    then show ?thesis by (intro that [of ?w]) (simp_all add: empty_url_def)
  qed
  show ?thesis using set_url_path_host [OF vw] w uv by simp
qed

lemma plain_no_ctl: "list_all is_path_char p \<Longrightarrow> \<not> contains_ctl p"
  by (induction p) (auto simp: contains_ctl_def dest: path_char_not_ctl)

lemma cut_chr_none: "c \<notin> set s \<Longrightarrow> cut_str s [c] = (s, [], False)"
  by (simp add: cut_str_def index_chr_None)

definition plain_url :: "string \<Rightarrow> userinfo option \<Rightarrow> string \<Rightarrow> string \<Rightarrow> url" where
  "plain_url scheme user h p =
     empty_url\<lparr>u_scheme := scheme, u_user := user, u_host := h, u_path := CHR ''/'' # p\<rparr>"

lemma set_url_path_plain:
  "list_all is_path_char p \<Longrightarrow> u_raw_path u = [] \<Longrightarrow> set_url_path (CHR ''/'' # p) u = Some (u\<lparr>u_path := CHR ''/'' # p\<rparr>)"
  using unescape_path [of "CHR ''/'' # p"] escape_path [of "CHR ''/'' # p"]
  by (simp add: set_url_path_def)

lemma plain_chars_not: "list_all is_path_char p \<Longrightarrow> c \<in> set ''#?@:'' \<Longrightarrow> c \<notin> set p"
  using path_chars_not by auto

text \<open>A character that ends neither the authority nor the URL before its query or fragment.\<close>

definition is_auth_char :: "char \<Rightarrow> bool" where
  "is_auth_char c = (is_scp_host_char c \<or> c = CHR ''@'')"

lemma is_auth_char_not: "is_auth_char c \<Longrightarrow> c \<notin> set ''#?/'' \<and> 32 \<le> byte c \<and> byte c \<noteq> 127"
  by (auto simp: is_auth_char_def char_class_simps)

lemma parse_plain:
  assumes sch: "scheme \<in> {''https'', ''ssh''}" and A: "list_all is_auth_char A"
    and auth: "url_parse_authority A = Some (user, h)" and p: "list_all is_path_char p"
  shows "url_parse (scheme @ ''://'' @ A @ ''/'' @ p) = Some (plain_url scheme user h p)"
proof -
  let ?r = "''//'' @ A @ ''/'' @ p"
  have An: "c \<notin> set A" if "c \<in> set ''#?/''" for c
    using A is_auth_char_not that by (fastforce simp: list_all_iff)
  have gs: "get_scheme (scheme @ CHR '':'' # ?r) = Some (scheme, ?r)" "to_lower scheme = scheme"
    using sch get_scheme_https [of "A @ ''/'' @ p"] get_scheme_ssh [of "A @ ''/'' @ p"]
    by (auto simp: to_lower_def lower_char_def is_upper_def)
  have n: "CHR ''#'' \<notin> set (scheme @ CHR '':'' # ?r)" "CHR ''?'' \<notin> set ?r"
    using plain_chars_not [OF p, of "CHR ''#''"] plain_chars_not [OF p, of "CHR ''?''"]
      An [of "CHR ''#''"] An [of "CHR ''?''"] sch by auto
  have ctl: "\<not> contains_ctl (scheme @ CHR '':'' # ?r)"
  proof -
    have "\<not> contains_ctl A"
      using A by (induction A) (auto simp: contains_ctl_def dest: is_auth_char_not)
    moreover have "\<not> contains_ctl scheme" using sch by (auto simp: contains_ctl_def)
    ultimately show ?thesis using plain_no_ctl [OF p] by (simp add: contains_ctl_def)
  qed
  have q: "\<not> has_suffix ?r ''?''"
  proof
    assume "has_suffix ?r ''?''"
    then obtain t where "?r = t @ ''?''" unfolding has_suffix_iff ..
    then have "CHR ''?'' \<in> set ?r" by (simp only: set_append) simp
    with n(2) show False ..
  qed
  have w: "takeWhile (\<lambda>c. c \<noteq> CHR ''/'') (A @ CHR ''/'' # p) = A"
    "dropWhile (\<lambda>c. c \<noteq> CHR ''/'') (A @ CHR ''/'' # p) = CHR ''/'' # p"
    using An [of "CHR ''/''"] by (auto simp: takeWhile_tail dropWhile_append)
  have "scheme @ CHR '':'' # ?r \<noteq> ''*''" using sch by auto
  then have "url_parse_nofrag (scheme @ CHR '':'' # ?r) =
      url_parse_hier ?r (empty_url\<lparr>u_scheme := scheme\<rparr>)"
    using cut_chr_none [OF n(2)] gs ctl q
    by (simp add: url_parse_nofrag_def empty_url_def Let_def)
  moreover have "url_parse_hier ?r (empty_url\<lparr>u_scheme := scheme\<rparr>) = Some (plain_url scheme user h p)"
    using sch by (auto simp: url_parse_hier_def w auth set_url_path_plain [OF p] plain_url_def empty_url_def)
  ultimately show ?thesis
    using cut_chr_none [OF n(1)] by (simp add: url_parse_def)
qed

lemma auth_plain:
  assumes "list_all is_scp_host_char h"
  shows "list_all is_auth_char h" "list_all is_auth_char (''git@'' @ h)"
    "url_parse_authority (''git@'' @ h) = Some (Some \<lparr>ui_username = ''git'', ui_password = None\<rparr>, h)"
proof -
  show "list_all is_auth_char h" using assms by (auto simp: list_all_iff is_auth_char_def)
  then show "list_all is_auth_char (''git@'' @ h)" by (simp add: is_auth_char_def char_class_simps)
  have "last_index_chr (''git@'' @ h) CHR ''@'' = Some 3"
    using last_index_chr_None [of "CHR ''@''" h] host_chars_not [OF assms, of "CHR ''@''"]
    by (simp add: char_class_simps)
  moreover have "url_parse_userinfo ''git'' = Some \<lparr>ui_username = ''git'', ui_password = None\<rparr>" by code_simp
  ultimately show "url_parse_authority (''git@'' @ h) = Some (Some \<lparr>ui_username = ''git'', ui_password = None\<rparr>, h)"
    by (simp add: url_parse_authority_def parse_host_plain [OF assms])
qed

lemma plain_path_not_star: "CHR ''/'' # p \<noteq> ''*''"
  by simp

lemma string_plain_https:
  assumes "list_all is_scp_host_char h" and "list_all is_path_char p" and "h \<noteq> []"
  shows "url_string (plain_url ''https'' None h p) = ''https://'' @ h @ ''/'' @ p"
  using assms escape_path [of "CHR ''/'' # p"]
  by (simp add: url_string_def plain_url_def empty_url_def url_authority_string_def escaped_path_def
      escape_host Let_def)

text \<open>An SCP-style URL taken apart.\<close>

lemma scp_match_parts:
  assumes "scp_match raw"
  obtains user host rest where "raw = user @ ''@'' @ host @ '':'' @ rest"
    "list_all is_word_char user" "list_all is_scp_host_char host" "host \<noteq> []" "user \<noteq> []"
proof -
  let ?user = "takeWhile is_word_char raw"
  let ?r = "dropWhile is_word_char raw"
  let ?host = "takeWhile is_scp_host_char (tl ?r)"
  let ?r' = "dropWhile is_scp_host_char (tl ?r)"
  have m: "?user \<noteq> []" "?r \<noteq> []" "hd ?r = CHR ''@''" "?host \<noteq> []" "?r' \<noteq> []" "hd ?r' = CHR '':''"
    using assms by (auto simp: scp_match_def Let_def)
  have "raw = ?user @ ?r" by simp
  also have "?r = CHR ''@'' # tl ?r" using m(2,3) by (metis list.collapse)
  also have "tl ?r = ?host @ ?r'" by simp
  also have "?r' = CHR '':'' # tl ?r'" using m(5,6) by (metis list.collapse)
  finally have "raw = ?user @ ''@'' @ ?host @ '':'' @ tl ?r'" by simp
  then show ?thesis
    using m(1,4) by (intro that [of ?user ?host "tl ?r'"]) (auto simp: list_all_iff dest: set_takeWhileD)
qed

lemma scp_parts_eq:
  assumes "list_all is_word_char user" and "list_all is_scp_host_char host"
  shows "scp_parts (user @ ''@'' @ host @ '':'' @ rest) = (host, rest)"
proof -
  have "CHR ''@'' \<notin> set user" "CHR '':'' \<notin> set host"
    using assms by (auto simp: list_all_iff char_class_simps)
  then show ?thesis
    using index_chr_first [of "CHR ''@''" user "host @ '':'' @ rest"]
      index_chr_first [of "CHR '':''" "CHR ''@'' # host" rest]
    by (simp add: scp_parts_def)
qed

lemma azure_https_form:
  assumes "u_scheme u = ''https''" and "u_user u = None" and "u_opaque u = []"
  shows "\<exists>r. url_string (u\<lparr>u_host := ''dev.azure.com'', u_path := ''/'' @ q\<rparr>) = ''https://dev.azure.com/'' @ r"
proof -
  let ?u = "u\<lparr>u_host := ''dev.azure.com'', u_path := ''/'' @ q\<rparr>"
  have "list_all is_scp_host_char ''dev.azure.com''" by code_simp
  then have e: "url_escape EncHost ''dev.azure.com'' = ''dev.azure.com''" by (rule escape_host)
  have "url_authority_string ?u = ''//dev.azure.com''"
    using assms by (simp add: url_authority_string_def e)
  moreover have "escaped_path ?u \<noteq> []"
    by (auto simp: escaped_path_def url_escape_def escape_chr_def)
  then have "\<exists>r. (if escaped_path ?u \<noteq> [] \<and> hd (escaped_path ?u) \<noteq> CHR ''/'' then ''/'' else []) @ escaped_path ?u = ''/'' @ r"
    by (cases "escaped_path ?u") auto
  then obtain r where "(if escaped_path ?u \<noteq> [] \<and> hd (escaped_path ?u) \<noteq> CHR ''/'' then ''/'' else []) @ escaped_path ?u = ''/'' @ r"
    by blast
  ultimately show ?thesis
    using assms by (auto simp: url_string_def Let_def)
qed

section \<open>Subdirectories\<close>

lemma trim_slashes_join:
  assumes "\<forall>c\<in>set cs. proper_comp c"
  shows "trim_both (\<lambda>c. c = CHR ''/'') (CHR ''/'' # join_str ''/'' cs) = join_str ''/'' cs"
proof (cases cs rule: rev_cases)
  case Nil
  then show ?thesis by (simp add: trim_both_def trim_left_def trim_right_def)
next
  case (snoc ds d)
  have "cs \<noteq> []" using snoc by simp
  then obtain e es where e: "cs = e # es" by (meson neq_Nil_conv)
  have pe: "e \<noteq> []" "CHR ''/'' \<notin> set e" "d \<noteq> []" "CHR ''/'' \<notin> set d"
  proof -
    have "e \<in> set cs" "d \<in> set cs" by (simp add: e) (simp add: snoc)
    then have "proper_comp e" "proper_comp d" using assms by blast+
    then show "e \<noteq> []" "CHR ''/'' \<notin> set e" "d \<noteq> []" "CHR ''/'' \<notin> set d" by (simp_all add: proper_comp_def)
  qed
  have hd: "hd (join_str ''/'' cs) \<noteq> CHR ''/''" "join_str ''/'' cs \<noteq> []"
  proof -
    have "join_str ''/'' cs = e @ (if es = [] then [] else ''/'' @ join_str ''/'' es)"
      by (simp add: e join_str_Cons)
    then show "hd (join_str ''/'' cs) \<noteq> CHR ''/''" "join_str ''/'' cs \<noteq> []"
      using pe(1,2) by (cases e; auto)+
  qed
  have "join_str ''/'' cs = (if ds = [] then d else join_str ''/'' ds @ ''/'' @ d)"
    using snoc join_str_append [of ds "[d]" "''/''"] by auto
  then have last: "last (join_str ''/'' cs) \<noteq> CHR ''/''"
    using pe(3,4) by (cases d rule: rev_cases) (auto simp: last_append)
  have "dropWhile (\<lambda>c. c = CHR ''/'') (join_str ''/'' cs) = join_str ''/'' cs"
    using hd by (cases "join_str ''/'' cs") auto
  moreover have "dropWhile (\<lambda>c. c = CHR ''/'') (rev (join_str ''/'' cs)) = rev (join_str ''/'' cs)"
    using hd(2) last by (cases "join_str ''/'' cs" rule: rev_cases) auto
  ultimately show ?thesis by (simp add: trim_both_def trim_left_def trim_right_def)
qed

lemma resolve_subdir_comps:
  obtains cs where "resolve_subdir a b = join_str ''/'' cs" "\<forall>c\<in>set cs. proper_comp c \<and> c \<noteq> ''..''"
proof -
  let ?p = "''/'' @ (if a = [] then b else a)"
  have n: "normal_comps True (path_comps ?p)"
    using path_comps_normal [of ?p] by (simp add: is_abs_def)
  then have p: "\<forall>c\<in>set (path_comps ?p). proper_comp c \<and> c \<noteq> ''..''"
    by (auto simp: normal_comps_def)
  have "resolve_subdir a b = join_str ''/'' (path_comps ?p)"
    using trim_slashes_join p by (simp add: resolve_subdir_def path_clean_def unsplit_def is_abs_def)
  then show ?thesis using p by (rule that)
qed

lemma contained_join_comps:
  assumes "root \<noteq> []" and "\<forall>c\<in>set cs. proper_comp c \<and> c \<noteq> ''..''"
  shows "contained root (path_join [root, join_str ''/'' cs])"
proof (cases "cs = []")
  case True
  then show ?thesis using assms(1)
    by (simp add: contained_def path_comps_join is_abs_join clean_comps_def clean_step_def)
next
  case False
  have "split_chr CHR ''/'' (join_str ''/'' cs) = cs"
    using assms(2) False by (intro split_join) (auto simp: proper_comp_def)
  then have "path_comps (path_join [root, join_str ''/'' cs]) = path_comps root @ cs"
    using assms clean_comps_rest [of cs "is_abs root" "path_comps root"] by (auto simp: path_comps_join)
  then show ?thesis using assms by (auto simp: contained_def is_abs_join)
qed

lemma parsed_subdir: "parse_git_url raw forced = Some d \<Longrightarrow> \<exists>a b. gd_subdir d = resolve_subdir a b"
  by (auto simp: parse_git_url_def parse_scp_url_def Let_def split: if_splits option.splits prod.splits)
    (rule exI, rule exI, rule refl)+

section \<open>Properties\<close>

text \<open>
  The HTTPS fallback of an SCP-style remote stays with the same host: where it is a URL at
  all, it names the host of the remote (or, for Azure DevOps, the HTTPS host that serves what
  \<^verbatim>\<open>ssh.dev.azure.com\<close> does) and carries no user.
\<close>

theorem scp_https_fallback_same_host:
  assumes "scp_match raw" and "url_parse (ssh_to_https raw) = Some u"
  shows "u_scheme u = ''https'' \<and> u_user u = None \<and>
     (url_hostname u = git_url_host raw \<or>
      (git_url_host raw = ''ssh.dev.azure.com'' \<and> url_hostname u = ''dev.azure.com''))"
proof -
  obtain user host rest where raw: "raw = user @ ''@'' @ host @ '':'' @ rest"
    and chars: "list_all is_word_char user" "list_all is_scp_host_char host" "host \<noteq> []"
    using scp_match_parts [OF assms(1)] by metis
  have parts: "scp_parts raw = (host, rest)" using scp_parts_eq [OF chars(1,2)] raw by simp
  have gh: "git_url_host raw = host"
    using assms(1) by (simp add: git_url_host_def ssh_host_of_def parts)
  let ?h = "''https://'' @ host @ ''/'' @ rest"
  have res: "ssh_to_https raw = finish_https ?h"
    using assms(1) by (simp add: ssh_to_https_def parts)
  show ?thesis
  proof (cases "azure_devops_https ?h = []")
    case True
    then have "url_parse ?h = Some u" using assms(2) res by (simp add: finish_https_def)
    from parse_https_host [OF this chars(2)] show ?thesis
      using hostname_plain(1) [of u] chars(2) gh by simp
  next
    case False
    then obtain v where v: "url_parse ?h = Some v" "url_hostname v = ''ssh.dev.azure.com''"
      by (auto simp: azure_devops_https_def split: option.splits if_splits)
    from parse_https_host [OF v(1) chars(2)]
    have vv: "u_scheme v = ''https''" "u_user v = None" "u_opaque v = []" "u_host v = host" by simp_all
    have host: "host = ''ssh.dev.azure.com''" using v(2) vv(4) hostname_plain(1) [of v] chars(2) by simp
    obtain q where "azure_devops_https ?h = url_string (v\<lparr>u_host := ''dev.azure.com'', u_path := ''/'' @ q\<rparr>)"
      using False v by (auto simp: azure_devops_https_def Let_def split: if_splits)
    then obtain r where "azure_devops_https ?h = ''https://'' @ ''dev.azure.com'' @ ''/'' @ r"
      using azure_https_form [OF vv(1-3)] by fastforce
    then have "url_parse (''https://'' @ ''dev.azure.com'' @ ''/'' @ r) = Some u"
      using assms(2) res False by (simp add: finish_https_def)
    moreover have plain: "list_all is_scp_host_char ''dev.azure.com''" by code_simp
    ultimately show ?thesis
      using parse_https_host [of "''dev.azure.com''" r u] hostname_plain(1) [of u] gh host by simp
  qed
qed

theorem scp_https_fallback_same_host_witness:
  "scp_match ''git@ssh.dev.azure.com:v3/o/p/r'' \<and> git_url_host ''git@ssh.dev.azure.com:v3/o/p/r'' = ''ssh.dev.azure.com'' \<and>
   (\<exists>u. url_parse (ssh_to_https ''git@ssh.dev.azure.com:v3/o/p/r'') = Some u \<and> u_scheme u = ''https'' \<and> u_user u = None)"
proof -
  have m: "scp_match ''git@ssh.dev.azure.com:v3/o/p/r''" by code_simp
  have g: "git_url_host ''git@ssh.dev.azure.com:v3/o/p/r'' = ''ssh.dev.azure.com''" by code_simp
  have "url_parse (ssh_to_https ''git@ssh.dev.azure.com:v3/o/p/r'') \<noteq> None" by code_simp
  then obtain u where u: "url_parse (ssh_to_https ''git@ssh.dev.azure.com:v3/o/p/r'') = Some u" by blast
  from scp_https_fallback_same_host [OF m u] u m g show ?thesis by blast
qed

text \<open>
  C34. Whatever a Git URL asks for as its subdirectory, in either spelling and with any amount of
  \<^verbatim>\<open>..\<close>, the directory looked up under the download directory lies inside it.
\<close>

theorem git_subdir_confined:
  assumes "parse_git_url raw forced = Some d" and "root \<noteq> []"
  shows "contained root (path_join [root, gd_subdir d])"
proof -
  obtain a b where ab: "gd_subdir d = resolve_subdir a b" using parsed_subdir [OF assms(1)] by blast
  obtain cs where "resolve_subdir a b = join_str ''/'' cs" "\<forall>c\<in>set cs. proper_comp c \<and> c \<noteq> ''..''"
    by (rule resolve_subdir_comps)
  with contained_join_comps [OF assms(2)] ab show ?thesis by simp
qed

theorem git_subdir_confined_witness:
  "\<exists>d. git_detect ''github.com/o/r//../../etc?ref=v1'' = Some d \<and> gd_subdir d = ''etc'' \<and>
     contained ''/tmp/x'' (path_join [''/tmp/x'', gd_subdir d])"
proof -
  have "map_option gd_subdir (git_detect ''github.com/o/r//../../etc?ref=v1'') = Some ''etc''" by code_simp
  then obtain d where d: "git_detect ''github.com/o/r//../../etc?ref=v1'' = Some d" "gd_subdir d = ''etc''"
    by (auto simp: map_option_case split: option.splits)
  show ?thesis
    using git_subdir_confined [of _ False d "''/tmp/x''"] d unfolding git_detect_def by blast
qed

text \<open>
  C38. The two scheme swaps are inverse on ordinary remotes: an HTTPS repository URL is turned
  into its SSH form and back without change.
\<close>

theorem scheme_swap_roundtrip:
  assumes h: "list_all is_scp_host_char h" "h \<noteq> []" "h \<notin> {''dev.azure.com'', ''ssh.dev.azure.com''}"
    and p: "list_all is_path_char p" "p \<noteq> []" "\<not> has_prefix p ''/''"
  shows "https_to_ssh (''https://'' @ h @ ''/'' @ p @ ''.git'') = ''ssh://git@'' @ h @ ''/'' @ p @ ''.git'' \<and>
     ssh_to_https (''ssh://git@'' @ h @ ''/'' @ p @ ''.git'') = ''https://'' @ h @ ''/'' @ p @ ''.git''"
proof
  let ?q = "p @ ''.git''"
  have q: "list_all is_path_char ?q" using p by (simp add: char_class_simps)
  have hs: "url_parse (''https://'' @ h @ ''/'' @ ?q) = Some (plain_url ''https'' None h ?q)"
    using parse_plain [of "''https''" h None h ?q] auth_plain(1) [OF h(1)] parse_authority_plain [OF h(1)] q
    by simp
  have sh: "url_parse (''ssh://git@'' @ h @ ''/'' @ ?q) =
      Some (plain_url ''ssh'' (Some \<lparr>ui_username = ''git'', ui_password = None\<rparr>) h ?q)"
    using parse_plain [of "''ssh''" "''git@'' @ h" "Some \<lparr>ui_username = ''git'', ui_password = None\<rparr>" h ?q]
      auth_plain [OF h(1)] q by simp
  have host: "url_hostname (plain_url s v h x) = h" for s v x
    using hostname_plain(1) [of "plain_url s v h x"] h(1) by (simp add: plain_url_def)
  have path: "u_path (plain_url s v h x) = ''/'' @ x" for s v x by (simp add: plain_url_def)
  show "https_to_ssh (''https://'' @ h @ ''/'' @ ?q) = ''ssh://git@'' @ h @ ''/'' @ ?q"
    using h p by (simp add: https_to_ssh_def hs [simplified] host path trim_prefix_def)
  have "\<not> scp_match (''ssh://git@'' @ h @ ''/'' @ ?q)"
    by (simp add: scp_match_def char_class_simps)
  moreover have "(plain_url ''ssh'' v h ?q)\<lparr>u_scheme := ''https'', u_user := None\<rparr> = plain_url ''https'' None h ?q" for v
    by (simp add: plain_url_def)
  moreover have "azure_devops_https (''https://'' @ h @ ''/'' @ ?q) = []"
    using h by (simp add: azure_devops_https_def hs [simplified] host)
  ultimately show "ssh_to_https (''ssh://git@'' @ h @ ''/'' @ ?q) = ''https://'' @ h @ ''/'' @ ?q"
    using string_plain_https [OF h(1) q h(2)] sh
    by (simp add: ssh_to_https_def finish_https_def)
qed

theorem scheme_swap_roundtrip_witness:
  "ssh_to_https (https_to_ssh ''https://example.com/o/r.git'') = ''https://example.com/o/r.git''"
proof -
  have "list_all is_scp_host_char ''example.com''" "list_all is_path_char ''o/r''" by code_simp+
  from scheme_swap_roundtrip [OF this(1) _ _ this(2)] show ?thesis by simp
qed

text \<open>
  Turning an HTTPS remote into SSH drops the brackets of an IPv6 host: the candidate is not
  a URL, so the fallback to SSH can never work for such a host.
\<close>

theorem https_to_ssh_ipv6_unusable:
  "https_to_ssh ''https://[2001:db8::1]/o/r.git'' = ''ssh://git@2001:db8::1/o/r.git'' \<and>
   url_parse ''ssh://git@2001:db8::1/o/r.git'' = None"
  by code_simp

end
