(* ===== verification/Files.thy ===== *)
theory Files
  imports Safepath "HOL-Library.Sublist"
begin

text \<open>
  The file system as the program uses it through the \<^verbatim>\<open>os\<close> package: directories, regular
  files and symbolic links at absolute paths (lists of elements), with the kernel's resolution
  of symbolic links.  An operation that changes files returns the file system it leaves, also
  when it fails.  Permissions are recorded, not enforced.
\<close>

section \<open>State\<close>

type_synonym fpath = "string list"

datatype fnode = Dir nat | Regular nat string | Link string

record fs =
  fs_nodes :: "(fpath \<times> fnode) list"
  fs_cwd :: fpath

text \<open>The root directory always exists.\<close>

definition fs_get :: "fs \<Rightarrow> fpath \<Rightarrow> fnode option" where
  "fs_get f p = (if p = [] then Some (Dir 493) else map_of (fs_nodes f) p)"

definition fs_set :: "fs \<Rightarrow> fpath \<Rightarrow> fnode \<Rightarrow> fs" where
  "fs_set f p n = f\<lparr>fs_nodes := map_put p n (fs_nodes f)\<rparr>"

definition fs_del :: "fs \<Rightarrow> fpath \<Rightarrow> fs" where
  "fs_del f p = f\<lparr>fs_nodes := map_delete p (fs_nodes f)\<rparr>"

definition enoent :: goerr where "enoent = Errorf ''no such file or directory'' [] [Sentinel ErrNotExist]"
definition enotdir :: goerr where "enotdir = errors_new ''not a directory''"
definition eexist :: goerr where "eexist = errors_new ''file exists''"
definition eisdir :: goerr where "eisdir = errors_new ''is a directory''"
definition eloop :: goerr where "eloop = errors_new ''too many levels of symbolic links''"
definition enotempty :: goerr where "enotempty = errors_new ''directory not empty''"
definition einval :: goerr where "einval = errors_new ''invalid argument''"

section \<open>Path resolution\<close>

definition raw_comps :: "string \<Rightarrow> string list" where
  "raw_comps s = filter (\<lambda>c. c \<noteq> [] \<and> c \<noteq> ''.'') (split_chr CHR ''/'' s)"

text \<open>
  The walk of the kernel: \<open>n\<close> symbolic links may still be followed, \<open>cur\<close> is the directory
  reached, and the last element is followed when \<open>follow\<close> is set.  A missing last element is
  not an error: the path is where it would be created.
\<close>

function walk :: "fs \<Rightarrow> bool \<Rightarrow> nat \<Rightarrow> fpath \<Rightarrow> string list \<Rightarrow> fpath result" where
  "walk f follow n cur [] = Inr cur"
| "walk f follow n cur (c # cs) =
     (if c = ''..'' then walk f follow n (butlast cur) cs
      else case fs_get f (cur @ [c]) of
        None \<Rightarrow> if cs = [] then Inr (cur @ [c]) else Inl enoent
      | Some (Dir m) \<Rightarrow> walk f follow n (cur @ [c]) cs
      | Some (Regular m d) \<Rightarrow> if cs = [] then Inr (cur @ [c]) else Inl enotdir
      | Some (Link t) \<Rightarrow>
          if cs = [] \<and> \<not> follow then Inr (cur @ [c])
          else if n = 0 then Inl eloop
          else walk f follow (n - 1) (if is_abs t then [] else cur) (raw_comps t @ cs))"
  by pat_completeness auto
termination
  by (relation "measures [\<lambda>(f, fl, n, cur, cs). n, \<lambda>(f, fl, n, cur, cs). length cs]") auto

definition symloop_max :: nat where "symloop_max = 40"

definition resolve :: "fs \<Rightarrow> bool \<Rightarrow> string \<Rightarrow> fpath result" where
  "resolve f follow s =
     (if s = [] then Inl enoent
      else walk f follow symloop_max (if is_abs s then [] else fs_cwd f) (raw_comps s))"

definition fs_stat :: "fs \<Rightarrow> string \<Rightarrow> fnode result" where
  "fs_stat f s = bind_result (resolve f True s)
     (\<lambda>p. case fs_get f p of None \<Rightarrow> Inl enoent | Some n \<Rightarrow> Inr n)"

definition fs_lstat :: "fs \<Rightarrow> string \<Rightarrow> fnode result" where
  "fs_lstat f s = bind_result (resolve f False s)
     (\<lambda>p. case fs_get f p of None \<Rightarrow> Inl enoent | Some n \<Rightarrow> Inr n)"

definition is_dir :: "fnode \<Rightarrow> bool" where
  "is_dir n = (case n of Dir _ \<Rightarrow> True | _ \<Rightarrow> False)"

text \<open>A new node can be created at a resolved path whose parent is a directory.\<close>

definition parent_ok :: "fs \<Rightarrow> fpath \<Rightarrow> bool" where
  "parent_ok f p = (p \<noteq> [] \<and> (case fs_get f (butlast p) of Some n \<Rightarrow> is_dir n | None \<Rightarrow> False))"

section \<open>Operations\<close>

text \<open>
  A node that is created has the mode that was asked for: the umask of the process is taken to be
  empty, and modes do not restrict what is done with a node.
\<close>

definition fs_mkdir :: "fs \<Rightarrow> string \<Rightarrow> nat \<Rightarrow> fs \<times> goerr option" where
  "fs_mkdir f s perm =
     (case resolve f False s of
        Inl e \<Rightarrow> (f, Some e)
      | Inr p \<Rightarrow>
          if fs_get f p \<noteq> None then (f, Some eexist)
          else if \<not> parent_ok f p then (f, Some enoent)
          else (fs_set f p (Dir perm), None))"

text \<open>
  \<^verbatim>\<open>os.MkdirAll\<close>: nothing to do for a directory, otherwise the parent and then the directory.
  Its recursion goes up the elements of the path; \<open>k\<close>, their number, bounds it.
\<close>

definition parent_string :: "string \<Rightarrow> string" where
  "parent_string s =
     (let slash = (\<lambda>c. c = CHR ''/'') in trim_right slash (trim_right (\<lambda>c. \<not> slash c) (trim_right slash s)))"

fun mkdir_all_from :: "nat \<Rightarrow> fs \<Rightarrow> string \<Rightarrow> nat \<Rightarrow> fs \<times> goerr option" where
  "mkdir_all_from k f s perm =
     (case fs_stat f s of
        Inr n \<Rightarrow> if is_dir n then (f, None) else (f, Some enotdir)
      | Inl _ \<Rightarrow>
          (case (case k of 0 \<Rightarrow> (f, None)
                 | Suc k' \<Rightarrow> if parent_string s = [] then (f, None) else mkdir_all_from k' f (parent_string s) perm) of
             (g, Some e) \<Rightarrow> (g, Some e)
           | (g, None) \<Rightarrow>
               (case fs_mkdir g s perm of
                  (h, None) \<Rightarrow> (h, None)
                | (h, Some e) \<Rightarrow>
                    (case fs_lstat h s of Inr n \<Rightarrow> if is_dir n then (h, None) else (h, Some e) | Inl _ \<Rightarrow> (h, Some e)))))"

definition mkdir_all :: "fs \<Rightarrow> string \<Rightarrow> nat \<Rightarrow> fs \<times> goerr option" where
  "mkdir_all f s perm = mkdir_all_from (length s) f s perm"

text \<open>\<^verbatim>\<open>os.OpenFile\<close> with \<^verbatim>\<open>O_CREATE|O_WRONLY|O_TRUNC\<close>: the path of the open file.\<close>

definition open_create :: "fs \<Rightarrow> string \<Rightarrow> nat \<Rightarrow> fs \<times> fpath result" where
  "open_create f s mode =
     (case resolve f True s of
        Inl e \<Rightarrow> (f, Inl e)
      | Inr p \<Rightarrow>
          (case fs_get f p of
             Some (Regular m d) \<Rightarrow> (fs_set f p (Regular m []), Inr p)
           | Some _ \<Rightarrow> (f, Inl eisdir)
           | None \<Rightarrow> if \<not> parent_ok f p then (f, Inl enoent)
                     else (fs_set f p (Regular mode []), Inr p)))"

text \<open>What has been written to an open file.\<close>

definition fs_write :: "fs \<Rightarrow> fpath \<Rightarrow> string \<Rightarrow> fs" where
  "fs_write f p data =
     (case fs_get f p of Some (Regular m d) \<Rightarrow> fs_set f p (Regular m (d @ data)) | _ \<Rightarrow> f)"

definition fs_read :: "fs \<Rightarrow> string \<Rightarrow> string result" where
  "fs_read f s = bind_result (fs_stat f s)
     (\<lambda>n. case n of Regular m d \<Rightarrow> Inr d | _ \<Rightarrow> Inl eisdir)"

definition fs_children :: "fs \<Rightarrow> fpath \<Rightarrow> string list" where
  "fs_children f p = map last (filter (\<lambda>q. q \<noteq> [] \<and> butlast q = p) (map fst (fs_nodes f)))"

fun insert_str :: "string \<Rightarrow> string list \<Rightarrow> string list" where
  "insert_str x [] = [x]"
| "insert_str x (y # ys) = (if lexordp_eq (map byte x) (map byte y) then x # y # ys else y # insert_str x ys)"

definition sort_str :: "string list \<Rightarrow> string list" where
  "sort_str xs = foldr insert_str xs []"

text \<open>\<^verbatim>\<open>os.ReadDir\<close>: the names in a directory, sorted.\<close>

definition read_dir :: "fs \<Rightarrow> string \<Rightarrow> string list result" where
  "read_dir f s = bind_result (resolve f True s)
     (\<lambda>p. case fs_get f p of
        Some (Dir _) \<Rightarrow> Inr (sort_str (fs_children f p)) | Some _ \<Rightarrow> Inl enotdir | None \<Rightarrow> Inl enoent)"

definition fs_remove :: "fs \<Rightarrow> string \<Rightarrow> fs \<times> goerr option" where
  "fs_remove f s =
     (case resolve f False s of
        Inl e \<Rightarrow> (f, Some e)
      | Inr p \<Rightarrow>
          (case fs_get f p of
             None \<Rightarrow> (f, Some enoent)
           | Some (Dir _) \<Rightarrow> if p = [] \<or> fs_children f p \<noteq> [] then (f, Some enotempty) else (fs_del f p, None)
           | Some _ \<Rightarrow> (fs_del f p, None)))"

definition fs_remove_all :: "fs \<Rightarrow> string \<Rightarrow> fs \<times> goerr option" where
  "fs_remove_all f s =
     (case resolve f False s of
        Inl e \<Rightarrow> (f, if errors_is e ErrNotExist then None else Some e)
      | Inr p \<Rightarrow>
          if p = [] then (f, Some einval)
          else (f\<lparr>fs_nodes := filter (\<lambda>(q, _). \<not> prefix p q) (fs_nodes f)\<rparr>, None))"

definition fs_symlink :: "fs \<Rightarrow> string \<Rightarrow> string \<Rightarrow> fs \<times> goerr option" where
  "fs_symlink f target s =
     (case resolve f False s of
        Inl e \<Rightarrow> (f, Some e)
      | Inr p \<Rightarrow>
          if fs_get f p \<noteq> None then (f, Some eexist)
          else if \<not> parent_ok f p then (f, Some enoent)
          else (fs_set f p (Link target), None))"

definition fs_readlink :: "fs \<Rightarrow> string \<Rightarrow> string result" where
  "fs_readlink f s = bind_result (fs_lstat f s) (\<lambda>n. case n of Link t \<Rightarrow> Inr t | _ \<Rightarrow> Inl einval)"

text \<open>
  \<^verbatim>\<open>os.Rename\<close>: an existing directory is never replaced, another node is replaced by one that
  is not a directory; \<open>cross\<close> says the two paths are on different file systems, which rename
  cannot handle.
\<close>

definition fs_move :: "fs \<Rightarrow> fpath \<Rightarrow> fpath \<Rightarrow> fs" where
  "fs_move f p q =
     f\<lparr>fs_nodes := map (\<lambda>(r, n). (if prefix p r then q @ drop (length p) r else r, n))
        (filter (\<lambda>(r, _). r \<noteq> q) (fs_nodes f))\<rparr>"

definition fs_rename :: "fs \<Rightarrow> bool \<Rightarrow> string \<Rightarrow> string \<Rightarrow> fs \<times> goerr option" where
  "fs_rename f cross src dst =
     (case (resolve f False src, resolve f False dst) of
        (Inr p, Inr q) \<Rightarrow>
          (case fs_get f p of
             None \<Rightarrow> (f, Some enoent)
           | Some n \<Rightarrow>
               if p = q then (f, None)
               else if case fs_get f q of Some (Dir _) \<Rightarrow> True | _ \<Rightarrow> False then (f, Some eexist)
               else if cross then (f, Some (errors_new ''invalid cross-device link''))
               else if p = [] \<or> prefix p q then (f, Some einval)
               else if is_dir n \<and> fs_get f q \<noteq> None then (f, Some enotdir)
               else if \<not> parent_ok f q then (f, Some enoent)
               else (fs_move f p q, None))
      | (Inl e, _) \<Rightarrow> (f, Some e)
      | (_, Inl e) \<Rightarrow> (f, Some e))"

section \<open>Facts\<close>

lemma fs_get_set: "p \<noteq> [] \<Longrightarrow> fs_get (fs_set f p n) q = (if q = p then Some n else fs_get f q)"
  by (simp add: fs_get_def fs_set_def)

lemma fs_get_del: "p \<noteq> [] \<Longrightarrow> fs_get (fs_del f p) q = (if q = p then None else fs_get f q)"
  by (simp add: fs_get_def fs_del_def)

lemma fs_cwd_set [simp]: "fs_cwd (fs_set f p n) = fs_cwd f"
  by (simp add: fs_set_def)

lemma parent_ok_not_root: "parent_ok f p \<Longrightarrow> p \<noteq> []"
  by (simp add: parent_ok_def)

section \<open>Changes stay under a root\<close>

text \<open>The absolute path with the given elements.\<close>

abbreviation abs_path :: "string list \<Rightarrow> string" where
  "abs_path cs \<equiv> unsplit True cs"

definition plain_comps :: "string list \<Rightarrow> bool" where
  "plain_comps cs \<longleftrightarrow> (\<forall>c\<in>set cs. proper_comp c \<and> c \<noteq> ''..'')"

text \<open>
  Every symbolic link at, above or below a path is one of \<open>L\<close>; and a path that goes through none
  of those.
\<close>

definition links_only :: "fpath set \<Rightarrow> fpath \<Rightarrow> fs \<Rightarrow> bool" where
  "links_only L root f \<longleftrightarrow>
     (\<forall>p t. fs_get f p = Some (Link t) \<longrightarrow> p \<in> L \<or> (\<not> prefix p root \<and> \<not> prefix root p))"

abbreviation link_free :: "fpath \<Rightarrow> fs \<Rightarrow> bool" where
  "link_free \<equiv> links_only {}"

definition avoids :: "fpath set \<Rightarrow> fpath \<Rightarrow> bool" where
  "avoids L cs \<longleftrightarrow> (\<forall>q\<in>L. \<not> prefix q cs)"

lemma avoids_empty [simp]: "avoids {} cs"
  by (simp add: avoids_def)

lemma avoids_prefix: "avoids L cs \<Longrightarrow> prefix ds cs \<Longrightarrow> avoids L ds"
  using prefix_order.trans unfolding avoids_def by blast

text \<open>
  Outside \<open>root\<close> nothing changed, except that missing directories above it may have been
  created.
\<close>

definition confined :: "fpath \<Rightarrow> fs \<Rightarrow> fs \<Rightarrow> bool" where
  "confined root f g \<longleftrightarrow>
     fs_cwd g = fs_cwd f \<and>
     (\<forall>p. \<not> prefix root p \<longrightarrow>
        fs_get g p = fs_get f p \<or> (fs_get f p = None \<and> strict_prefix p root \<and> (\<exists>m. fs_get g p = Some (Dir m))))"

lemma confined_refl [simp]: "confined root f f"
  by (simp add: confined_def)

lemma confined_trans: "confined root f g \<Longrightarrow> confined root g h \<Longrightarrow> confined root f h"
  unfolding confined_def by (metis option.distinct(1))

lemma links_only_set: "links_only L root f \<Longrightarrow> (\<And>t. n \<noteq> Link t) \<Longrightarrow> links_only L root (fs_set f p n)"
  by (cases "p = []") (auto simp: links_only_def fs_get_set, auto simp: fs_get_def fs_set_def split: if_splits)

lemma confined_set:
  "p \<noteq> [] \<Longrightarrow> prefix root p \<Longrightarrow> confined root f (fs_set f p n)"
  by (auto simp: confined_def fs_get_set)

lemma confined_set_above:
  "p \<noteq> [] \<Longrightarrow> strict_prefix p root \<Longrightarrow> fs_get f p = None \<Longrightarrow> confined root f (fs_set f p (Dir m))"
  by (auto simp: confined_def fs_get_set)

lemma raw_comps_abs:
  assumes "plain_comps cs"
  shows "raw_comps (abs_path cs) = cs"
proof (cases "cs = []")
  case True
  then show ?thesis by (simp add: raw_comps_def unsplit_def)
next
  case False
  have "split_chr CHR ''/'' (join_str ''/'' cs) = cs"
    using assms False by (intro split_join) (auto simp: plain_comps_def proper_comp_def)
  moreover have "filter (\<lambda>c. c \<noteq> [] \<and> c \<noteq> ''.'') cs = cs"
    using assms by (simp add: plain_comps_def proper_comp_def filter_id_conv)
  ultimately show ?thesis by (simp add: raw_comps_def unsplit_def)
qed

text \<open>Without links a path means what it says.\<close>

lemma walk_plain:
  "walk f fl n cur cs = Inr p \<Longrightarrow> ''..'' \<notin> set cs \<Longrightarrow>
   (\<And>q t. prefix q cs \<Longrightarrow> fs_get f (cur @ q) \<noteq> Some (Link t)) \<Longrightarrow> p = cur @ cs"
proof (induction f fl n cur cs rule: walk.induct)
  case (2 f fl n cur c cs)
  have c: "c \<noteq> ''..''" and cs: "''..'' \<notin> set cs" using 2(5) by auto
  have nl: "fs_get f (cur @ [c]) \<noteq> Some (Link t)" for t using 2(6) [of "[c]"] by simp
  have below: "fs_get f ((cur @ [c]) @ q) \<noteq> Some (Link t)" if "prefix q cs" for q t
    using 2(6) [of "c # q" t] that by simp
  show ?case
  proof (cases "fs_get f (cur @ [c])")
    case None
    then show ?thesis using 2(4) c by (simp split: if_splits)
  next
    case (Some x)
    then show ?thesis
    proof (cases x)
      case (Dir m)
      have "walk f fl n (cur @ [c]) cs = Inr p" using 2(4) c Some Dir by simp
      then have "p = (cur @ [c]) @ cs" by (rule 2(2) [OF c Some Dir _ cs below])
      then show ?thesis by simp
    next
      case (Regular m d)
      then show ?thesis using 2(4) c Some by (simp split: if_splits)
    next
      case (Link t)
      then show ?thesis using nl [of t] Some by simp
    qed
  qed
qed simp

lemma walk_plain_dirs:
  "walk f fl n cur cs = Inr p \<Longrightarrow> ''..'' \<notin> set cs \<Longrightarrow>
   (\<And>q t. prefix q cs \<Longrightarrow> fs_get f (cur @ q) \<noteq> Some (Link t)) \<Longrightarrow>
   strict_prefix q cs \<Longrightarrow> q \<noteq> [] \<Longrightarrow> \<exists>m. fs_get f (cur @ q) = Some (Dir m)"
proof (induction f fl n cur cs arbitrary: q rule: walk.induct)
  case (2 f fl n cur c cs)
  have c: "c \<noteq> ''..''" and cs: "''..'' \<notin> set cs" using 2(5) by auto
  have nl: "fs_get f (cur @ [c]) \<noteq> Some (Link t)" for t using 2(6) [of "[c]"] by simp
  have below: "fs_get f ((cur @ [c]) @ q) \<noteq> Some (Link t)" if "prefix q cs" for q t
    using 2(6) [of "c # q" t] that by simp
  obtain q' where q: "q = c # q'" "strict_prefix q' cs"
    using 2(7,8) by (cases q) (auto simp: strict_prefix_def)
  then have ne: "cs \<noteq> []" by auto
  obtain m where m: "fs_get f (cur @ [c]) = Some (Dir m)"
  proof (cases "fs_get f (cur @ [c])")
    case None
    then show ?thesis using 2(4) c ne by simp
  next
    case (Some x)
    then show ?thesis using 2(4) c ne nl that by (cases x) auto
  qed
  have w: "walk f fl n (cur @ [c]) cs = Inr p" using 2(4) c m by simp
  show ?case
  proof (cases "q' = []")
    case True
    then show ?thesis using m q by simp
  next
    case False
    then have "\<exists>m. fs_get f ((cur @ [c]) @ q') = Some (Dir m)"
      by (intro 2(2) [OF c m _ w cs below q(2)]) auto
    then show ?thesis using q by simp
  qed
qed simp

lemma resolve_plain:
  assumes "plain_comps cs" and "links_only L root f" and "prefix root cs \<or> prefix cs root"
    and "resolve f fl (abs_path cs) = Inr p" and "avoids L cs"
  shows "p = cs"
proof -
  have w: "walk f fl symloop_max [] cs = Inr p"
    using assms(4) raw_comps_abs [OF assms(1)]
    by (simp add: resolve_def is_abs_def unsplit_def split: if_splits)
  have "fs_get f ([] @ q) \<noteq> Some (Link t)" if "prefix q cs" for q t
    using assms(2,3) that prefix_same_cases [of root cs q] prefix_order.trans [of q cs root] avoids_prefix [OF assms(5) that]
    by (auto simp: links_only_def avoids_def)
  moreover have "''..'' \<notin> set cs" using assms(1) by (auto simp: plain_comps_def)
  ultimately show ?thesis using walk_plain [OF w] by simp
qed

lemma resolve_needs_parent:
  assumes "plain_comps (root @ [c])" and "link_free root f" and "fs_get f root = None"
  shows "\<exists>e. resolve f fl (abs_path (root @ [c])) = Inl e"
proof (rule ccontr)
  assume "\<nexists>e. resolve f fl (abs_path (root @ [c])) = Inl e"
  then obtain p where "resolve f fl (abs_path (root @ [c])) = Inr p"
    by (cases "resolve f fl (abs_path (root @ [c]))") auto
  then have w: "walk f fl symloop_max [] (root @ [c]) = Inr p"
    using raw_comps_abs [OF assms(1)] by (simp add: resolve_def is_abs_def unsplit_def split: if_splits)
  have "fs_get f ([] @ q) \<noteq> Some (Link t)" if "prefix q (root @ [c])" for q t
    using assms(2) that by (auto simp: links_only_def prefix_snoc)
  moreover have "root \<noteq> []" using assms(3) by (auto simp: fs_get_def)
  moreover have "''..'' \<notin> set (root @ [c])" using assms(1) by (auto simp: plain_comps_def)
  ultimately show False using walk_plain_dirs [OF w, of root] assms(3) by (auto simp: strict_prefix_def)
qed

lemma mkdir_confined:
  assumes "plain_comps cs" and "links_only L root f" and "prefix root cs \<or> prefix cs root"
    and "fs_mkdir f (abs_path cs) m = (g, e)" and "avoids L cs"
  shows "confined root f g \<and> links_only L root g"
proof (cases "resolve f False (abs_path cs)")
  case (Inr p)
  have p: "p = cs" by (rule resolve_plain [OF assms(1-3) Inr assms(5)])
  show ?thesis
  proof (cases "fs_get f cs \<noteq> None \<or> \<not> parent_ok f cs")
    case True
    then have "g = f" using assms(4) Inr p by (auto simp: fs_mkdir_def split: if_splits)
    then show ?thesis using assms(2) by simp
  next
    case False
    then have g: "g = fs_set f cs (Dir m)" and ne: "cs \<noteq> []" and no: "fs_get f cs = None"
      using assms(4) Inr p parent_ok_not_root by (auto simp: fs_mkdir_def split: if_splits)
    have "prefix root cs \<or> strict_prefix cs root"
      using assms(3) by (auto simp: strict_prefix_def)
    then show ?thesis
      using confined_set [OF ne] confined_set_above [OF ne _ no] links_only_set [OF assms(2)] g by auto
  qed
qed (use assms in \<open>simp add: fs_mkdir_def\<close>)

lemma trim_right_snoc [simp]: "trim_right P (s @ [c]) = (if P c then trim_right P s else s @ [c])"
  by (simp add: trim_right_def)

lemma trim_right_append: "\<forall>c\<in>set t. P c \<Longrightarrow> trim_right P (s @ t) = trim_right P s"
  by (induction t rule: rev_induct) (auto simp: append_assoc [symmetric] simp del: append_assoc)

lemma trim_right_id: "s \<noteq> [] \<Longrightarrow> \<not> P (last s) \<Longrightarrow> trim_right P s = s"
  by (cases s rule: rev_cases) auto

lemma abs_path_snoc: "abs_path (cs @ [c]) = (if cs = [] then [] else abs_path cs) @ ''/'' @ c"
  by (simp add: unsplit_def join_str_append)

lemma plain_comp_last: "plain_comps (cs @ [c]) \<Longrightarrow> c \<noteq> [] \<and> CHR ''/'' \<notin> set c \<and> plain_comps cs"
  by (auto simp: plain_comps_def proper_comp_def)

lemma last_abs_path: "plain_comps cs \<Longrightarrow> cs \<noteq> [] \<Longrightarrow> abs_path cs \<noteq> [] \<and> last (abs_path cs) \<noteq> CHR ''/''"
  using plain_comp_last [of "butlast cs" "last cs"] abs_path_snoc [of "butlast cs" "last cs"]
  by (auto dest: last_in_set)

lemma parent_string_abs:
  assumes "plain_comps (cs @ [c])"
  shows "parent_string (abs_path (cs @ [c])) = (if cs = [] then [] else abs_path cs)"
proof -
  have c: "c \<noteq> []" "CHR ''/'' \<notin> set c" "plain_comps cs" using plain_comp_last [OF assms] by auto
  have 1: "trim_right (\<lambda>x. x = CHR ''/'') (abs_path (cs @ [c])) = abs_path (cs @ [c])"
    using last_abs_path [OF assms] by (simp add: trim_right_id)
  let ?p = "if cs = [] then [] else abs_path cs"
  have "trim_right (\<lambda>x. x \<noteq> CHR ''/'') ((?p @ ''/'') @ c) = ?p @ ''/''"
    using c(2) by (subst trim_right_append) auto
  then have 2: "trim_right (\<lambda>x. x \<noteq> CHR ''/'') (abs_path (cs @ [c])) = ?p @ ''/''"
    by (simp add: abs_path_snoc)
  have "trim_right (\<lambda>x. x = CHR ''/'') (?p @ ''/'') = ?p"
    using last_abs_path [OF c(3)] by (simp add: trim_right_id) (simp add: trim_right_def)
  then show ?thesis unfolding parent_string_def Let_def 1 2 .
qed

lemma parent_string_root: "parent_string (abs_path []) = []"
  by (simp add: parent_string_def unsplit_def trim_right_def)

lemma mkdir_all_confined:
  assumes "plain_comps cs" and "links_only L root f" and "prefix root cs \<or> prefix cs root"
    and "mkdir_all_from k f (abs_path cs) m = (g, e)" and "avoids L cs"
  shows "confined root f g \<and> links_only L root g"
  using assms
proof (induction k arbitrary: cs g e)
  case (Suc k)
  obtain h e1 where h: "(if parent_string (abs_path cs) = [] then (f, None)
      else mkdir_all_from k f (parent_string (abs_path cs)) m) = (h, e1)" by fastforce
  have up: "confined root f h \<and> links_only L root h"
  proof (cases "parent_string (abs_path cs) = []")
    case True
    then show ?thesis using h Suc.prems(2) by simp
  next
    case False
    then obtain ds c where cs: "cs = ds @ [c]" by (cases cs rule: rev_cases) (auto simp: parent_string_root)
    then have ds: "ds \<noteq> []" "parent_string (abs_path cs) = abs_path ds"
      using False parent_string_abs Suc.prems(1) by (auto split: if_splits)
    have "prefix root ds \<or> prefix ds root"
      using Suc.prems(3) cs by (auto simp: prefix_snoc intro: append_prefixD)
    then show ?thesis
      using Suc.IH [of ds h e1] plain_comp_last Suc.prems(1,2) h ds False cs avoids_prefix [OF Suc.prems(5), of ds] by auto
  qed
  obtain h2 e2 where h2: "fs_mkdir h (abs_path cs) m = (h2, e2)" by fastforce
  have "confined root h h2 \<and> links_only L root h2"
    using mkdir_confined [OF Suc.prems(1) _ Suc.prems(3) h2 Suc.prems(5)] up by blast
  then have h2c: "confined root f h2 \<and> links_only L root h2" using up confined_trans by blast
  have "g \<in> {f, h, h2}"
    using Suc.prems(4) h h2 by (simp split: sum.splits option.splits if_splits prod.splits)
  then show ?case using up h2c Suc.prems(2) by auto
next
  case 0
  obtain h2 e2 where h2: "fs_mkdir f (abs_path cs) m = (h2, e2)" by fastforce
  have "g \<in> {f, h2}"
    using 0(4) h2 by (simp split: sum.splits option.splits if_splits prod.splits)
  then show ?case using mkdir_confined [OF 0(1,2,3) h2 0(5)] 0(2) by auto
qed

lemma open_create_confined:
  assumes "plain_comps cs" and "links_only L root f" and "prefix root cs"
    and "open_create f (abs_path cs) m = (g, r)" and "avoids L cs"
  shows "confined root f g \<and> links_only L root g \<and> (\<forall>p. r = Inr p \<longrightarrow> p = cs)"
proof (cases "resolve f True (abs_path cs)")
  case (Inr p)
  have p: "p = cs" by (rule resolve_plain [OF assms(1,2) disjI1 [OF assms(3)] Inr assms(5)])
  have put: "confined root f (fs_set f cs (Regular a b)) \<and> links_only L root (fs_set f cs (Regular a b))"
    if "cs \<noteq> []" for a b
    using confined_set [OF that assms(3)] links_only_set [OF assms(2), of "Regular a b"] by simp
  have "(g = f \<and> (\<exists>x. r = Inl x)) \<or> (\<exists>a b. cs \<noteq> [] \<and> g = fs_set f cs (Regular a b) \<and> r = Inr cs)"
  proof (cases "fs_get f cs")
    case None
    show ?thesis
    proof (cases "parent_ok f cs")
      case True
      then have "(g, r) = (fs_set f cs (Regular m []), Inr cs)"
        using assms(4) Inr p None by (simp add: open_create_def)
      then show ?thesis using parent_ok_not_root [OF True] by blast
    next
      case False
      then have "(g, r) = (f, Inl enoent)" using assms(4) Inr p None by (simp add: open_create_def)
      then show ?thesis by simp
    qed
  next
    case (Some x)
    then have ne: "cs \<noteq> []" if "x = Regular a b" for a b using that by (auto simp: fs_get_def)
    have "(g, r) = (case x of Regular a b \<Rightarrow> (fs_set f cs (Regular a []), Inr cs) | _ \<Rightarrow> (f, Inl eisdir))"
      using assms(4) Inr p Some by (cases x) (simp_all add: open_create_def)
    then show ?thesis using ne by (cases x) auto
  qed
  then show ?thesis using put assms(2) p by auto
qed (use assms in \<open>auto simp: open_create_def\<close>)

lemma write_confined:
  assumes "prefix root p" and "links_only L root f"
  shows "confined root f (fs_write f p d) \<and> links_only L root (fs_write f p d)"
proof (cases "fs_get f p")
  case (Some n)
  then show ?thesis
  proof (cases n)
    case (Regular m b)
    then have "p \<noteq> []" using Some by (auto simp: fs_get_def)
    then show ?thesis using Some Regular assms confined_set links_only_set by (simp add: fs_write_def)
  qed (use Some assms in \<open>simp_all add: fs_write_def\<close>)
qed (use assms in \<open>simp add: fs_write_def\<close>)

section \<open>Writing at a joined path\<close>

lemma plain_normal: "plain_comps cs \<Longrightarrow> normal_comps True cs"
  by (auto simp: plain_comps_def normal_comps_def)

lemma path_comps_abs: "plain_comps cs \<Longrightarrow> path_comps (abs_path cs) = cs"
  by (rule path_comps_unsplit [OF plain_normal])

lemma is_abs_abs_path [simp]: "is_abs (abs_path cs)"
  by (simp add: is_abs_def unsplit_def)

lemma abs_path_not_Nil [simp]: "abs_path cs \<noteq> []"
  by (simp add: unsplit_def)

lemma clean_abs: "is_abs p \<Longrightarrow> path_clean p = abs_path (path_comps p) \<and> plain_comps (path_comps p)"
  using path_comps_normal [of p] by (auto simp: path_clean_def plain_comps_def normal_comps_def)

lemma plain_comps_append [simp]: "plain_comps (a @ b) \<longleftrightarrow> plain_comps a \<and> plain_comps b"
  by (auto simp: plain_comps_def)

lemma clean_abs_path: "plain_comps cs \<Longrightarrow> path_clean (abs_path cs) = abs_path cs"
  by (simp add: clean_abs path_comps_abs)

lemma join_abs:
  assumes "contained (abs_path root) (path_join [abs_path root, rel])" and "plain_comps root"
  obtains q where "path_join [abs_path root, rel] = abs_path (root @ q)" "plain_comps (root @ q)"
proof -
  let ?j = "path_join [abs_path root, rel]"
  have a: "is_abs ?j" using assms(1) by (simp add: contained_def)
  have "?j = path_clean ?j" by (simp add: path_join_two)
  moreover obtain q where "path_comps ?j = root @ q"
    using assms by (auto simp: contained_def path_comps_abs)
  ultimately show ?thesis using clean_abs [OF a] that by metis
qed

lemma safe_join_abs:
  assumes "safe_join (abs_path root) rel = Inr t" and "plain_comps root"
  obtains q where "t = abs_path (root @ q)" "plain_comps (root @ q)"
proof -
  have "anchored (abs_path root)"
    using assms(2) last_in_set [of root] by (auto simp: anchored_def path_comps_abs plain_comps_def)
  then have "contained (abs_path root) t" by (rule safe_join_contained [OF _ assms(1)])
  with safepath.join_value [OF assms(1)] show ?thesis using join_abs assms(2) that by blast
qed

lemma last_index_chr_new: "c \<notin> set b \<Longrightarrow> last_index_chr (a @ c # b) c = Some (length a)"
proof (induction a)
  case Nil
  have "last_index_chr b c = None" using Nil by (induction b) auto
  then show ?case by simp
qed simp

lemma path_dir_abs:
  assumes "plain_comps cs"
  shows "path_dir (abs_path cs) = abs_path (butlast cs)"
proof (cases cs rule: rev_cases)
  case Nil
  have "path_dir ''/'' = ''/''" by code_simp
  then show ?thesis using Nil by (simp add: unsplit_def)
next
  case (snoc ds c)
  let ?p = "if ds = [] then [] else abs_path ds"
  have c: "CHR ''/'' \<notin> set c" "plain_comps ds" using plain_comp_last assms snoc by auto
  have "path_dir (abs_path cs) = path_clean (?p @ ''/'')"
    using last_index_chr_new [OF c(1), of ?p] by (simp add: snoc abs_path_snoc path_dir_def)
  also have "\<dots> = abs_path ds"
  proof (cases "ds = []")
    case True
    have "path_clean ''/'' = ''/''" by code_simp
    then show ?thesis using True by (simp add: unsplit_def)
  next
    case False
    have "path_comps (abs_path ds @ ''/'') = ds"
      using path_comps_append [of "abs_path ds" "[]"] path_comps_abs [OF c(2)]
      by (simp add: clean_comps_def clean_step_def)
    then show ?thesis using False clean_abs [of "abs_path ds @ ''/''"] by (simp add: is_abs_append)
  qed
  finally show ?thesis using snoc by simp
qed

text \<open>Creating a path and everything above it, as the extractors do.\<close>

lemma mkdir_at:
  assumes "plain_comps cs" and "prefix root cs" and "links_only L root f"
    and "mkdir_all f (abs_path cs) m = (g, e)" and "avoids L cs"
  shows "confined root f g \<and> links_only L root g"
  using assms mkdir_all_confined [of cs L root f] by (simp add: mkdir_all_def)

lemma mkdir_above:
  assumes "plain_comps cs" and "prefix root cs" and "links_only L root f"
    and "mkdir_all f (path_dir (abs_path cs)) m = (g, e)" and "avoids L (butlast cs)"
  shows "confined root f g \<and> links_only L root g"
proof (rule mkdir_all_confined [OF _ assms(3)])
  show "plain_comps (butlast cs)" using assms(1) by (auto simp: plain_comps_def dest: in_set_butlastD)
  show "prefix root (butlast cs) \<or> prefix (butlast cs) root"
    using assms(2) by (cases cs rule: rev_cases) (auto simp: prefix_snoc)
  show "mkdir_all_from (length (path_dir (abs_path cs))) f (abs_path (butlast cs)) m = (g, e)"
    using assms(4) path_dir_abs [OF assms(1)] by (simp add: mkdir_all_def)
qed (rule assms(5))

section \<open>Links\<close>

text \<open>An operation that does not follow its last element only needs the way to it to be plain.\<close>

lemma walk_nofollow:
  "walk f False n cur cs = Inr p \<Longrightarrow> ''..'' \<notin> set cs \<Longrightarrow>
   (\<And>q t. strict_prefix q cs \<Longrightarrow> q \<noteq> [] \<Longrightarrow> fs_get f (cur @ q) \<noteq> Some (Link t)) \<Longrightarrow> p = cur @ cs"
proof (induction f False n cur cs rule: walk.induct)
  case (2 f n cur c cs)
  have c: "c \<noteq> ''..''" and cs: "''..'' \<notin> set cs" using 2(5) by auto
  have nl: "fs_get f (cur @ [c]) \<noteq> Some (Link t)" if "cs \<noteq> []" for t
    using 2(6) [of "[c]"] that by (simp add: strict_prefix_def)
  have below: "fs_get f ((cur @ [c]) @ q) \<noteq> Some (Link t)" if "strict_prefix q cs" "q \<noteq> []" for q t
    using 2(6) [of "c # q" t] that by (simp add: strict_prefix_def)
  show ?case
  proof (cases "cs = [] \<and> (\<nexists>m. fs_get f (cur @ [c]) = Some (Dir m))")
    case True
    then show ?thesis using 2(4) c by (auto split: option.splits fnode.splits)
  next
    case False
    then obtain m where m: "fs_get f (cur @ [c]) = Some (Dir m)"
      using 2(4) c nl by (auto split: option.splits fnode.splits if_splits)
    have "walk f False n (cur @ [c]) cs = Inr p" using 2(4) c m by simp
    then have "p = (cur @ [c]) @ cs" by (rule 2(2) [OF c m refl _ cs below])
    then show ?thesis by simp
  qed
qed simp

lemma resolve_nofollow:
  assumes "plain_comps cs" and "links_only L root f" and "prefix root cs"
    and "resolve f False (abs_path cs) = Inr p" and "avoids L (butlast cs)"
  shows "p = cs"
proof -
  have w: "walk f False symloop_max [] cs = Inr p"
    using assms(4) raw_comps_abs [OF assms(1)]
    by (simp add: resolve_def is_abs_def unsplit_def split: if_splits)
  have "fs_get f ([] @ q) \<noteq> Some (Link t)" if q: "strict_prefix q cs" for q t
  proof -
    have "prefix q (butlast cs)" using q by (cases cs rule: rev_cases) (auto simp: strict_prefix_def prefix_snoc)
    then have "q \<notin> L" using assms(5) by (auto simp: avoids_def)
    moreover have "prefix q root \<or> prefix root q"
      using q assms(3) prefix_same_cases [of root cs q] by (auto simp: strict_prefix_def)
    ultimately show ?thesis using assms(2) by (auto simp: links_only_def)
  qed
  moreover have "''..'' \<notin> set cs" using assms(1) by (auto simp: plain_comps_def)
  ultimately show ?thesis using walk_nofollow [OF w] by simp
qed

lemma links_only_del: "links_only L root f \<Longrightarrow> links_only L root (fs_del f p)"
  by (cases "p = []") (auto simp: links_only_def fs_get_del, auto simp: fs_get_def fs_del_def split: if_splits)

lemma links_only_link: "links_only L root f \<Longrightarrow> p \<in> L \<Longrightarrow> links_only L root (fs_set f p (Link t))"
  by (cases "p = []") (auto simp: links_only_def fs_get_set, auto simp: fs_get_def fs_set_def split: if_splits)

lemma remove_confined:
  assumes "plain_comps cs" and "links_only L root f" and "prefix root cs"
    and "fs_remove f (abs_path cs) = (g, e)" and "avoids L (butlast cs)"
  shows "confined root f g \<and> links_only L root g"
proof (cases "resolve f False (abs_path cs)")
  case (Inr p)
  have p: "p = cs" by (rule resolve_nofollow [OF assms(1-3) Inr assms(5)])
  have "g = f \<or> (cs \<noteq> [] \<and> g = fs_del f cs)"
  proof (cases "cs = []")
    case True
    then have "fs_get f cs = Some (Dir 493)" by (simp add: fs_get_def)
    then show ?thesis using assms(4) Inr p True by (simp add: fs_remove_def)
  next
    case False
    then show ?thesis using assms(4) Inr p
      by (auto simp: fs_remove_def split: option.splits fnode.splits if_splits)
  qed
  moreover have "confined root f (fs_del f cs)" if "cs \<noteq> []"
    using assms(3) that by (auto simp: confined_def fs_get_del) (simp add: fs_del_def)
  ultimately show ?thesis using assms(2) links_only_del by auto
qed (use assms in \<open>simp add: fs_remove_def\<close>)

lemma symlink_confined:
  assumes "plain_comps cs" and "links_only L root f" and "prefix root cs"
    and "fs_symlink f t (abs_path cs) = (g, e)" and "avoids L (butlast cs)" and "cs \<in> L"
  shows "confined root f g \<and> links_only L root g"
proof (cases "resolve f False (abs_path cs)")
  case (Inr p)
  have p: "p = cs" by (rule resolve_nofollow [OF assms(1-3) Inr assms(5)])
  have "g = f \<or> (cs \<noteq> [] \<and> g = fs_set f cs (Link t))"
    using assms(4) Inr p parent_ok_not_root by (auto simp: fs_symlink_def split: if_splits)
  then show ?thesis using assms(2,3,6) confined_set links_only_link by auto
qed (use assms in \<open>simp add: fs_symlink_def\<close>)

section \<open>Relative paths\<close>

text \<open>Relative paths as lists of elements.\<close>

abbreviation rel_path :: "string list \<Rightarrow> string" where
  "rel_path cs \<equiv> join_str ''/'' cs"

lemma plain_normal_rel: "plain_comps cs \<Longrightarrow> normal_comps False cs"
  unfolding plain_comps_def normal_comps_def
  by (intro conjI exI [of _ 0] exI [of _ cs]) auto

lemma rel_path_not_Nil: "plain_comps cs \<Longrightarrow> cs \<noteq> [] \<Longrightarrow> rel_path cs \<noteq> []"
  by (cases cs; cases "tl cs") (auto simp: plain_comps_def proper_comp_def)

lemma clean_rel: "plain_comps cs \<Longrightarrow> cs \<noteq> [] \<Longrightarrow> path_clean (rel_path cs) = rel_path cs"
  using path_comps_unsplit [OF plain_normal_rel, of cs] is_abs_unsplit [OF plain_normal_rel, of cs]
  by (simp add: path_clean_def unsplit_def)

lemma join_rel:
  assumes "plain_comps ds" and "plain_comps q" and "q \<noteq> []"
  shows "path_join [rel_path ds, rel_path q] = rel_path (ds @ q)"
proof -
  have q: "rel_path q \<noteq> []" using assms(2,3) by (rule rel_path_not_Nil)
  show ?thesis
  proof (cases "ds = []")
    case True
    then show ?thesis using q clean_rel [OF assms(2,3)] by (simp add: path_join_def)
  next
    case False
    then have "rel_path ds \<noteq> []"
      using assms(1) rel_path_not_Nil by blast
    then have "path_join [rel_path ds, rel_path q] = path_clean (rel_path (ds @ q))"
      using False assms(3) by (simp add: path_join_two join_str_append)
    then show ?thesis using clean_rel [of "ds @ q"] assms by simp
  qed
qed

lemma rel_path_split: "plain_comps cs \<Longrightarrow> cs \<noteq> [] \<Longrightarrow> split_chr CHR ''/'' (rel_path cs) = cs"
  by (rule split_join) (auto simp: plain_comps_def proper_comp_def)

lemma rel_path_inj:
  assumes "plain_comps cs" and "plain_comps ds" and "rel_path cs = rel_path ds"
  shows "cs = ds"
proof (cases "cs = [] \<or> ds = []")
  case True
  then show ?thesis using assms rel_path_not_Nil by (metis join_str.simps(1))
next
  case False
  then show ?thesis using assms rel_path_split by metis
qed

lemma plain_comps_take: "plain_comps cs \<Longrightarrow> plain_comps (take i cs)"
  by (auto simp: plain_comps_def dest: in_set_takeD)

lemma join_abs_rel:
  assumes "plain_comps root" and "plain_comps q"
  shows "path_join [abs_path root, rel_path q] = abs_path (root @ q)"
proof -
  let ?j = "path_join [abs_path root, rel_path q]"
  have "path_comps ?j = root @ q"
  proof (cases "q = []")
    case True
    then show ?thesis
      using path_comps_abs [OF assms(1)] by (simp add: path_comps_join clean_comps_def clean_step_def)
  next
    case False
    have "''..'' \<notin> set q" "\<forall>c\<in>set q. proper_comp c" using assms(2) by (auto simp: plain_comps_def)
    then show ?thesis
      using path_comps_abs [OF assms(1)] rel_path_split [OF assms(2) False] clean_comps_rest [of q True root]
      by (simp add: path_comps_join)
  qed
  moreover have "is_abs ?j" by (simp add: is_abs_join)
  moreover have "path_clean ?j = ?j" by (simp add: path_join_two)
  ultimately show ?thesis using clean_abs [of ?j] by simp
qed

text \<open>What making one directory keeps, making all of them keeps.\<close>

lemma mkdir_all_from_preserves:
  assumes mk: "\<And>f s m. I f \<Longrightarrow> I (fst (fs_mkdir f s m))"
  shows "I f \<Longrightarrow> I (fst (mkdir_all_from k f s m))"
proof (induction k arbitrary: f s)
  case 0
  then show ?case using mk [OF 0, of s m]
    by (subst mkdir_all_from.simps) (auto split: sum.splits prod.splits option.splits)
next
  case (Suc k)
  have up: "I g" if "mkdir_all_from k f (parent_string s) m = (g, e)" for g e
    using Suc.IH [OF Suc.prems, of "parent_string s"] that by simp
  have mk2: "I h" if "fs_mkdir g s m = (h, e)" "I g" for g h e using mk [OF that(2), of s m] that(1) by simp
  show ?case using Suc.prems
    by (subst mkdir_all_from.simps)
      (auto simp del: mkdir_all_from.simps split: sum.splits prod.splits option.splits if_splits dest: up mk2)
qed

lemma mkdir_all_preserves:
  assumes "\<And>f s m. I f \<Longrightarrow> I (fst (fs_mkdir f s m))"
  shows "I f \<Longrightarrow> I (fst (mkdir_all f s m))"
  unfolding mkdir_all_def by (rule mkdir_all_from_preserves [of I, OF assms])

section \<open>Where a name from outside leads\<close>

text \<open>The cleaned path of a name below a root; \<open>safe_join\<close> accepts it if it lies in the root.\<close>

definition target_of :: "fpath \<Rightarrow> string \<Rightarrow> fpath" where
  "target_of root name = path_comps (path_join [abs_path root, name])"

lemma safe_join_target:
  assumes "safe_join (abs_path root) name = Inr t" and "plain_comps root"
  shows "t = abs_path (target_of root name) \<and> plain_comps (target_of root name) \<and> prefix root (target_of root name)"
proof -
  obtain q where q: "t = abs_path (root @ q)" "plain_comps (root @ q)" using safe_join_abs [OF assms] .
  have "target_of root name = root @ q"
    using safepath.join_value [OF assms(1)] q path_comps_abs [OF q(2)] by (simp add: target_of_def)
  then show ?thesis using q by simp
qed

lemma safe_join_inside:
  assumes "plain_comps root" and "root \<noteq> []" and "prefix root (target_of root name)"
  shows "safe_join (abs_path root) name = Inr (abs_path (target_of root name))"
proof -
  let ?j = "path_join [abs_path root, name]"
  have a: "is_abs ?j" by (simp add: is_abs_join)
  have c: "path_clean ?j = ?j" by (simp add: path_join_two)
  obtain q where q: "path_comps ?j = root @ q" using assms(3) by (auto simp: target_of_def prefix_def)
  have "''..'' \<notin> set q" using clean_abs [OF a] q by (auto simp: plain_comps_def)
  then have "contained (abs_path root) ?j"
    using a q by (auto simp: contained_def path_comps_abs [OF assms(1)])
  then have "safe_join (abs_path root) name = Inr ?j"
    using assms(2) by (intro safe_join_complete) (simp_all add: path_comps_abs [OF assms(1)])
  then show ?thesis using clean_abs [OF a] c by (simp add: target_of_def)
qed

lemma safe_join_outside:
  assumes "plain_comps root" and "\<not> prefix root (target_of root name)"
  shows "\<exists>e. safe_join (abs_path root) name = Inl e"
  using assms safe_join_target by (cases "safe_join (abs_path root) name") auto

lemma target_of_rel: "plain_comps root \<Longrightarrow> plain_comps q \<Longrightarrow> target_of root (rel_path q) = root @ q"
  by (simp add: target_of_def join_abs_rel path_comps_abs)

end
