(* ===== verification/Git_Refs.thy ===== *)
theory Git_Refs
  imports Git_Url Files
begin

text \<open>
  Which reference of a Git remote is cloned, and how (\<^verbatim>\<open>protocols/git/git.go\<close>): the spellings
  tried for a ref, commit hashes, depth and tag mode, and which errors are worth another try.
  go-git is a parameter: an operation on a remote takes and returns the state of the system,
  the files and everything else (\<open>'n\<close>, the network and the remotes).
\<close>

section \<open>State and data\<close>

record 'n sys =
  sys_fs :: fs
  sys_net :: 'n

datatype tag_mode = AllTags | NoTags

record clone_attempt =
  ca_ref :: string
  ca_single :: bool

text \<open>go-git's \<^verbatim>\<open>CloneOptions\<close>, as far as the code sets them; \<open>'c\<close> is a client option.\<close>

record 'c clone_opts =
  co_url :: string
  co_client :: "'c list"
  co_tags :: tag_mode
  co_depth :: int
  co_recurse :: int
  co_ref :: string
  co_single :: bool
  co_bare :: bool
  co_no_checkout :: bool
  co_filter :: string

text \<open>\<^verbatim>\<open>git.PlainCloneContext\<close> into a directory; \<open>'r\<close> is a repository.\<close>

type_synonym ('n, 'c, 'r) plain_clone = "'n sys \<Rightarrow> string \<Rightarrow> 'c clone_opts \<Rightarrow> 'n sys \<times> 'r result"

section \<open>Refs\<close>

definition looks_like_commit_hash :: "string \<Rightarrow> bool" where
  "looks_like_commit_hash ref =
     (if length ref < 7 \<or> 40 < length ref then False else list_all is_hex ref)"

definition branch_reference_name :: "string \<Rightarrow> string" where
  "branch_reference_name name = ''refs/heads/'' @ name"

definition tag_reference_name :: "string \<Rightarrow> string" where
  "tag_reference_name name = ''refs/tags/'' @ name"

definition qualified_ref_name :: "string \<Rightarrow> string option" where
  "qualified_ref_name ref =
     (if has_prefix ref ''refs/'' then Some ref
      else if has_prefix ref ''tags/'' then Some (tag_reference_name (trim_prefix ref ''tags/''))
      else if has_prefix ref ''heads/'' then Some (branch_reference_name (trim_prefix ref ''heads/''))
      else None)"

definition clone_attempts :: "git_dl \<Rightarrow> clone_attempt list" where
  "clone_attempts d =
     (if looks_like_commit_hash (gd_ref d) then [\<lparr>ca_ref = [], ca_single = False\<rparr>]
      else if gd_ref d = [] then [\<lparr>ca_ref = [], ca_single = True\<rparr>]
      else case qualified_ref_name (gd_ref d) of
        Some q \<Rightarrow> [\<lparr>ca_ref = q, ca_single = True\<rparr>]
      | None \<Rightarrow>
          [\<lparr>ca_ref = branch_reference_name (gd_ref d), ca_single = True\<rparr>,
           \<lparr>ca_ref = tag_reference_name (gd_ref d), ca_single = True\<rparr>] @
          (if contains_str (gd_ref d) ''/''
           then [\<lparr>ca_ref = ''refs/'' @ gd_ref d, ca_single = True\<rparr>] else []))"

definition tag_mode :: "git_dl \<Rightarrow> tag_mode" where
  "tag_mode d = (if looks_like_commit_hash (gd_ref d) then AllTags else NoTags)"

definition resolve_depth :: "git_dl \<Rightarrow> ('a, 'b) settings_scheme \<Rightarrow> int" where
  "resolve_depth d s =
     (if 0 < gd_depth d then gd_depth d
      else if 0 < git_depth (git s) then git_depth (git s)
      else if looks_like_commit_hash (gd_ref d) then 0
      else 1)"

definition sparse_eligible :: "git_dl \<Rightarrow> bool" where
  "sparse_eligible d \<longleftrightarrow> gd_subdir d \<noteq> []"

definition pinned_commit_eligible :: "git_dl \<Rightarrow> bool" where
  "pinned_commit_eligible d \<longleftrightarrow> length (gd_ref d) = 40 \<and> looks_like_commit_hash (gd_ref d)"

section \<open>Errors\<close>

definition auth_failure :: "goerr \<Rightarrow> bool" where
  "auth_failure err \<longleftrightarrow>
     errors_is err ErrAuthenticationRequired \<or> errors_is err ErrAuthorizationFailed"

definition definitive_clone_error :: "goerr \<Rightarrow> bool" where
  "definitive_clone_error err \<longleftrightarrow>
     errors_is err ErrRemoteRefNotFound \<or> errors_is err ErrEmptyRemoteRepository \<or>
     errors_is err Canceled \<or> errors_is err DeadlineExceeded"

definition missing_ref :: "clone_attempt \<Rightarrow> goerr \<Rightarrow> bool" where
  "missing_ref a err =
     (if errors_is err ErrRemoteRefNotFound then True
      else ca_ref a \<noteq> [] \<and> errors_is err ErrEmptyRemoteRepository)"

section \<open>Cloning at the first ref that exists\<close>

definition sys_remove_all :: "'n sys \<Rightarrow> string \<Rightarrow> 'n sys \<times> goerr option" where
  "sys_remove_all w dir = (case fs_remove_all (sys_fs w) dir of (f, e) \<Rightarrow> (w\<lparr>sys_fs := f\<rparr>, e))"

definition sys_mkdir_all :: "'n sys \<Rightarrow> string \<Rightarrow> nat \<Rightarrow> 'n sys \<times> goerr option" where
  "sys_mkdir_all w dir m = (case mkdir_all (sys_fs w) dir m of (f, e) \<Rightarrow> (w\<lparr>sys_fs := f\<rparr>, e))"

definition reset_dir :: "'n sys \<Rightarrow> string \<Rightarrow> 'n sys \<times> goerr option" where
  "reset_dir w dir =
     (case sys_remove_all w dir of
        (w1, Some e) \<Rightarrow> (w1, Some e)
      | (w1, None) \<Rightarrow> sys_mkdir_all w1 dir 493)"

text \<open>
  The loop: the last error, and the answer it returns from the middle, if it does.
\<close>

fun clone_loop :: "('n, 'c, 'r) plain_clone \<Rightarrow> 'n sys \<Rightarrow> string \<Rightarrow> 'c clone_opts \<Rightarrow> clone_attempt list \<Rightarrow>
    goerr option \<Rightarrow> 'n sys \<times> goerr option \<times> 'r result option" where
  "clone_loop pc w dir opts [] err = (w, err, None)"
| "clone_loop pc w dir opts (a # as) err =
     (let w0 = fst (sys_remove_all w dir);
          (w1, r) = pc w0 dir (opts\<lparr>co_ref := ca_ref a, co_single := ca_single a\<rparr>)
      in case r of
           Inr repo \<Rightarrow> (w1, None, Some (Inr repo))
         | Inl e \<Rightarrow>
             if \<not> missing_ref a e then (w1, Some e, Some (Inl e))
             else clone_loop pc w1 dir opts as (Some e))"

text \<open>The answer is a pointer: \<open>Inr None\<close> is nil without an error.\<close>

definition clone_by_attempts :: "('n, 'c, 'r) plain_clone \<Rightarrow> 'n sys \<Rightarrow> string \<Rightarrow> 'c clone_opts \<Rightarrow> clone_attempt list \<Rightarrow>
    string \<Rightarrow> 'n sys \<times> 'r option result" where
  "clone_by_attempts pc w dir opts attempts ref =
     (case clone_loop pc w dir opts attempts None of
        (w1, _, Some (Inr repo)) \<Rightarrow> (w1, Inr (Some repo))
      | (w1, _, Some (Inl e)) \<Rightarrow> (w1, Inl e)
      | (w1, err, None) \<Rightarrow>
          if 1 < length attempts
          then (w1, Inl (Errorf ''%w %q (tried %s)'' [ref, join_str '', '' (map ca_ref attempts)]
                      [Sentinel ErrRemoteRefNotFound]))
          else if length attempts = 1 \<and> ca_ref (attempts ! 0) \<noteq> [] \<and>
                  (\<exists>e. err = Some e \<and> errors_is e ErrEmptyRemoteRepository)
          then (w1, Inl (Errorf ''%w %q'' [ref] [Sentinel ErrRemoteRefNotFound]))
          else (w1, case err of Some e \<Rightarrow> Inl e | None \<Rightarrow> Inr None))"

section \<open>Commit hashes\<close>

text \<open>A hash is its 40 lower-case hexadecimal digits.\<close>

definition new_hash :: "string \<Rightarrow> string" where
  "new_hash s = to_lower s"

text \<open>The commits \<^verbatim>\<open>Log\<close> iterates over, and how the iteration ends.\<close>

fun match_short_hash :: "string \<Rightarrow> string \<Rightarrow> string list \<Rightarrow> goerr option \<Rightarrow> string option \<Rightarrow> string result" where
  "match_short_hash ref lower [] fin found =
     (case fin of
        Some e \<Rightarrow> Inl e
      | None \<Rightarrow> (case found of None \<Rightarrow> Inl (Errorf ''commit %s not found'' [ref] []) | Some h \<Rightarrow> Inr h))"
| "match_short_hash ref lower (h # hs) fin found =
     (if has_prefix h lower
      then if found \<noteq> None then Inl (Errorf ''ambiguous short hash %s'' [ref] [])
           else match_short_hash ref lower hs fin (Some h)
      else match_short_hash ref lower hs fin found)"

definition resolve_commit_hash :: "(string \<Rightarrow> bool) \<Rightarrow> (string list \<times> goerr option) result \<Rightarrow> string \<Rightarrow> string result" where
  "resolve_commit_hash has_commit log ref =
     (let lower = to_lower ref
      in if length ref = 40
         then (if has_commit (new_hash lower) then Inr (new_hash lower)
               else Inl (Errorf ''commit %s not found'' [ref] []))
         else case log of
                Inl e \<Rightarrow> Inl e
              | Inr (hs, fin) \<Rightarrow> match_short_hash ref lower hs fin None)"

section \<open>Facts\<close>

lemma clone_attempts_not_Nil [simp]: "clone_attempts d \<noteq> []"
  by (simp add: clone_attempts_def split: option.split)

lemma definitive_not_found [simp]:
  "definitive_clone_error (Errorf f args [Sentinel ErrRemoteRefNotFound])"
  by (simp add: definitive_clone_error_def)

text \<open>
  What the loop is for: the first attempt that is not a missing ref decides, and when all are
  missing the ref the caller named is reported.
\<close>

definition first_answer :: "(clone_attempt \<Rightarrow> 'r result) \<Rightarrow> clone_attempt list \<Rightarrow> 'r result option" where
  "first_answer ask as =
     map_option ask (List.find (\<lambda>a. case ask a of Inl e \<Rightarrow> \<not> missing_ref a e | Inr _ \<Rightarrow> True) as)"

lemma clone_loop_spec:
  assumes "\<And>w a. snd (pc w dir (opts\<lparr>co_ref := ca_ref a, co_single := ca_single a\<rparr>)) = ask a"
  shows "snd (snd (clone_loop pc w dir opts as err)) = first_answer ask as \<and>
    (first_answer ask as = None \<longrightarrow>
       fst (snd (clone_loop pc w dir opts as err)) =
         (if as = [] then err else case ask (last as) of Inl e \<Rightarrow> Some e | Inr _ \<Rightarrow> None))"
proof (induction as arbitrary: w err)
  case Nil
  show ?case by (simp add: first_answer_def)
next
  case (Cons a as)
  obtain w1 r where p: "pc (fst (sys_remove_all w dir)) dir (opts\<lparr>co_ref := ca_ref a, co_single := ca_single a\<rparr>) = (w1, r)"
    by fastforce
  then have r: "ask a = r" using assms [of "fst (sys_remove_all w dir)" a] by simp
  show ?case
  proof (cases r)
    case (Inr x)
    then show ?thesis using p r by (simp add: first_answer_def)
  next
    case (Inl e)
    show ?thesis
    proof (cases "missing_ref a e")
      case True
      then have "first_answer ask (a # as) = first_answer ask as" using r Inl by (simp add: first_answer_def)
      then show ?thesis using p r Inl True Cons.IH [of w1 "Some e"] by simp
    next
      case False
      then show ?thesis using p r Inl by (simp add: first_answer_def)
    qed
  qed
qed

text \<open>The ref that is reported missing when no attempt finds one.\<close>

lemma first_answer_None:
  "first_answer ask as = None \<Longrightarrow> a \<in> set as \<Longrightarrow> \<exists>e. ask a = Inl e \<and> missing_ref a e"
  by (induction as) (auto simp: first_answer_def split: sum.splits if_splits)

text \<open>Matching a short hash.\<close>

lemma match_short_hash_eq:
  "match_short_hash ref lower hs fin found =
     (case map Some (filter (\<lambda>h. has_prefix h lower) hs) of
        [] \<Rightarrow> (case fin of Some e \<Rightarrow> Inl e
               | None \<Rightarrow> (case found of None \<Rightarrow> Inl (Errorf ''commit %s not found'' [ref] []) | Some h \<Rightarrow> Inr h))
      | h # rest \<Rightarrow>
          if found \<noteq> None \<or> rest \<noteq> [] then Inl (Errorf ''ambiguous short hash %s'' [ref] [])
          else (case fin of Some e \<Rightarrow> Inl e | None \<Rightarrow> Inr (the h)))"
  by (induction hs arbitrary: found) (auto split: option.splits list.splits)

section \<open>What a ref stands for\<close>

text \<open>
  The names a ref has in a repository, as Git documents them: a name in a namespace is that name; a
  bare one is a branch, then a tag, then, if it has a slash, any other name below \<^verbatim>\<open>refs\<close>.
\<close>

definition ref_spellings :: "string \<Rightarrow> string list" where
  "ref_spellings r =
     (if has_prefix r ''refs/'' then [r]
      else if has_prefix r ''tags/'' then [''refs/tags/'' @ drop 5 r]
      else if has_prefix r ''heads/'' then [''refs/heads/'' @ drop 6 r]
      else if CHR ''/'' \<in> set r then [''refs/heads/'' @ r, ''refs/tags/'' @ r, ''refs/'' @ r]
      else [''refs/heads/'' @ r, ''refs/tags/'' @ r])"

text \<open>\<open>ask q single\<close> is what a remote answers to a clone at \<open>q\<close>; an absent name is answered in one of two ways.\<close>

definition absent :: "(string \<Rightarrow> bool \<Rightarrow> 'r result) \<Rightarrow> string \<Rightarrow> bool" where
  "absent ask q \<longleftrightarrow>
     (case ask q True of
        Inl e \<Rightarrow> errors_is e ErrRemoteRefNotFound \<or> errors_is e ErrEmptyRemoteRepository
      | Inr _ \<Rightarrow> False)"

lemma contains_slash: "contains_str r ''/'' \<longleftrightarrow> CHR ''/'' \<in> set r"
  unfolding contains_str_iff by (metis append_Cons append_Nil in_set_conv_decomp)

lemma clone_attempts_named:
  assumes "gd_ref d \<noteq> []" and "\<not> looks_like_commit_hash (gd_ref d)"
  shows "clone_attempts d = map (\<lambda>q. \<lparr>ca_ref = q, ca_single = True\<rparr>) (ref_spellings (gd_ref d))"
  using assms
  by (auto simp: clone_attempts_def qualified_ref_name_def ref_spellings_def contains_slash branch_reference_name_def
      tag_reference_name_def trim_prefix_def eval_nat_numeral split: if_splits)

lemma spelling_not_Nil: "r \<noteq> [] \<Longrightarrow> q \<in> set (ref_spellings r) \<Longrightarrow> q \<noteq> []"
  by (auto simp: ref_spellings_def split: if_splits)

lemma first_answer_named:
  assumes "r \<noteq> []" and "qs \<subseteq> set (ref_spellings r)" and "set as = qs"
  shows "first_answer (\<lambda>a. ask (ca_ref a) (ca_single a)) (map (\<lambda>q. \<lparr>ca_ref = q, ca_single = True\<rparr>) as) =
    map_option (\<lambda>q. ask q True) (List.find (\<lambda>q. \<not> absent ask q) as)"
  using assms
proof (induction as arbitrary: qs)
  case (Cons q as)
  have q: "q \<noteq> []" using spelling_not_Nil [OF assms(1)] Cons.prems by auto
  have IH: "first_answer (\<lambda>a. ask (ca_ref a) (ca_single a)) (map (\<lambda>q. \<lparr>ca_ref = q, ca_single = True\<rparr>) as) =
      map_option (\<lambda>q. ask q True) (List.find (\<lambda>q. \<not> absent ask q) as)"
    using Cons.IH [of "set as"] Cons.prems by auto
  show ?case using IH q by (auto simp: first_answer_def absent_def missing_ref_def split: sum.splits)
qed (simp add: first_answer_def)

section \<open>Properties\<close>

text \<open>
  C27. Which clone a ref gets, from a remote whose answer depends only on what is asked: a commit hash
  gets a clone of all refs, no ref the default branch, and any other ref the first of its spellings
  that the remote has, a branch before a tag.  When the remote has none of them, the error says
  that the ref was not found; neither the default branch nor anything else is cloned instead.
\<close>

theorem clone_by_attempts_first:
  assumes "\<forall>w q single. snd (pc w dir (opts\<lparr>co_ref := q, co_single := single\<rparr>)) = ask q single"
    and "R = snd (clone_by_attempts pc w dir opts (clone_attempts d) (gd_ref d))"
  shows "if looks_like_commit_hash (gd_ref d) then R = map_sum id Some (ask [] False)
    else if gd_ref d = [] then R = map_sum id Some (ask [] True)
    else case List.find (\<lambda>q. \<not> absent ask q) (ref_spellings (gd_ref d)) of
        Some q \<Rightarrow> R = map_sum id Some (ask q True)
      | None \<Rightarrow> \<exists>e. R = Inl e \<and> errors_is e ErrRemoteRefNotFound \<and> definitive_clone_error e"
proof -
  let ?as = "clone_attempts d" and ?ask = "\<lambda>a. ask (ca_ref a) (ca_single a)"
  obtain w1 err res where l: "clone_loop pc w dir opts ?as None = (w1, err, res)" by (metis prod_cases3)
  have spec: "res = first_answer ?ask ?as"
    "first_answer ?ask ?as = None \<Longrightarrow> err = (case ?ask (last ?as) of Inl e \<Rightarrow> Some e | Inr _ \<Rightarrow> None)"
    using clone_loop_spec [of pc dir opts ?ask w ?as None] assms(1) l by auto
  have found: "R = map_sum id Some r" if "first_answer ?ask ?as = Some r" for r
    using that spec(1) l assms(2) by (cases r) (simp_all add: clone_by_attempts_def)
  have one: "R = map_sum id Some (ask [] b)" if a: "?as = [\<lparr>ca_ref = [], ca_single = b\<rparr>]" for b
  proof (cases "first_answer ?ask ?as")
    case None
    then obtain e where "ask [] b = Inl e" using first_answer_None [OF None, of "hd ?as"] a by auto
    then show ?thesis using None spec l a assms(2) by (simp add: clone_by_attempts_def)
  next
    case (Some r)
    then have "r = ask [] b" using a by (auto simp: first_answer_def split: if_splits)
    then show ?thesis using found [OF Some] by simp
  qed
  consider "looks_like_commit_hash (gd_ref d)" | "\<not> looks_like_commit_hash (gd_ref d)" "gd_ref d = []"
    | "\<not> looks_like_commit_hash (gd_ref d)" "gd_ref d \<noteq> []" by blast
  then show ?thesis
  proof cases
    case 1
    then show ?thesis using one [of False] by (simp add: clone_attempts_def)
  next
    case 2
    then show ?thesis using one [of True] by (simp add: clone_attempts_def)
  next
    case 3
    let ?qs = "ref_spellings (gd_ref d)"
    note as = clone_attempts_named [OF 3(2,1)]
    have first: "first_answer ?ask ?as = map_option (\<lambda>q. ask q True) (List.find (\<lambda>q. \<not> absent ask q) ?qs)"
      unfolding as by (rule first_answer_named [OF 3(2) subset_refl refl])
    have "\<exists>e. R = Inl e \<and> errors_is e ErrRemoteRefNotFound \<and> definitive_clone_error e" if n: "first_answer ?ask ?as = None"
    proof (cases "1 < length ?as")
      case True
      then show ?thesis using n spec(1) l assms(2) by (simp add: clone_by_attempts_def)
    next
      case False
      then obtain a where a: "?as = [a]" by (cases ?as rule: remdups_adj.cases) auto
      obtain e where e: "?ask a = Inl e" "missing_ref a e" using first_answer_None [OF n, of a] a by auto
      have "err = Some e" using spec(2) [OF n] e a by simp
      then show ?thesis using e l spec(1) n a assms(2)
        by (auto simp: clone_by_attempts_def missing_ref_def definitive_clone_error_def split: if_splits)
    qed
    then show ?thesis using 3 first found by (auto split: option.split)
  qed
qed

definition demo_remote :: "unit sys \<Rightarrow> string \<Rightarrow> unit clone_opts \<Rightarrow> unit sys \<times> string result" where
  "demo_remote w dir opts =
     (w, if co_ref opts = ''refs/tags/v1'' then Inr ''the tag''
         else if co_ref opts = [] then Inr ''the default branch''
         else Inl (Sentinel ErrEmptyRemoteRepository))"

definition demo_dl :: "string \<Rightarrow> git_dl" where
  "demo_dl ref = \<lparr>gd_repo_url = ''https://h/o/r.git'', gd_subdir = [], gd_ref = ref, gd_depth = 0\<rparr>"

theorem clone_by_attempts_first_witness:
  "snd (clone_by_attempts demo_remote \<lparr>sys_fs = \<lparr>fs_nodes = [], fs_cwd = []\<rparr>, sys_net = ()\<rparr> ''/t''
      \<lparr>co_url = [], co_client = [], co_tags = NoTags, co_depth = 1, co_recurse = 0, co_ref = [], co_single = False,
       co_bare = False, co_no_checkout = False, co_filter = []\<rparr>
      (clone_attempts (demo_dl ''v1'')) ''v1'') = Inr (Some ''the tag'')"
proof -
  let ?opts = "\<lparr>co_url = [], co_client = [], co_tags = NoTags, co_depth = 1, co_recurse = 0, co_ref = [], co_single = False,
       co_bare = False, co_no_checkout = False, co_filter = []\<rparr> :: unit clone_opts"
  let ?ask = "\<lambda>q single. snd (demo_remote undefined [] (?opts\<lparr>co_ref := q, co_single := single\<rparr>))"
  have ask: "\<forall>w q single. snd (demo_remote w ''/t'' (?opts\<lparr>co_ref := q, co_single := single\<rparr>)) = ?ask q single"
    by (simp add: demo_remote_def)
  have "ref_spellings ''v1'' = [''refs/heads/v1'', ''refs/tags/v1'']" "\<not> looks_like_commit_hash ''v1''" by code_simp+
  then show ?thesis
    using clone_by_attempts_first [where pc = demo_remote and dir = "''/t''" and opts = ?opts and ask = ?ask
        and w = "\<lparr>sys_fs = \<lparr>fs_nodes = [], fs_cwd = []\<rparr>, sys_net = ()\<rparr>" and d = "demo_dl ''v1''", OF ask refl]
    by (simp add: demo_dl_def absent_def demo_remote_def)
qed

text \<open>
  A short hash resolves to a commit exactly when one commit of the whole history starts with
  it (in either letter case) and the history could be read to its end; two are an error, not a choice.
\<close>

theorem resolve_short_hash_exact:
  assumes "length ref \<noteq> 40"
  shows "resolve_commit_hash has (Inr (hs, fin)) ref = Inr h \<longleftrightarrow>
    fin = None \<and> filter (\<lambda>h. has_prefix h (to_lower ref)) hs = [h]"
  using assms
  by (auto simp: resolve_commit_hash_def Let_def match_short_hash_eq split: option.splits list.splits if_splits)

theorem resolve_short_hash_exact_witness:
  "resolve_commit_hash (\<lambda>_. False) (Inr ([''abcdef0123'', ''abc1234567'', ''abcdef9999''], None)) ''ABCDEF0'' = Inr ''abcdef0123''"
  by (rule resolve_short_hash_exact [THEN iffD2]) code_simp+

text \<open>
  A tag or branch whose name is seven to forty digits (a date, a build number) is taken for a
  commit hash: its name is never asked for, and with a remote that has no such commit the
  download fails though the ref exists.
\<close>

theorem numeric_ref_never_by_name:
  assumes "7 \<le> length ref" and "length ref \<le> 40" and "list_all is_digit ref" and "gd_ref d = ref"
  shows "clone_attempts d = [\<lparr>ca_ref = [], ca_single = False\<rparr>] \<and>
    (length ref < 40 \<and> (\<forall>h\<in>set hs. \<not> has_prefix h (to_lower ref)) \<longrightarrow>
       resolve_commit_hash has (Inr (hs, None)) ref = Inl (Errorf ''commit %s not found'' [ref] []))"
proof -
  have "looks_like_commit_hash ref"
    using assms by (auto simp: looks_like_commit_hash_def list_all_iff is_hex_def)
  moreover have "filter (\<lambda>h. has_prefix h (to_lower ref)) hs = []" if "\<forall>h\<in>set hs. \<not> has_prefix h (to_lower ref)"
    using that by simp
  ultimately show ?thesis
    using assms(4) by (auto simp: clone_attempts_def resolve_commit_hash_def Let_def match_short_hash_eq)
qed

theorem numeric_ref_never_by_name_witness:
  "clone_attempts (demo_dl ''20240115'') = [\<lparr>ca_ref = [], ca_single = False\<rparr>]"
proof -
  have "7 \<le> length ''20240115''" "length ''20240115'' \<le> 40" "list_all is_digit ''20240115''" by code_simp+
  from numeric_ref_never_by_name [OF this, of "demo_dl ''20240115''"] show ?thesis by (simp add: demo_dl_def)
qed

end
