(* ===== verification/Small_Internal.thy ===== *)
theory Small_Internal
  imports Go_Paths
begin

text \<open>
  The small internal packages: \<^verbatim>\<open>internal/limitio\<close> (size-bounded copying),
  \<^verbatim>\<open>internal/childenv\<close> (the environment of child processes) and \<^verbatim>\<open>internal/version\<close>.
\<close>

section \<open>Readers and writers\<close>

text \<open>
  A reader delivers its bytes and then ends, with \<^verbatim>\<open>io.EOF\<close> (\<open>None\<close>) or with an error.  A
  writer takes every byte, or fails after a number of bytes.
\<close>

record reader =
  rd_data :: string
  rd_end :: "goerr option"

type_synonym writer = "(nat \<times> goerr) option"

text \<open>\<^verbatim>\<open>io.Copy\<close>: the bytes written and the error.\<close>

definition io_copy :: "writer \<Rightarrow> reader \<Rightarrow> string \<times> goerr option" where
  "io_copy dst r =
     (case dst of
        None \<Rightarrow> (rd_data r, rd_end r)
      | Some (k, e) \<Rightarrow> if k < length (rd_data r) then (take k (rd_data r), Some e) else (rd_data r, rd_end r))"

text \<open>
  \<^verbatim>\<open>io.LimitReader\<close>: ends after \<open>n\<close> bytes, without looking at what the reader would have
  returned next.
\<close>

definition limit_reader :: "reader \<Rightarrow> int \<Rightarrow> reader" where
  "limit_reader r n =
     (if n \<le> 0 then \<lparr>rd_data = [], rd_end = None\<rparr>
      else if n \<le> int (length (rd_data r)) then \<lparr>rd_data = take (nat n) (rd_data r), rd_end = None\<rparr>
      else r)"

text \<open>Signed 64-bit arithmetic wraps.\<close>

definition wrap64 :: "int \<Rightarrow> int" where
  "wrap64 x = (x + 2 ^ 63) mod 2 ^ 64 - 2 ^ 63"

definition max_int64 :: int where
  "max_int64 = 2 ^ 63 - 1"

lemma wrap64_id: "- (2 ^ 63) \<le> x \<Longrightarrow> x < 2 ^ 63 \<Longrightarrow> wrap64 x = x"
  by (simp add: wrap64_def)

lemma wrap64_overflow: "wrap64 (max_int64 + 1) = - (2 ^ 63)"
  by (simp add: wrap64_def max_int64_def)

section \<open>limitio\<close>

definition limit_copy :: "writer \<Rightarrow> reader \<Rightarrow> int \<Rightarrow> string \<times> goerr option" where
  "limit_copy dst src limit =
     (if limit \<le> 0 then io_copy dst src
      else let (written, err) = io_copy dst (limit_reader src (wrap64 (limit + 1)))
           in if err \<noteq> None then (written, err)
              else if limit < int (length written)
              then (written, Some (Errorf ''%w: exceeds %d bytes'' [dec_string limit] [Sentinel ErrLimitExceeded]))
              else (written, None))"

section \<open>childenv\<close>

definition childenv_blocked :: "string list" where
  "childenv_blocked = [''GIT_ASKPASS'', ''SSH_ASKPASS'']"

definition childenv_forced :: "string list" where
  "childenv_forced =
     [''GIT_TERMINAL_PROMPT=0'', ''GCM_INTERACTIVE=false'', ''GCM_GUI_PROMPT=false'',
      ''SSH_ASKPASS_REQUIRE=never'']"

text \<open>\<open>parent\<close> is \<^verbatim>\<open>os.Environ()\<close>.\<close>

definition non_interactive :: "string list \<Rightarrow> string list" where
  "non_interactive parent =
     filter (\<lambda>kv. case cut_str kv ''='' of (name, _, ok) \<Rightarrow> \<not> (ok \<and> name \<in> set childenv_blocked)) parent
     @ childenv_forced"

text \<open>
  What a child process reads for a variable: \<^verbatim>\<open>os/exec\<close> keeps the last value of each name.
\<close>

definition env_lookup :: "string list \<Rightarrow> string \<Rightarrow> string option" where
  "env_lookup env name =
     map_of (rev (List.map_filter (\<lambda>kv. case cut_str kv ''='' of (n, v, ok) \<Rightarrow> if ok then Some (n, v) else None) env)) name"

section \<open>version\<close>

record build_info =
  bi_version :: string
  bi_commit :: string
  bi_date :: string

definition default_build_info :: build_info where
  "default_build_info = \<lparr>bi_version = ''dev'', bi_commit = ''none'', bi_date = ''unknown''\<rparr>"

definition nl :: string where "nl = [CHR 0x0A]"

text \<open>The Go runtime's version and platform are arguments.\<close>

definition version_string :: "build_info \<Rightarrow> string \<Rightarrow> string \<Rightarrow> string \<Rightarrow> string" where
  "version_string b go_version goos goarch =
     ''grabber '' @ bi_version b @ nl @ ''  commit:   '' @ bi_commit b @ nl @
     ''  built:    '' @ bi_date b @ nl @ ''  go:       '' @ go_version @ nl @
     ''  platform: '' @ goos @ ''/'' @ goarch"

section \<open>Facts\<close>

lemma io_copy_None_err:
  "snd (io_copy dst r) = None \<Longrightarrow> fst (io_copy dst r) = rd_data r \<and> rd_end r = None"
  by (auto simp: io_copy_def split: option.splits prod.splits if_splits)

lemma has_prefix_take [simp]: "has_prefix s (take k s)"
  unfolding has_prefix_iff by (metis append_take_drop_id)

lemma has_prefix_trans: "has_prefix a b \<Longrightarrow> has_prefix b c \<Longrightarrow> has_prefix a c"
  by (auto simp: has_prefix_iff)

lemma io_copy_prefix: "has_prefix (rd_data r) (fst (io_copy dst r))"
  by (cases dst) (auto simp: io_copy_def)

lemma limit_reader_length: "0 \<le> n \<Longrightarrow> int (length (rd_data (limit_reader r n))) \<le> n"
  by (simp add: limit_reader_def)

lemma limit_reader_all: "int (length (rd_data r)) < n \<Longrightarrow> limit_reader r n = r"
  by (simp add: limit_reader_def)

lemma limit_reader_prefix: "has_prefix (rd_data r) (rd_data (limit_reader r n))"
  by (simp add: limit_reader_def)

lemma has_prefix_length: "has_prefix a b \<Longrightarrow> length b \<le> length a"
  by (auto simp: has_prefix_iff)

section \<open>Properties\<close>

text \<open>
  C36. The bounded copy, for every limit below the largest \<^verbatim>\<open>int64\<close>: without an error the whole
  source was written and it fits the limit; a source that fits is copied exactly as an unbounded
  copy would; a source that does not fit is an error; and never more than one byte beyond the
  limit is written.
\<close>

theorem limit_copy_correct:
  assumes "0 < limit" and "limit < max_int64"
  shows "(case limit_copy dst src limit of (written, err) \<Rightarrow>
      int (length written) \<le> limit + 1 \<and>
      has_prefix (rd_data src) written \<and>
      (err = None \<longrightarrow> written = rd_data src \<and> rd_end src = None) \<and>
      (int (length (rd_data src)) \<le> limit \<longrightarrow> (written, err) = io_copy dst src) \<and>
      (limit < int (length (rd_data src)) \<longrightarrow> err \<noteq> None \<and> (dst = None \<longrightarrow> errors_is (the err) ErrLimitExceeded)))"
proof -
  have w: "wrap64 (limit + 1) = limit + 1" using assms by (intro wrap64_id) (auto simp: max_int64_def)
  obtain wr e where c: "io_copy dst (limit_reader src (limit + 1)) = (wr, e)" by fastforce
  have pre: "has_prefix (rd_data (limit_reader src (limit + 1))) wr"
    using io_copy_prefix [of "limit_reader src (limit + 1)" dst] c by simp
  have len: "int (length wr) \<le> limit + 1"
    using has_prefix_length [OF pre] limit_reader_length [of "limit + 1" src] assms by auto
  have k': "has_prefix (rd_data src) wr"
    using has_prefix_trans [OF limit_reader_prefix pre] .
  show ?thesis
  proof (cases "int (length (rd_data src)) \<le> limit")
    case True
    then have "limit_reader src (limit + 1) = src" by (intro limit_reader_all) simp
    with c have cc: "io_copy dst src = (wr, e)" by simp
    moreover have "e = None \<Longrightarrow> wr = rd_data src \<and> rd_end src = None"
      using io_copy_None_err [of dst src] cc by simp
    moreover have "int (length wr) \<le> limit" using has_prefix_length [OF k'] True by simp
    ultimately show ?thesis
      using True assms w c len k' by (auto simp: limit_copy_def)
  next
    case False
    then have l: "limit_reader src (limit + 1) = \<lparr>rd_data = take (nat (limit + 1)) (rd_data src), rd_end = None\<rparr>"
      using assms by (simp add: limit_reader_def)
    have full: "e = None \<Longrightarrow> limit < int (length wr)"
      using io_copy_None_err [of dst "limit_reader src (limit + 1)"] c l False assms by auto
    have "dst = None \<Longrightarrow> e = None" using c l by (auto simp: io_copy_def)
    then show ?thesis
      using False assms w c len k' full by (auto simp: limit_copy_def)
  qed
qed

theorem limit_copy_correct_witness:
  "limit_copy None \<lparr>rd_data = ''abc'', rd_end = None\<rparr> 3 = (''abc'', None) \<and>
   snd (limit_copy None \<lparr>rd_data = ''abcd'', rd_end = None\<rparr> 3) \<noteq> None"
  using limit_copy_correct [where limit = 3 and dst = None and src = "\<lparr>rd_data = ''abc'', rd_end = None\<rparr>"]
    limit_copy_correct [where limit = 3 and dst = None and src = "\<lparr>rd_data = ''abcd'', rd_end = None\<rparr>"]
  by (auto simp: max_int64_def io_copy_def)

text \<open>
  At the largest limit, \<^verbatim>\<open>max+1\<close> wraps to a negative number, so the limit reader ends at
  once: the copy of any source, of any size, writes nothing and reports success.
\<close>

theorem limit_copy_max_int64_drops_everything:
  "limit_copy dst src max_int64 = ([], None)"
  unfolding limit_copy_def wrap64_overflow
  by (simp add: limit_reader_def io_copy_def max_int64_def split: option.splits)

text \<open>
  A child process never sees an askpass helper and always sees prompting disabled, whatever
  the parent's environment holds; every other variable keeps its value.
\<close>

theorem non_interactive_env:
  "env_lookup (non_interactive parent) name =
     (if name \<in> {''GIT_ASKPASS'', ''SSH_ASKPASS''} then None
      else if name \<in> {''GIT_TERMINAL_PROMPT''} then Some ''0''
      else if name \<in> {''GCM_INTERACTIVE'', ''GCM_GUI_PROMPT''} then Some ''false''
      else if name = ''SSH_ASKPASS_REQUIRE'' then Some ''never''
      else env_lookup parent name)"
proof -
  let ?kv = "\<lambda>kv. case cut_str kv ''='' of (n, v, ok) \<Rightarrow> if ok then Some (n, v) else None"
  let ?keep = "\<lambda>kv. case cut_str kv ''='' of (n, _, ok) \<Rightarrow> \<not> (ok \<and> n \<in> set childenv_blocked)"
  have forced: "List.map_filter ?kv childenv_forced =
     [(''GIT_TERMINAL_PROMPT'', ''0''), (''GCM_INTERACTIVE'', ''false''),
      (''GCM_GUI_PROMPT'', ''false''), (''SSH_ASKPASS_REQUIRE'', ''never'')]"
    by code_simp
  have keep: "List.map_filter ?kv (filter ?keep es) =
      filter (\<lambda>(n, _). n \<notin> set childenv_blocked) (List.map_filter ?kv es)" for es
    by (induction es) (auto simp: List.map_filter_def split: prod.splits)
 have mo: "map_of (rev (filter (\<lambda>(n, _). n \<notin> S) ps)) x = (if x \<in> S then None else map_of (rev ps) x)"
    for S :: "string set" and ps :: "(string \<times> string) list" and x
    by (induction ps) (auto simp: map_add_def split: option.splits)
  have app: "List.map_filter ?kv (es @ fs) = List.map_filter ?kv es @ List.map_filter ?kv fs" for es fs
    by (simp add: List.map_filter_def)
  show ?thesis
    unfolding env_lookup_def non_interactive_def app keep forced
    by (simp add: map_add_def mo) (simp add: childenv_blocked_def)
qed

end
