(* ===== verification/Ssrf_Proxied.thy ===== *)
theory Ssrf_Proxied
  imports Ssrf
begin

text \<open>
  \<^verbatim>\<open>ssrf/proxied.go\<close>: the stricter check of a target that will be reached through a proxy, where
  the dial guard never sees the address.

  The IDNA conversions come from \<^verbatim>\<open>golang.org/x/net/idna\<close> and are the record \<open>idna\<close>; name
  lookup (\<^verbatim>\<open>sharedLookups.lookup\<close>, modelled in \<open>Lookup_Cache\<close>) is the parameter \<open>lookup\<close>, and
  \<open>ctx_done\<close> says whether the caller's context has ended when a lookup fails.
\<close>

section \<open>Embedded IPv4 addresses\<close>

text \<open>64:ff9b:1::/48, the local-use NAT64 prefix.\<close>

definition nat64_local :: ip_net where
  "nat64_local = \<lparr>net_ip = parse_ip ''64:ff9b:1::'', net_mask = cidr_mask 48 16\<rparr>"

definition all_zero :: "8 word list \<Rightarrow> bool" where
  "all_zero b = list_all (\<lambda>v. v = 0) b"

definition slice :: "'a list \<Rightarrow> nat \<Rightarrow> nat \<Rightarrow> 'a list" where
  "slice xs i j = take (j - i) (drop i xs)"

definition embedded_ipv4 :: "ip \<Rightarrow> ip list" where
  "embedded_ipv4 ip =
     (if length ip \<noteq> 16 \<or> to4 ip \<noteq> None then []
      else if ip ! 0 = 0 \<and> ip ! 1 = 0x64 \<and> ip ! 2 = 0xff \<and> ip ! 3 = 0x9b \<and> all_zero (slice ip 4 12)
      then [slice ip 12 16]
      else if ip ! 0 = 0x20 \<and> ip ! 1 = 2 then [slice ip 2 6]
      else if ip ! 0 = 0x20 \<and> ip ! 1 = 1 \<and> ip ! 2 = 0 \<and> ip ! 3 = 0
      then [slice ip 4 8, [ip ! 12 XOR 0xff, ip ! 13 XOR 0xff, ip ! 14 XOR 0xff, ip ! 15 XOR 0xff]]
      else if all_zero (take 12 ip) then [slice ip 12 16]
      else [])"

definition blocked_with_embedded :: "guard \<Rightarrow> ip \<Rightarrow> bool" where
  "blocked_with_embedded g ip =
     (if ip_allowed g ip then False
      else if blocked g ip \<or>
              (g_level g = LevelInternal \<and> to4 ip = None \<and> ip_net_contains nat64_local ip)
      then True
      else list_ex (blocked g) (embedded_ipv4 (to16 ip)))"

section \<open>The check\<close>

definition is_ascii :: "string \<Rightarrow> bool" where
  "is_ascii s = list_all (\<lambda>c. byte c < 128) s"

text \<open>\<^verbatim>\<open>idna.Lookup.ToASCII\<close> and \<^verbatim>\<open>idna.ToASCII\<close>.\<close>

record idna =
  lookup_to_ascii :: "string \<Rightarrow> string result"
  puny_to_ascii :: "string \<Rightarrow> string result"

definition invalid_form :: "string \<Rightarrow> bool" where
  "invalid_form form = (has_prefix form ''.'' \<or> has_suffix form ''.'' \<or> contains_str form ''..'')"

fun trim_forms :: "string list \<Rightarrow> string list result" where
  "trim_forms [] = Inr []"
| "trim_forms (f # fs) =
     (let form = (if 1 < length f then trim_suffix f ''.'' else f)
      in if invalid_form form then Inl (Errorf ''ssrf guard: refusing invalid host %q'' [form] [])
         else bind_result (trim_forms fs) (\<lambda>rest. Inr (form # rest)))"

definition ascii_forms :: "idna \<Rightarrow> string \<Rightarrow> string list result" where
  "ascii_forms conv host =
     (if is_ascii host then trim_forms [host]
      else case lookup_to_ascii conv host of
        Inl err \<Rightarrow> Inl (Errorf ''ssrf guard: refusing invalid host %q: %w'' [host] [err])
      | Inr lookup \<Rightarrow>
          (case puny_to_ascii conv host of
             Inl err \<Rightarrow> Inl (Errorf ''ssrf guard: refusing invalid host %q: %w'' [host] [err])
           | Inr punycode \<Rightarrow>
               trim_forms (if punycode \<noteq> lookup then [lookup, punycode] else [lookup])))"

definition dns_probe_name :: string where
  "dns_probe_name = ''example.com.''"

definition is_not_found :: "goerr \<Rightarrow> bool" where
  "is_not_found err = errors_is err DNSNotFound"

definition lookup_failure_allowed :: "resolver \<Rightarrow> goerr \<Rightarrow> bool" where
  "lookup_failure_allowed lookup err =
     (if is_not_found err then True
      else case lookup dns_probe_name of Inl _ \<Rightarrow> True | Inr _ \<Rightarrow> False)"

definition check_proxied_ascii :: "guard \<Rightarrow> resolver \<Rightarrow> bool \<Rightarrow> string \<Rightarrow> goerr option" where
  "check_proxied_ascii g lookup ctx_done host =
     (if host_allowed g host then None
      else if parse_ip host \<noteq> [] then
        (if blocked_with_embedded g (parse_ip host)
         then Some (blocked_address_error host (parse_ip host)) else None)
      else if is_numeric_host host then
        Some (Errorf ''ssrf guard: refusing non-canonical IP literal %q'' [host] [])
      else case lookup (to_lower host) of
        Inl err \<Rightarrow>
          if \<not> ctx_done \<and> \<not> lookup_failure_allowed lookup err
          then Some (Errorf ''ssrf guard: cannot check host %q: %w'' [host] [err]) else None
      | Inr addrs \<Rightarrow>
          (case List.find (blocked_with_embedded g) addrs of
             Some a \<Rightarrow> Some (blocked_address_error host a)
           | None \<Rightarrow> None))"

fun check_forms :: "guard \<Rightarrow> resolver \<Rightarrow> bool \<Rightarrow> string list \<Rightarrow> goerr option" where
  "check_forms g lookup ctx_done [] = None"
| "check_forms g lookup ctx_done (f # fs) =
     (case check_proxied_ascii g lookup ctx_done f of
        Some e \<Rightarrow> Some e
      | None \<Rightarrow> check_forms g lookup ctx_done fs)"

definition check_proxied_host :: "idna \<Rightarrow> guard \<Rightarrow> resolver \<Rightarrow> bool \<Rightarrow> string \<Rightarrow> goerr option" where
  "check_proxied_host conv g lookup ctx_done host =
     (if \<not> enabled g \<or> host = [] then None
      else case ascii_forms conv host of
        Inl err \<Rightarrow> Some err
      | Inr forms \<Rightarrow> check_forms g lookup ctx_done forms)"

section \<open>Facts\<close>

lemma check_forms_None:
  "check_forms g lookup d fs = None \<longleftrightarrow> (\<forall>f\<in>set fs. check_proxied_ascii g lookup d f = None)"
  by (induction fs) (auto split: option.splits)

lemma find_None_iff_all: "List.find P xs = None \<longleftrightarrow> (\<forall>x\<in>set xs. \<not> P x)"
  by (auto simp: find_None_iff)

lemma check_proxied_ascii_None:
  "check_proxied_ascii g lookup d host = None \<longleftrightarrow>
     host_allowed g host \<or>
     (if parse_ip host \<noteq> [] then \<not> blocked_with_embedded g (parse_ip host)
      else \<not> is_numeric_host host \<and>
        (case lookup (to_lower host) of
           Inr addrs \<Rightarrow> \<forall>a\<in>set addrs. \<not> blocked_with_embedded g a
         | Inl err \<Rightarrow> d \<or> lookup_failure_allowed lookup err))"
proof (cases "lookup (to_lower host)")
  case (Inl err)
  then show ?thesis by (simp add: check_proxied_ascii_def)
next
  case (Inr addrs)
  then show ?thesis using find_None_iff_all [of "blocked_with_embedded g" addrs]
    by (cases "List.find (blocked_with_embedded g) addrs")
      (auto simp: check_proxied_ascii_def)
qed

text \<open>The forms a host is sent in are free of empty labels.\<close>

lemma trim_forms_valid: "trim_forms fs = Inr gs \<Longrightarrow> \<forall>g\<in>set gs. \<not> invalid_form g"
  by (induction fs arbitrary: gs)
     (auto simp: Let_def bind_result_Inr_iff split: if_splits)

lemma ascii_forms_valid: "ascii_forms conv host = Inr gs \<Longrightarrow> g \<in> set gs \<Longrightarrow> \<not> invalid_form g"
  using trim_forms_valid
  by (auto simp: ascii_forms_def simp del: trim_forms.simps split: if_splits sum.splits)

lemma nat64_local_eq:
  "nat64_local = \<lparr>net_ip = [0, 0x64, 0xff, 0x9b, 0, 1, 0, 0, 0, 0, 0, 0, 0, 0, 0, 0],
     net_mask = [255, 255, 255, 255, 255, 255, 0, 0, 0, 0, 0, 0, 0, 0, 0, 0]\<rparr>"
  by code_simp

lemma nat64_local_contains:
  assumes "length ip = 16" and "to4 ip = None"
  shows "ip_net_contains nat64_local ip \<longleftrightarrow> take 6 ip = [0, 0x64, 0xff, 0x9b, 0, 1]"
proof -
  obtain a b c d e f r where ip: "ip = a # b # c # d # e # f # r" and r: "length r = 10"
    using assms(1) by (auto simp: numeral_eq_Suc length_Suc_conv)
  obtain r0 r1 r2 r3 r4 r5 r6 r7 r8 r9 where rr: "r = [r0, r1, r2, r3, r4, r5, r6, r7, r8, r9]"
    using r by (auto simp: numeral_eq_Suc length_Suc_conv)
  show ?thesis
    using assms(2) by (simp add: ip rr nat64_local_eq net_simps to4_def)
qed

lemma list_of_length_16:
  assumes "length xs = 16"
  obtains x0 x1 x2 x3 x4 x5 x6 x7 x8 x9 xa xb xc xd xe xf where
    "xs = [x0, x1, x2, x3, x4, x5, x6, x7, x8, x9, xa, xb, xc, xd, xe, xf]"
  using assms by (auto simp: numeral_eq_Suc length_Suc_conv)

text \<open>The guard of the default settings: the internal level, nothing allowed.\<close>

definition internal_guard :: guard where
  "internal_guard = new_guard LevelInternal None []"

lemma internal_guard_simps [simp]:
  "g_level internal_guard = LevelInternal" "enabled internal_guard" "\<not> ip_allowed internal_guard ip"
  by (simp_all add: internal_guard_def enabled_def new_guard_no_allow)

lemma internal_guard_v6:
  assumes "length ip = 16" and "to4 ip = None"
  shows "blocked internal_guard ip \<longleftrightarrow> ip = ipv6_loopback \<or> ip = ipv6_unspecified \<or>
     ip ! 0 AND 254 = 252 \<or> (ip ! 0 = 254 \<and> ip ! 1 AND 192 = 128) \<or> ip ! 0 = 255"
  unfolding internal_guard_def internal_nets_v6 [OF assms]
  using assms by (simp add: internal_nets_def net4_v6 net6_host net6_byte net6_two_bytes)

lemmas embedded_simps = blocked_with_embedded_def embedded_ipv4_def to16_def all_zero_def slice_def
  to4_def nat64_local_contains internal_guard_v6 ipv6_loopback_def ipv6_unspecified_def

section \<open>Properties\<close>

text \<open>
  C20. The proxied check passes exactly when the guard is off, the host is empty, or every
  ASCII form a proxy can receive is acceptable: on the allow list, an address literal that is
  blocked neither itself nor by an IPv4 address it carries, or a name that is not a numeric
  literal and all of whose addresses are free in that sense.  A failed lookup passes only when
  the caller gave up, the name is unknown, or the probe of a public name fails as well.
\<close>

theorem check_proxied_host_exact:
  "check_proxied_host conv g lookup d host = None \<longleftrightarrow>
     \<not> enabled g \<or> host = [] \<or>
     (\<exists>forms. ascii_forms conv host = Inr forms \<and>
        (\<forall>f\<in>set forms. \<not> invalid_form f \<and>
           (host_allowed g f \<or>
            (if parse_ip f \<noteq> [] then \<not> blocked_with_embedded g (parse_ip f)
             else \<not> is_numeric_host f \<and>
               (case lookup (to_lower f) of
                  Inr addrs \<Rightarrow> \<forall>a\<in>set addrs. \<not> blocked_with_embedded g a
                | Inl err \<Rightarrow> d \<or> errors_is err DNSNotFound \<or> (\<exists>e. lookup dns_probe_name = Inl e))))))"
proof -
  have "lookup_failure_allowed lookup err \<longleftrightarrow>
      errors_is err DNSNotFound \<or> (\<exists>e. lookup dns_probe_name = Inl e)" for err
    by (simp add: lookup_failure_allowed_def is_not_found_def split: sum.splits)
  note allowed = this
  show ?thesis
  proof (cases "ascii_forms conv host")
    case (Inl e)
    then show ?thesis by (simp add: check_proxied_host_def)
  next
    case (Inr forms)
    then have "\<forall>f\<in>set forms. \<not> invalid_form f" using ascii_forms_valid by blast
    then show ?thesis unfolding allowed [symmetric]
      by (simp add: check_proxied_host_def Inr check_forms_None check_proxied_ascii_None)
  qed
qed

theorem check_proxied_host_exact_witness:
  "check_proxied_host \<lparr>lookup_to_ascii = Inr, puny_to_ascii = Inr\<rparr> internal_guard (\<lambda>_. Inr [[8, 8, 8, 8], [10, 0, 0, 1]]) False ''evil.com'' \<noteq> None"
proof -
  let ?conv = "\<lparr>lookup_to_ascii = Inr, puny_to_ascii = Inr\<rparr> :: idna"
  have "enabled internal_guard" "\<not> host_allowed internal_guard ''evil.com''" "parse_ip ''evil.com'' = []"
    "ascii_forms ?conv ''evil.com'' = Inr [''evil.com'']" "blocked_with_embedded internal_guard [10, 0, 0, 1]"
    by code_simp+
  then show ?thesis
    by (simp add: check_proxied_host_exact
      [of ?conv internal_guard "\<lambda>_. Inr [[8, 8, 8, 8], [10, 0, 0, 1]]" False "''evil.com''"])
qed

text \<open>
  An IPv6 translation address is judged by the IPv4 address it carries: NAT64 and 6to4
  addresses are refused exactly when that address is, a Teredo address when its server or its
  (inverted) client address is, and an IPv4-compatible address when the address is or when it
  is the IPv6 loopback or unspecified address itself.
\<close>

theorem translation_address_judged:
  shows
    "blocked_with_embedded internal_guard [0, 0x64, 0xff, 0x9b, 0, 0, 0, 0, 0, 0, 0, 0, a, b, c, d] =
       blocked internal_guard [a, b, c, d] \<and>
     blocked_with_embedded internal_guard [0x20, 2, a, b, c, d, n1, n2, i1, i2, i3, i4, i5, i6, i7, i8] =
       blocked internal_guard [a, b, c, d] \<and>
     blocked_with_embedded internal_guard [0x20, 1, 0, 0, a, b, c, d, f1, f2, p1, p2, w, x, y, z] =
       (blocked internal_guard [a, b, c, d] \<or> blocked internal_guard [w XOR 0xff, x XOR 0xff, y XOR 0xff, z XOR 0xff]) \<and>
     blocked_with_embedded internal_guard [0, 0, 0, 0, 0, 0, 0, 0, 0, 0, 0, 0, a, b, c, d] =
       (blocked internal_guard [a, b, c, d] \<or> [0, 0, 0, 0, 0, 0, 0, 0, 0, 0, 0, 0, a, b, c, d] \<in> {ipv6_loopback, ipv6_unspecified})"
proof (intro conjI)
  show "blocked_with_embedded internal_guard [0, 0x64, 0xff, 0x9b, 0, 0, 0, 0, 0, 0, 0, 0, a, b, c, d] =
       blocked internal_guard [a, b, c, d]"
    by (simp add: embedded_simps)
  show "blocked_with_embedded internal_guard [0x20, 2, a, b, c, d, n1, n2, i1, i2, i3, i4, i5, i6, i7, i8] =
       blocked internal_guard [a, b, c, d]"
    by (simp add: embedded_simps)
  show "blocked_with_embedded internal_guard [0x20, 1, 0, 0, a, b, c, d, f1, f2, p1, p2, w, x, y, z] =
       (blocked internal_guard [a, b, c, d] \<or> blocked internal_guard [w XOR 0xff, x XOR 0xff, y XOR 0xff, z XOR 0xff])"
    by (simp add: embedded_simps)
  show "blocked_with_embedded internal_guard [0, 0, 0, 0, 0, 0, 0, 0, 0, 0, 0, 0, a, b, c, d] =
       (blocked internal_guard [a, b, c, d] \<or> [0, 0, 0, 0, 0, 0, 0, 0, 0, 0, 0, 0, a, b, c, d] \<in> {ipv6_loopback, ipv6_unspecified})"
    by (simp add: embedded_simps) auto
qed

end
