(* ===== verification/Settings_Net.thy ===== *)
theory Settings_Net
  imports Settings Ssrf_Proxied
begin

text \<open>
  \<^verbatim>\<open>settings/settings.go\<close>, second half, and \<^verbatim>\<open>settings/envproxy.go\<close>: the transport built for a
  host, the environment proxy, the connect probe and the pre-fetch check.

  A transport's \<^verbatim>\<open>DialContext\<close> is a function of whether the request was routed through an
  environment proxy (what \<^verbatim>\<open>dialIsProxied\<close> reads from the context) and of the dial address.  The
  certificate machinery of the standard library and the process-wide default transport are the
  record \<open>net_env\<close>.
\<close>

section \<open>Transports\<close>

record request =
  rq_url :: url
  rq_host :: string

type_synonym proxy_func = "request \<Rightarrow> url option result"

record tls_config =
  min_tls12 :: bool
  root_cas :: "string list option"
  certificates :: "string list"

text \<open>
  Of \<^verbatim>\<open>http.Transport\<close>, the fields the program looks at or sets: \<^verbatim>\<open>TLSClientConfig\<close>, \<^verbatim>\<open>Proxy\<close> and
  \<^verbatim>\<open>DialContext\<close>.  The rest of a transport that the caller passes in survives \<^verbatim>\<open>Clone\<close> and is not
  part of the model; a hook of its own for TLS connections (\<^verbatim>\<open>DialTLSContext\<close>) in particular is taken
  by \<^verbatim>\<open>net/http\<close> instead of \<^verbatim>\<open>DialContext\<close>, so that what is shown of the guard here is for transports
  without one.
\<close>

record transport =
  tr_tls :: "tls_config option"
  tr_proxy :: "proxy_func option"
  tr_dial :: "(bool \<Rightarrow> string \<Rightarrow> dialer) option"

definition empty_transport :: transport where
  "empty_transport = \<lparr>tr_tls = None, tr_proxy = None, tr_dial = None\<rparr>"

record net_env =
  system_pool :: "string list option result"
  pem_ok :: "string \<Rightarrow> bool"
  x509_key_pair :: "string \<Rightarrow> string \<Rightarrow> string result"
  default_transport :: "transport option"

fun append_certs :: "net_env \<Rightarrow> string list \<Rightarrow> string list \<Rightarrow> string list result" where
  "append_certs env pool [] = Inr pool"
| "append_certs env pool (p # ps) =
     (if \<not> pem_ok env p then Inl (errors_new ''failed to parse CA certificate'')
      else append_certs env (pool @ [p]) ps)"

definition ca_cert_pool :: "net_env \<Rightarrow> transport settings \<Rightarrow> string list option result" where
  "ca_cert_pool env s =
     (if tls_ca_certs s = [] then Inr None
      else case system_pool env of
        Inl err \<Rightarrow> Inl (Errorf ''loading system cert pool: %w'' [] [err])
      | Inr sys \<Rightarrow>
          bind_result (append_certs env (case sys of None \<Rightarrow> [] | Some p \<Rightarrow> p) (tls_ca_certs s)) (\<lambda>p. Inr (Some p)))"

definition base_transport :: "net_env \<Rightarrow> transport settings \<Rightarrow> transport" where
  "base_transport env s =
     (case http_transport s of
        Some t \<Rightarrow> t
      | None \<Rightarrow> (case default_transport env of Some t \<Rightarrow> t | None \<Rightarrow> empty_transport))"

definition layer_tls :: "net_env \<Rightarrow> string list option \<Rightarrow> client_certificate option \<Rightarrow> transport \<Rightarrow> transport result" where
  "layer_tls env pool cert base =
     (if pool = None \<and> cert = None then Inr base
      else
        let cfg0 = (case tr_tls base of
              None \<Rightarrow> \<lparr>min_tls12 = True, root_cas = None, certificates = []\<rparr> | Some c \<Rightarrow> c);
            cfg = (if pool \<noteq> None then cfg0\<lparr>root_cas := pool\<rparr> else cfg0)
        in case cert of
             None \<Rightarrow> Inr (base\<lparr>tr_tls := Some cfg\<rparr>)
           | Some c \<Rightarrow>
               (case x509_key_pair env (cc_cert c) (cc_key c) of
                  Inl err \<Rightarrow> Inl (Errorf ''loading client certificate: %w'' [] [err])
                | Inr kp \<Rightarrow> Inr (base\<lparr>tr_tls := Some (cfg\<lparr>certificates := [kp]\<rparr>)\<rparr>)))"

definition layer_proxy :: "proxy_config option \<Rightarrow> transport \<Rightarrow> transport" where
  "layer_proxy proxy base =
     (case proxy of None \<Rightarrow> base | Some p \<Rightarrow> base\<lparr>tr_proxy := Some (\<lambda>_. Inr (proxy_url proxy))\<rparr>)"

definition layer_guard :: "guard \<Rightarrow> proxy_config option \<Rightarrow> transport \<Rightarrow> transport" where
  "layer_guard guard proxy base =
     (if \<not> enabled guard then base
      else let exempt = (case proxy of
                 Some p \<Rightarrow> (case px_url p of Some u \<Rightarrow> exempt_host (url_hostname u) | None \<Rightarrow> None)
               | None \<Rightarrow> None)
           in base\<lparr>tr_dial := Some (\<lambda>_. dial_context guard exempt)\<rparr>)"

definition transport_for_host :: "net_env \<Rightarrow> transport settings \<Rightarrow> string \<Rightarrow> transport option result" where
  "transport_for_host env s host =
     bind_result (ca_cert_pool env s) (\<lambda>pool.
       let cert = match_client_certificate s host; proxy = match_proxy s host
       in if http_transport s = None \<and> pool = None \<and> cert = None \<and> proxy = None \<and> \<not> enabled (ssrf_guard s)
          then Inr None
          else bind_result (layer_tls env pool cert (base_transport env s)) (\<lambda>base.
            Inr (Some (layer_guard (ssrf_guard s) proxy (layer_proxy proxy base)))))"

section \<open>The environment proxy\<close>

definition hostname_of :: "string \<Rightarrow> string" where
  "hostname_of hostport =
     (if parse_ip hostport \<noteq> [] then hostport else url_hostname (empty_url\<lparr>u_host := hostport\<rparr>))"

definition target_hosts :: "request \<Rightarrow> string list" where
  "target_hosts req =
     (let h0 = url_hostname (rq_url req)
      in if rq_host req \<noteq> [] \<and> \<not> equal_fold (hostname_of (rq_host req)) h0
         then [h0, hostname_of (rq_host req)] else [h0])"

text \<open>The resolver side of the proxied check: IDNA, name lookup, and whether the context ended.\<close>

record check_env =
  ce_idna :: idna
  ce_lookup :: resolver
  ce_done :: bool

fun check_targets :: "check_env \<Rightarrow> guard \<Rightarrow> string list \<Rightarrow> goerr option" where
  "check_targets ce g [] = None"
| "check_targets ce g (h # hs) =
     (case check_proxied_host (ce_idna ce) g (ce_lookup ce) (ce_done ce) h of
        Some e \<Rightarrow> Some e
      | None \<Rightarrow> check_targets ce g hs)"

text \<open>
  The Proxy function \<^verbatim>\<open>newEnvProxyTransport\<close> installs: the decision it records and its result.
\<close>

definition env_proxy_func :: "check_env \<Rightarrow> guard \<Rightarrow> proxy_func \<Rightarrow> request \<Rightarrow> bool \<times> url option result" where
  "env_proxy_func ce guard orig req =
     (case orig req of
        Inl err \<Rightarrow> (False, Inl err)
      | Inr None \<Rightarrow> (False, Inr None)
      | Inr (Some u) \<Rightarrow>
          (case check_targets ce guard (target_hosts req) of
             Some err \<Rightarrow> (False, Inl err)
           | None \<Rightarrow> (True, Inr (Some u))))"

definition new_env_proxy_transport :: "check_env \<Rightarrow> transport \<Rightarrow> proxy_func \<Rightarrow> guard \<Rightarrow> transport" where
  "new_env_proxy_transport ce tr orig guard =
     tr\<lparr>tr_proxy := Some (\<lambda>req. snd (env_proxy_func ce guard orig req)),
        tr_dial := Some (\<lambda>proxied addr. if proxied then Plain else dial_context guard None addr)\<rparr>"

datatype round_tripper =
    NilRoundTripper
  | PlainRoundTripper transport
  | EnvProxyRoundTripper transport proxy_func guard

definition with_env_proxy :: "check_env \<Rightarrow> transport settings \<Rightarrow> transport option \<Rightarrow> string \<Rightarrow> round_tripper" where
  "with_env_proxy ce s tr host =
     (case tr of
        None \<Rightarrow> NilRoundTripper
      | Some t \<Rightarrow>
          (case tr_proxy t of
             None \<Rightarrow> PlainRoundTripper t
           | Some orig \<Rightarrow>
               if \<not> enabled (ssrf_guard s) \<or> match_proxy s host \<noteq> None then PlainRoundTripper t
               else EnvProxyRoundTripper (new_env_proxy_transport ce t orig (ssrf_guard s)) orig (ssrf_guard s)))"

definition round_tripper_for_host ::
    "net_env \<Rightarrow> check_env \<Rightarrow> transport settings \<Rightarrow> string \<Rightarrow> round_tripper result" where
  "round_tripper_for_host env ce s host =
     bind_result (transport_for_host env s host) (\<lambda>tr. Inr (with_env_proxy ce s tr host))"

text \<open>
  One \<^verbatim>\<open>RoundTrip\<close> up to the connection: \<^verbatim>\<open>net/http\<close> asks the Proxy function, then dials the
  proxy (or the target) through \<^verbatim>\<open>DialContext\<close>.  The result is the proxy and the dialer used
  for the dial address \<open>addr\<close>.
\<close>

definition transport_dialer :: "transport \<Rightarrow> bool \<Rightarrow> string \<Rightarrow> dialer" where
  "transport_dialer t proxied addr = (case tr_dial t of None \<Rightarrow> Plain | Some f \<Rightarrow> f proxied addr)"

definition round_trip :: "check_env \<Rightarrow> round_tripper \<Rightarrow> request \<Rightarrow> string \<Rightarrow> (url option \<times> dialer) result" where
  "round_trip ce rt req addr =
     (case rt of
        NilRoundTripper \<Rightarrow> Inr (None, Plain)
      | PlainRoundTripper t \<Rightarrow>
          (case tr_proxy t of
             None \<Rightarrow> Inr (None, transport_dialer t False addr)
           | Some f \<Rightarrow> bind_result (f req) (\<lambda>u. Inr (u, transport_dialer t False addr)))
      | EnvProxyRoundTripper t orig g \<Rightarrow>
          (case env_proxy_func ce g orig req of
             (proxied, res) \<Rightarrow> bind_result res (\<lambda>u. Inr (u, transport_dialer t proxied addr))))"

definition base_proxy :: "net_env \<Rightarrow> transport settings \<Rightarrow> proxy_func option" where
  "base_proxy env s =
     (case http_transport s of
        Some t \<Rightarrow> tr_proxy t
      | None \<Rightarrow> (case default_transport env of Some t \<Rightarrow> tr_proxy t | None \<Rightarrow> None))"

definition env_proxy_applies :: "net_env \<Rightarrow> transport settings \<Rightarrow> string \<Rightarrow> string \<Rightarrow> string \<Rightarrow> bool" where
  "env_proxy_applies env s scheme host port =
     (if scheme \<noteq> ''http'' \<and> scheme \<noteq> ''https'' then False
      else if match_proxy s host \<noteq> None then False
      else case base_proxy env s of
        None \<Rightarrow> False
      | Some proxy \<Rightarrow>
          let authority = (if port \<noteq> [] then join_host_port host port
                           else if CHR '':'' \<in> set host then ''['' @ host @ '']'' else host)
          in (case proxy \<lparr>rq_url = empty_url\<lparr>u_scheme := scheme, u_host := authority\<rparr>, rq_host = []\<rparr> of
                Inr (Some _) \<Rightarrow> True | _ \<Rightarrow> False))"

section \<open>The connect probe and the pre-fetch check\<close>

text \<open>\<open>targets\<close> is what the host resolves to, \<open>reach\<close> what can be connected to in time.\<close>

definition probe_dialer :: "transport settings \<Rightarrow> string \<Rightarrow> dialer" where
  "probe_dialer s host =
     (let guard = ssrf_guard s in if enabled guard \<and> \<not> host_allowed guard host then Guarded guard else Plain)"

definition probe_connect_for ::
    "net_env \<Rightarrow> transport settings \<Rightarrow> (string \<Rightarrow> bool) \<Rightarrow> string list \<Rightarrow> string \<Rightarrow> string \<Rightarrow> string \<Rightarrow> goerr option" where
  "probe_connect_for env s reach targets scheme host port =
     (if connect_probe_timeout s \<le> 0 \<or> host = [] \<or> port = [] then None
      else if match_proxy s host \<noteq> None \<or> env_proxy_applies env s scheme host port then None
      else case dial_run (probe_dialer s host) reach targets of
        Some _ \<Rightarrow> None
      | None \<Rightarrow> Some (Errorf ''connect probe to %s failed: %w'' [join_host_port host port] []))"

definition probe_connect ::
    "net_env \<Rightarrow> transport settings \<Rightarrow> (string \<Rightarrow> bool) \<Rightarrow> string list \<Rightarrow> string \<Rightarrow> string \<Rightarrow> goerr option" where
  "probe_connect env s reach targets host port = probe_connect_for env s reach targets [] host port"

definition check_ssrf_host :: "transport settings \<Rightarrow> resolver \<Rightarrow> string \<Rightarrow> goerr option" where
  "check_ssrf_host s lookup host = check_host (ssrf_guard s) lookup host"

definition check_ssrf_host_for ::
    "net_env \<Rightarrow> check_env \<Rightarrow> transport settings \<Rightarrow> resolver \<Rightarrow> string \<Rightarrow> string \<Rightarrow> string \<Rightarrow> goerr option" where
  "check_ssrf_host_for env ce s lookup scheme host port =
     (if env_proxy_applies env s scheme host port
      then check_proxied_host (ce_idna ce) (ssrf_guard s) (ce_lookup ce) (ce_done ce) host
      else check_ssrf_host s lookup host)"

section \<open>Facts\<close>

lemma check_targets_None:
  "check_targets ce g hs = None \<longleftrightarrow>
     (\<forall>h\<in>set hs. check_proxied_host (ce_idna ce) g (ce_lookup ce) (ce_done ce) h = None)"
  by (induction hs) (auto split: option.splits)

lemma transport_for_host_dial:
  assumes "transport_for_host env s host = Inr (Some t)" and "enabled (ssrf_guard s)"
  shows "\<exists>exempt. tr_dial t = Some (\<lambda>_. dial_context (ssrf_guard s) exempt) \<and>
     (exempt = None \<or> (\<exists>p u. match_proxy s host = Some p \<and> px_url p = Some u \<and>
        exempt = exempt_host (url_hostname u)))"
  using assms
  by (auto simp: transport_for_host_def bind_result_Inr_iff Let_def layer_guard_def
      split: if_splits option.splits)

lemma transport_for_host_enabled:
  assumes "enabled (ssrf_guard s)"
  shows "transport_for_host env s host \<noteq> Inr None"
  using assms by (auto simp: transport_for_host_def bind_result_Inr_iff Let_def)

lemma exempt_host_Some: "exempt_host h = Some f \<Longrightarrow> f addr = equal_fold (host_of addr) h"
  by (auto simp: exempt_host_def host_of_def split: if_splits)

section \<open>Properties\<close>

text \<open>
  C8. With the guard on (the default), a transport built for a host never connects to a blocked
  address: the connection's address is not blocked, or the dial address is that of the proxy
  configured for the host, or its host is on the allow list.
\<close>

theorem transport_for_host_guarded:
  assumes "transport_for_host env s host = Inr (Some t)" and "enabled (ssrf_guard s)"
    and "dial_run (transport_dialer t proxied addr) reach targets = Some peer"
  shows "(\<exists>p u. match_proxy s host = Some p \<and> px_url p = Some u \<and> equal_fold (host_of addr) (url_hostname u)) \<or>
     host_allowed (ssrf_guard s) (host_of addr) \<or>
     (parse_ip (host_of peer) \<noteq> [] \<and> \<not> blocked (ssrf_guard s) (parse_ip (host_of peer)))"
proof -
  obtain exempt where ex: "tr_dial t = Some (\<lambda>_. dial_context (ssrf_guard s) exempt)"
    and cases: "exempt = None \<or> (\<exists>p u. match_proxy s host = Some p \<and> px_url p = Some u \<and>
      exempt = exempt_host (url_hostname u))"
    using transport_for_host_dial [OF assms(1,2)] by blast
  have "dial_run (dial_context (ssrf_guard s) exempt addr) reach targets = Some peer"
    using assms(3) by (simp add: transport_dialer_def ex)
  from dial_allowed [OF assms(2) this] show ?thesis
  proof (elim disjE exE conjE)
    fix f assume f: "exempt = Some f" "f addr"
    with cases obtain p u where pu: "match_proxy s host = Some p" "px_url p = Some u"
      "exempt_host (url_hostname u) = Some f" by auto
    with exempt_host_Some [OF pu(3), of addr] f show ?thesis by blast
  qed simp_all
qed

definition demo_env :: net_env where
  "demo_env = \<lparr>system_pool = Inr None, pem_ok = (\<lambda>_. False), x509_key_pair = (\<lambda>c k. Inr c),
     default_transport = Some empty_transport\<rparr>"

definition demo_default :: "transport settings" where
  "demo_default = default_settings ''/tmp''"

definition demo_transport :: transport where
  "demo_transport = empty_transport\<lparr>tr_dial := Some (\<lambda>_. dial_context (ssrf_guard demo_default) None)\<rparr>"

lemma demo_guard: "ssrf_guard demo_default = \<lparr>g_level = LevelInternal, g_custom = None,
    allow_hosts = [], allow_ips = [], allow_nets = []\<rparr>"
  by (simp add: demo_default_def default_settings_def ssrf_guard_def new_guard_def)

lemma demo_transport_for_host: "transport_for_host demo_env demo_default h = Inr (Some demo_transport)"
  by (simp add: transport_for_host_def ca_cert_pool_def demo_default_def default_settings_def
      match_client_certificate_def match_proxy_def layer_tls_def layer_guard_def layer_proxy_def
      base_transport_def demo_env_def demo_transport_def ssrf_guard_def new_guard_def enabled_def)

theorem transport_for_host_guarded_witness:
  "\<not> blocked (ssrf_guard demo_default) (parse_ip ''8.8.8.8'')"
proof -
  have e: "enabled (ssrf_guard demo_default)" by (simp add: demo_guard enabled_def)
  have r: "dial_run (transport_dialer demo_transport False ''evil.com:80'') (\<lambda>_. True)
      [''127.0.0.1:80'', ''8.8.8.8:80''] = Some ''8.8.8.8:80''"
    unfolding transport_dialer_def demo_transport_def demo_guard by code_simp
  have h: "host_of ''8.8.8.8:80'' = ''8.8.8.8''" by code_simp
  from transport_for_host_guarded [OF demo_transport_for_host e r] show ?thesis
    by (simp add: h host_allowed_def demo_guard) (simp add: demo_default_def default_settings_def match_proxy_def)
qed

text \<open>
  C19. A request that follows the environment's proxy settings is safe either way: if it goes
  through the proxy, every host the proxy can be told has passed the proxied check; if it does
  not, the connection is dialled under the guard with no exemption.
\<close>

theorem env_proxy_round_trip_checked:
  assumes "round_tripper_for_host env ce s host = Inr rt" and "enabled (ssrf_guard s)"
    and "match_proxy s host = None" and "round_trip ce rt req addr = Inr (u, d)"
  shows "(case u of
     None \<Rightarrow> d = dial_context (ssrf_guard s) None addr
   | Some _ \<Rightarrow> \<forall>h\<in>set (target_hosts req).
       check_proxied_host (ce_idna ce) (ssrf_guard s) (ce_lookup ce) (ce_done ce) h = None)"
proof -
  obtain tr where tr: "transport_for_host env s host = Inr tr" and rt: "rt = with_env_proxy ce s tr host"
    using assms(1) by (auto simp: round_tripper_for_host_def bind_result_Inr_iff)
  obtain t where t: "tr = Some t" using transport_for_host_enabled [OF assms(2)] tr by (cases tr) auto
  have dial: "tr_dial t = Some (\<lambda>_. dial_context (ssrf_guard s) None)"
    using transport_for_host_dial [OF tr [unfolded t] assms(2)] assms(3) by auto
  show ?thesis
    using assms(2-4) unfolding rt t
    by (auto simp: with_env_proxy_def round_trip_def env_proxy_func_def new_env_proxy_transport_def
        transport_dialer_def dial check_targets_None bind_result_Inr_iff
        split: option.splits sum.splits)
qed

theorem env_proxy_round_trip_checked_witness:
  "round_trip \<lparr>ce_idna = \<lparr>lookup_to_ascii = Inr, puny_to_ascii = Inr\<rparr>, ce_lookup = (\<lambda>_. Inr []), ce_done = False\<rparr>
     (with_env_proxy \<lparr>ce_idna = \<lparr>lookup_to_ascii = Inr, puny_to_ascii = Inr\<rparr>, ce_lookup = (\<lambda>_. Inr []), ce_done = False\<rparr>
        demo_default (Some demo_transport) ''h'') \<lparr>rq_url = empty_url, rq_host = []\<rparr> ''h:80'' =
   Inr (None, dial_context (ssrf_guard demo_default) None ''h:80'')"
proof -
  let ?ce = "\<lparr>ce_idna = \<lparr>lookup_to_ascii = Inr, puny_to_ascii = Inr\<rparr>, ce_lookup = (\<lambda>_. Inr []), ce_done = False\<rparr>"
  let ?rt = "with_env_proxy ?ce demo_default (Some demo_transport) ''h''"
  have rt: "round_tripper_for_host demo_env ?ce demo_default ''h'' = Inr ?rt"
    by (simp add: round_tripper_for_host_def demo_transport_for_host)
  have e: "enabled (ssrf_guard demo_default)" by (simp add: demo_guard enabled_def)
  have m: "match_proxy demo_default ''h'' = None"
    by (simp add: demo_default_def default_settings_def match_proxy_def)
  have "?rt = PlainRoundTripper demo_transport"
    by (simp add: with_env_proxy_def demo_transport_def empty_transport_def)
  then obtain d where d: "round_trip ?ce ?rt \<lparr>rq_url = empty_url, rq_host = []\<rparr> ''h:80'' = Inr (None, d)"
    by (simp add: round_trip_def demo_transport_def empty_transport_def)
  from env_proxy_round_trip_checked [OF rt e m d] d show ?thesis by simp
qed

text \<open>
  The connect probe does not become a way around the guard: when it reports a reachable host,
  it connected to an address that is not blocked, or the host is on the allow list.
\<close>

theorem probe_respects_guard:
  assumes "probe_connect_for env s reach targets scheme host port = None"
    and "0 < connect_probe_timeout s" and "host \<noteq> []" and "port \<noteq> []"
    and "match_proxy s host = None" and "\<not> env_proxy_applies env s scheme host port"
    and "enabled (ssrf_guard s)"
  shows "\<exists>t\<in>set targets. reach t \<and>
     (host_allowed (ssrf_guard s) host \<or>
      (parse_ip (host_of t) \<noteq> [] \<and> \<not> blocked (ssrf_guard s) (parse_ip (host_of t))))"
proof -
  obtain t where t: "dial_run (probe_dialer s host) reach targets = Some t"
    using assms by (auto simp: probe_connect_for_def split: option.splits)
  then show ?thesis
    using dial_run_Some [OF t] assms(7)
    by (auto simp: probe_dialer_def Let_def dialer_control_def control_None split: if_splits)
qed

theorem probe_respects_guard_witness:
  "\<exists>t\<in>set [''10.0.0.1:443'', ''8.8.8.8:443'']. True \<and>
     (host_allowed (ssrf_guard demo_default) ''h'' \<or>
      (parse_ip (host_of t) \<noteq> [] \<and> \<not> blocked (ssrf_guard demo_default) (parse_ip (host_of t))))"
proof -
  let ?s = "demo_default\<lparr>connect_probe_timeout := 1\<rparr>"
  have g: "ssrf_guard ?s = ssrf_guard demo_default" by (simp add: ssrf_guard_def)
  have m: "match_proxy ?s ''h'' = None"
    by (simp add: demo_default_def default_settings_def match_proxy_def)
  have n: "\<not> env_proxy_applies demo_env ?s [] ''h'' ''443''" by (simp add: env_proxy_applies_def)
  have "dial_run (probe_dialer ?s ''h'') (\<lambda>_. True) [''10.0.0.1:443'', ''8.8.8.8:443''] = Some ''8.8.8.8:443''"
    unfolding probe_dialer_def g demo_guard by code_simp
  then have p: "probe_connect_for demo_env ?s (\<lambda>_. True) [''10.0.0.1:443'', ''8.8.8.8:443''] [] ''h'' ''443'' = None"
    by (simp add: probe_connect_for_def)
  show ?thesis
    using probe_respects_guard [OF p _ _ _ m n] unfolding g
    by (simp add: demo_guard enabled_def)
qed

end
