(* ===== verification/Extract.thy ===== *)
theory Extract
  imports Files Small_Internal "HOL-Library.Word"
begin

unbundle bit_operations_syntax

text \<open>
  Archive extraction (\<^verbatim>\<open>extract/extract.go\<close>) on the file-system model.  The decompressors and
  the archive readers, which the code takes from the standard library and from third-party
  packages, are the fields of \<open>codecs\<close>: what each makes of the bytes it is given.
\<close>

section \<open>State and data\<close>

type_synonym file_mode = "32 word"

datatype tar_type = TypeDir | TypeReg | TypeSymlink | TypeLink | TypeXHeader | TypeXGlobalHeader | TypeOther

record tar_entry =
  te_name :: string
  te_type :: tar_type
  te_mode :: file_mode
  te_body :: reader

text \<open>The entries a tar reader yields, and how it ends (\<open>None\<close> is \<^verbatim>\<open>io.EOF\<close>).\<close>

type_synonym tar_stream = "tar_entry list \<times> goerr option"

record zip_entry =
  ze_name :: string
  ze_mode :: file_mode
  ze_open :: "reader result"

record codecs =
  gzip_reader :: "string \<Rightarrow> reader result"
  bzip2_reader :: "string \<Rightarrow> reader"
  xz_reader :: "string \<Rightarrow> reader result"
  zstd_reader :: "string \<Rightarrow> reader result"
  lz4_reader :: "string \<Rightarrow> reader"
  tar_reader :: "reader \<Rightarrow> tar_stream"
  zip_reader :: "string \<Rightarrow> zip_entry list result"

record extractor =
  ex_remaining :: int
  ex_limited :: bool

text \<open>How writing to each open file ends.\<close>

type_synonym disk = "fpath \<Rightarrow> writer"

type_synonym extracted = "extractor \<times> fs \<times> goerr option"

type_synonym extract_fun = "extractor \<Rightarrow> fs \<Rightarrow> string \<Rightarrow> string \<Rightarrow> extracted"

section \<open>Helpers\<close>

definition mode_perm :: "file_mode \<Rightarrow> file_mode" where
  "mode_perm m = m AND 0x1FF"

definition mode_is_dir :: "file_mode \<Rightarrow> bool" where
  "mode_is_dir m \<longleftrightarrow> m AND 0x80000000 \<noteq> 0"

definition safe_mode :: "file_mode \<Rightarrow> file_mode" where
  "safe_mode m = mode_perm m"

definition exceeds_error :: goerr where
  "exceeds_error = errors_new ''archive exceeds maximum extraction size''"

definition extract_write_file :: "disk \<Rightarrow> extractor \<Rightarrow> fs \<Rightarrow> string \<Rightarrow> reader \<Rightarrow> file_mode \<Rightarrow> extracted" where
  "extract_write_file disk e f path r mode =
     (case open_create f path (unat mode) of
        (g, Inl err) \<Rightarrow> (e, g, Some err)
      | (g, Inr p) \<Rightarrow>
          if \<not> ex_limited e
          then (case io_copy (disk p) r of (w, err) \<Rightarrow> (e, fs_write g p w, err))
          else (case io_copy (disk p) (limit_reader r (wrap64 (ex_remaining e + 1))) of
                  (w, Some err) \<Rightarrow> (e, fs_write g p w, Some err)
                | (w, None) \<Rightarrow>
                    if ex_remaining e < int (length w) then (e, fs_write g p w, Some exceeds_error)
                    else (e\<lparr>ex_remaining := ex_remaining e - int (length w)\<rparr>, fs_write g p w, None)))"

section \<open>Archives\<close>

definition mkdir_step :: "extractor \<Rightarrow> fs \<Rightarrow> string \<Rightarrow> file_mode \<Rightarrow> extracted" where
  "mkdir_step e f path mode = (case mkdir_all f path (unat mode) of (g, err) \<Rightarrow> (e, g, err))"

definition and_then :: "extracted \<Rightarrow> (extractor \<Rightarrow> fs \<Rightarrow> extracted) \<Rightarrow> extracted" where
  "and_then r k = (case r of (e, f, Some err) \<Rightarrow> (e, f, Some err) | (e, f, None) \<Rightarrow> k e f)"

definition untar_entry :: "disk \<Rightarrow> extractor \<Rightarrow> fs \<Rightarrow> string \<Rightarrow> tar_entry \<Rightarrow> extracted" where
  "untar_entry disk e f dst h =
     (case safe_join dst (te_name h) of
        Inl err \<Rightarrow> (e, f, Some (Errorf ''tar entry: %w'' [] [err]))
      | Inr target \<Rightarrow>
          (case te_type h of
             TypeDir \<Rightarrow> mkdir_step e f target (safe_mode (te_mode h))
           | TypeReg \<Rightarrow>
               and_then (mkdir_step e f (path_dir target) 0x1ED)
                 (\<lambda>e g. extract_write_file disk e g target (te_body h) (safe_mode (te_mode h)))
           | _ \<Rightarrow> (e, f, None)))"

fun untar_entries :: "disk \<Rightarrow> extractor \<Rightarrow> fs \<Rightarrow> string \<Rightarrow> tar_entry list \<Rightarrow> goerr option \<Rightarrow> extracted" where
  "untar_entries disk e f dst [] fin = (e, f, fin)"
| "untar_entries disk e f dst (h # hs) fin =
     and_then (untar_entry disk e f dst h) (\<lambda>e g. untar_entries disk e g dst hs fin)"

definition untar :: "codecs \<Rightarrow> disk \<Rightarrow> extractor \<Rightarrow> fs \<Rightarrow> reader \<Rightarrow> string \<Rightarrow> extracted" where
  "untar cd disk e f r dst = (case tar_reader cd r of (hs, fin) \<Rightarrow> untar_entries disk e f dst hs fin)"

text \<open>A file opened for reading.\<close>

abbreviation file_reader :: "string \<Rightarrow> reader" where
  "file_reader data \<equiv> \<lparr>rd_data = data, rd_end = None\<rparr>"

definition extract_tar :: "codecs \<Rightarrow> disk \<Rightarrow> extract_fun" where
  "extract_tar cd disk e f src dst =
     (case fs_read f src of
        Inl err \<Rightarrow> (e, f, Some err)
      | Inr data \<Rightarrow> untar cd disk e f (file_reader data) dst)"

definition extract_tar_gzip :: "codecs \<Rightarrow> disk \<Rightarrow> extract_fun" where
  "extract_tar_gzip cd disk e f src dst =
     (case fs_read f src of
        Inl err \<Rightarrow> (e, f, Some err)
      | Inr data \<Rightarrow>
          (case gzip_reader cd data of
             Inl err \<Rightarrow> (e, f, Some err)
           | Inr r \<Rightarrow> untar cd disk e f r dst))"

definition extract_tar_bzip2 :: "codecs \<Rightarrow> disk \<Rightarrow> extract_fun" where
  "extract_tar_bzip2 cd disk e f src dst =
     (case fs_read f src of
        Inl err \<Rightarrow> (e, f, Some err)
      | Inr data \<Rightarrow> untar cd disk e f (bzip2_reader cd data) dst)"

definition extract_tar_xz :: "codecs \<Rightarrow> disk \<Rightarrow> extract_fun" where
  "extract_tar_xz cd disk e f src dst =
     (case fs_read f src of
        Inl err \<Rightarrow> (e, f, Some err)
      | Inr data \<Rightarrow>
          (case xz_reader cd data of
             Inl err \<Rightarrow> (e, f, Some err)
           | Inr r \<Rightarrow> untar cd disk e f r dst))"

definition extract_tar_zstd :: "codecs \<Rightarrow> disk \<Rightarrow> extract_fun" where
  "extract_tar_zstd cd disk e f src dst =
     (case fs_read f src of
        Inl err \<Rightarrow> (e, f, Some err)
      | Inr data \<Rightarrow>
          (case zstd_reader cd data of
             Inl err \<Rightarrow> (e, f, Some err)
           | Inr r \<Rightarrow> untar cd disk e f r dst))"

definition extract_tar_lz4 :: "codecs \<Rightarrow> disk \<Rightarrow> extract_fun" where
  "extract_tar_lz4 cd disk e f src dst =
     (case fs_read f src of
        Inl err \<Rightarrow> (e, f, Some err)
      | Inr data \<Rightarrow> untar cd disk e f (lz4_reader cd data) dst)"

definition zip_step :: "disk \<Rightarrow> extractor \<Rightarrow> fs \<Rightarrow> string \<Rightarrow> zip_entry \<Rightarrow> extracted" where
  "zip_step disk e f dst z =
     (case safe_join dst (ze_name z) of
        Inl err \<Rightarrow> (e, f, Some (Errorf ''zip entry: %w'' [] [err]))
      | Inr target \<Rightarrow>
          if mode_is_dir (ze_mode z) then mkdir_step e f target (safe_mode (ze_mode z))
          else and_then (mkdir_step e f (path_dir target) 0x1ED)
                 (\<lambda>e g. case ze_open z of
                    Inl err \<Rightarrow> (e, g, Some err)
                  | Inr rc \<Rightarrow> extract_write_file disk e g target rc (safe_mode (ze_mode z))))"

fun zip_entries :: "disk \<Rightarrow> extractor \<Rightarrow> fs \<Rightarrow> string \<Rightarrow> zip_entry list \<Rightarrow> extracted" where
  "zip_entries disk e f dst [] = (e, f, None)"
| "zip_entries disk e f dst (z # zs) =
     and_then (zip_step disk e f dst z) (\<lambda>e g. zip_entries disk e g dst zs)"

definition extract_zip :: "codecs \<Rightarrow> disk \<Rightarrow> extract_fun" where
  "extract_zip cd disk e f src dst =
     (case fs_read f src of
        Inl err \<Rightarrow> (e, f, Some err)
      | Inr data \<Rightarrow>
          (case zip_reader cd data of
             Inl err \<Rightarrow> (e, f, Some err)
           | Inr zs \<Rightarrow> zip_entries disk e f dst zs))"

section \<open>Single compressed files\<close>

definition out_path :: "string \<Rightarrow> string \<Rightarrow> string \<Rightarrow> string" where
  "out_path src dst ext = path_join [dst, trim_suffix (path_base src) ext]"

definition extract_gzip :: "codecs \<Rightarrow> disk \<Rightarrow> extract_fun" where
  "extract_gzip cd disk e f src dst =
     (case fs_read f src of
        Inl err \<Rightarrow> (e, f, Some err)
      | Inr data \<Rightarrow>
          (case gzip_reader cd data of
             Inl err \<Rightarrow> (e, f, Some err)
           | Inr r \<Rightarrow> extract_write_file disk e f (out_path src dst ''.gz'') r 0x1A4))"

definition extract_bzip2 :: "codecs \<Rightarrow> disk \<Rightarrow> extract_fun" where
  "extract_bzip2 cd disk e f src dst =
     (case fs_read f src of
        Inl err \<Rightarrow> (e, f, Some err)
      | Inr data \<Rightarrow> extract_write_file disk e f (out_path src dst ''.bz2'') (bzip2_reader cd data) 0x1A4)"

definition extract_xz :: "codecs \<Rightarrow> disk \<Rightarrow> extract_fun" where
  "extract_xz cd disk e f src dst =
     (case fs_read f src of
        Inl err \<Rightarrow> (e, f, Some err)
      | Inr data \<Rightarrow>
          (case xz_reader cd data of
             Inl err \<Rightarrow> (e, f, Some err)
           | Inr r \<Rightarrow> extract_write_file disk e f (out_path src dst ''.xz'') r 0x1A4))"

definition extract_zstd :: "codecs \<Rightarrow> disk \<Rightarrow> extract_fun" where
  "extract_zstd cd disk e f src dst =
     (case fs_read f src of
        Inl err \<Rightarrow> (e, f, Some err)
      | Inr data \<Rightarrow>
          (case zstd_reader cd data of
             Inl err \<Rightarrow> (e, f, Some err)
           | Inr r \<Rightarrow> extract_write_file disk e f (out_path src dst ''.zst'') r 0x1A4))"

definition extract_lz4 :: "codecs \<Rightarrow> disk \<Rightarrow> extract_fun" where
  "extract_lz4 cd disk e f src dst =
     (case fs_read f src of
        Inl err \<Rightarrow> (e, f, Some err)
      | Inr data \<Rightarrow> extract_write_file disk e f (out_path src dst ''.lz4'') (lz4_reader cd data) 0x1A4)"

section \<open>The entry points\<close>

definition extractors :: "codecs \<Rightarrow> disk \<Rightarrow> (string \<times> extract_fun) list" where
  "extractors cd disk =
     [(''tar'', extract_tar cd disk), (''tar.gz'', extract_tar_gzip cd disk), (''tgz'', extract_tar_gzip cd disk),
      (''tar.bz2'', extract_tar_bzip2 cd disk), (''tbz2'', extract_tar_bzip2 cd disk),
      (''tar.xz'', extract_tar_xz cd disk), (''txz'', extract_tar_xz cd disk),
      (''tar.zst'', extract_tar_zstd cd disk), (''tzst'', extract_tar_zstd cd disk),
      (''tar.lz4'', extract_tar_lz4 cd disk), (''zip'', extract_zip cd disk),
      (''gz'', extract_gzip cd disk), (''bz2'', extract_bzip2 cd disk), (''xz'', extract_xz cd disk),
      (''zst'', extract_zstd cd disk), (''lz4'', extract_lz4 cd disk)]"

definition compound_extensions :: "string list" where
  "compound_extensions = [''tar.gz'', ''tar.bz2'', ''tar.xz'', ''tar.zst'', ''tar.lz4'']"

definition detect_extension :: "string \<Rightarrow> string" where
  "detect_extension name =
     (let lower = to_lower name
      in case List.find (\<lambda>ext. has_suffix lower (''.'' @ ext)) compound_extensions of
           Some ext \<Rightarrow> ext
         | None \<Rightarrow> trim_prefix (path_ext lower) ''.'')"

definition extract_with_limit :: "codecs \<Rightarrow> disk \<Rightarrow> fs \<Rightarrow> string \<Rightarrow> string \<Rightarrow> int \<Rightarrow> fs \<times> bool \<times> goerr option" where
  "extract_with_limit cd disk f src dst max_bytes =
     (case map_of (extractors cd disk) (detect_extension src) of
        None \<Rightarrow> (f, False, None)
      | Some fn \<Rightarrow>
          (case fn \<lparr>ex_remaining = max_bytes, ex_limited = 0 < max_bytes\<rparr> f src dst of
             (_, g, err) \<Rightarrow> (g, True, err)))"

definition extract_unlimited :: "codecs \<Rightarrow> disk \<Rightarrow> fs \<Rightarrow> string \<Rightarrow> string \<Rightarrow> fs \<times> bool \<times> goerr option" where
  "extract_unlimited cd disk f src dst = extract_with_limit cd disk f src dst 0"

section \<open>One entry\<close>

definition kept :: "fpath \<Rightarrow> fs \<Rightarrow> extracted \<Rightarrow> bool" where
  "kept root f r \<longleftrightarrow> (case r of (_, g, _) \<Rightarrow> confined root f g \<and> link_free root g)"

lemma kept_refl [simp]: "kept root f (e, f, err) \<longleftrightarrow> link_free root f"
  by (simp add: kept_def)

lemma kept_and_then:
  assumes "kept root f r" and "\<And>e g. link_free root g \<Longrightarrow> kept root g (k e g)"
  shows "kept root f (and_then r k)"
proof -
  obtain e g err where r: "r = (e, g, err)" by (cases r)
  have g: "confined root f g" "link_free root g" using assms(1) r by (auto simp: kept_def)
  obtain e2 h err2 where k: "k e g = (e2, h, err2)" by (cases "k e g")
  have "confined root f h" "link_free root h"
    using assms(2) [OF g(2), of e] confined_trans [OF g(1)] k by (auto simp: kept_def)
  with g r k show ?thesis by (simp add: and_then_def kept_def split: option.splits)
qed

lemma mkdir_step_kept:
  assumes "plain_comps cs" and "prefix root cs" and "link_free root f"
  shows "kept root f (mkdir_step e f (abs_path cs) m)" "kept root f (mkdir_step e f (path_dir (abs_path cs)) m)"
  using mkdir_at [OF assms] mkdir_above [OF assms] by (auto simp: mkdir_step_def kept_def split: prod.splits)

lemma write_file_kept:
  assumes "plain_comps cs" and "prefix root cs" and "link_free root f"
  shows "kept root f (extract_write_file disk e f (abs_path cs) r m)"
proof -
  obtain g res where o: "open_create f (abs_path cs) (unat m) = (g, res)" by fastforce
  note g = open_create_confined [OF assms(1,3,2) o avoids_empty]
  have w: "confined root f (fs_write g p d) \<and> link_free root (fs_write g p d)" if "res = Inr p" for p d
    using g write_confined [where root = root and p = p and f = g and d = d] assms(2) confined_trans that by blast
  show ?thesis
  proof (cases res)
    case (Inl a)
    then show ?thesis using g o by (simp add: extract_write_file_def kept_def)
  next
    case (Inr p)
    then show ?thesis using w [OF Inr] o
      by (auto simp: extract_write_file_def kept_def split: prod.splits option.splits if_splits)
  qed
qed

section \<open>What an archive holds\<close>

text \<open>
  The members of an archive, whatever its format: a directory, a file with its content (or the error
  of opening it), or an entry that is passed over.
\<close>

datatype member =
    Directory string file_mode
  | Content string file_mode "reader result"
  | Passed_Over string

definition tar_member :: "tar_entry \<Rightarrow> member" where
  "tar_member h =
     (case te_type h of
        TypeDir \<Rightarrow> Directory (te_name h) (te_mode h)
      | TypeReg \<Rightarrow> Content (te_name h) (te_mode h) (Inr (te_body h))
      | _ \<Rightarrow> Passed_Over (te_name h))"

definition zip_member :: "zip_entry \<Rightarrow> member" where
  "zip_member z =
     (if mode_is_dir (ze_mode z) then Directory (ze_name z) (ze_mode z)
      else Content (ze_name z) (ze_mode z) (ze_open z))"

fun member_name :: "member \<Rightarrow> string" where
  "member_name (Directory n m) = n"
| "member_name (Content n m r) = n"
| "member_name (Passed_Over n) = n"

fun member_bytes :: "member \<Rightarrow> int" where
  "member_bytes (Content n m (Inr r)) = int (length (rd_data r))"
| "member_bytes x = 0"

lemma member_bytes_nonneg: "0 \<le> member_bytes x"
  by (cases x rule: member_bytes.cases) auto

text \<open>
  Unpacking members one by one, up to the first error; \<open>fin\<close> is how the listing of the members
  ends, and \<open>fmt\<close> the format of a refusal.
\<close>

definition unpack_member :: "string \<Rightarrow> disk \<Rightarrow> extractor \<Rightarrow> fs \<Rightarrow> string \<Rightarrow> member \<Rightarrow> extracted" where
  "unpack_member fmt disk e f dst x =
     (case safe_join dst (member_name x) of
        Inl err \<Rightarrow> (e, f, Some (Errorf fmt [] [err]))
      | Inr target \<Rightarrow>
          (case x of
             Directory _ m \<Rightarrow> mkdir_step e f target (safe_mode m)
           | Content _ m body \<Rightarrow>
               and_then (mkdir_step e f (path_dir target) 0x1ED)
                 (\<lambda>e g. case body of
                    Inl err \<Rightarrow> (e, g, Some err)
                  | Inr r \<Rightarrow> extract_write_file disk e g target r (safe_mode m))
           | Passed_Over _ \<Rightarrow> (e, f, None)))"

fun unpack :: "string \<Rightarrow> disk \<Rightarrow> extractor \<Rightarrow> fs \<Rightarrow> string \<Rightarrow> member list \<Rightarrow> goerr option \<Rightarrow> extracted" where
  "unpack fmt disk e f dst [] fin = (e, f, fin)"
| "unpack fmt disk e f dst (x # xs) fin =
     and_then (unpack_member fmt disk e f dst x) (\<lambda>e g. unpack fmt disk e g dst xs fin)"

section \<open>The interface of an archive format\<close>

text \<open>
  What is said of the unpacking of members holds for a format whose step unpacks the member that
  an entry stands for, and whose run goes through the entries in order and stops at the first error.
\<close>

locale archive_format =
  fixes step :: "extractor \<Rightarrow> fs \<Rightarrow> string \<Rightarrow> 'entry \<Rightarrow> extracted"
    and run :: "extractor \<Rightarrow> fs \<Rightarrow> string \<Rightarrow> 'entry list \<Rightarrow> extracted"
    and member :: "'entry \<Rightarrow> member"
    and fmt :: string
    and disk :: disk
    and fin :: "goerr option"
  assumes run_Nil: "run e f dst [] = (e, f, fin)"
    and run_Cons: "run e f dst (x # xs) = and_then (step e f dst x) (\<lambda>e g. run e g dst xs)"
    and step_member: "step e f dst x = unpack_member fmt disk e f dst (member x)"
begin

lemma run_unpack: "run e f dst xs = unpack fmt disk e f dst (map member xs) fin"
  by (induction xs arbitrary: e f) (simp_all add: run_Nil run_Cons step_member)

end

interpretation tar: archive_format
  "untar_entry disk" "\<lambda>e f dst hs. untar_entries disk e f dst hs fin" tar_member "''tar entry: %w''" disk fin
  for disk fin
proof unfold_locales
  show "untar_entry disk e f dst h = unpack_member ''tar entry: %w'' disk e f dst (tar_member h)" for e f dst h
    by (cases "te_type h") (simp_all add: untar_entry_def unpack_member_def tar_member_def split: sum.split)
qed simp_all

interpretation zip: archive_format "zip_step disk" "zip_entries disk" zip_member "''zip entry: %w''" disk None
  for disk
proof unfold_locales
  show "zip_step disk e f dst z = unpack_member ''zip entry: %w'' disk e f dst (zip_member z)" for e f dst z
    by (simp add: zip_step_def unpack_member_def zip_member_def split: sum.split)
qed simp_all

text \<open>The contents of a file with an archive extension: its format, its members and how their listing ends.\<close>

definition tar_contents :: "codecs \<Rightarrow> reader \<Rightarrow> string \<times> member list \<times> goerr option" where
  "tar_contents cd r = (case tar_reader cd r of (hs, fin) \<Rightarrow> (''tar entry: %w'', map tar_member hs, fin))"

definition archive_contents :: "codecs \<Rightarrow> string \<Rightarrow> string \<Rightarrow> (string \<times> member list \<times> goerr option) result" where
  "archive_contents cd ext data =
     (if ext = ''zip'' then bind_result (zip_reader cd data) (\<lambda>zs. Inr (''zip entry: %w'', map zip_member zs, None))
      else bind_result
        (if ext \<in> {''tar.gz'', ''tgz''} then gzip_reader cd data
         else if ext \<in> {''tar.bz2'', ''tbz2''} then Inr (bzip2_reader cd data)
         else if ext \<in> {''tar.xz'', ''txz''} then xz_reader cd data
         else if ext \<in> {''tar.zst'', ''tzst''} then zstd_reader cd data
         else if ext = ''tar.lz4'' then Inr (lz4_reader cd data)
         else Inr (file_reader data))
        (\<lambda>r. Inr (tar_contents cd r)))"

definition single_extensions :: "string list" where
  "single_extensions = [''gz'', ''bz2'', ''xz'', ''zst'', ''lz4'']"

definition single_contents :: "codecs \<Rightarrow> string \<Rightarrow> string \<Rightarrow> reader result" where
  "single_contents cd ext data =
     (if ext = ''gz'' then gzip_reader cd data
      else if ext = ''bz2'' then Inr (bzip2_reader cd data)
      else if ext = ''xz'' then xz_reader cd data
      else if ext = ''zst'' then zstd_reader cd data
      else Inr (lz4_reader cd data))"

text \<open>Every extractor of the table, told by what its file holds.\<close>

definition extractor_spec :: "codecs \<Rightarrow> disk \<Rightarrow> string \<Rightarrow> extract_fun" where
  "extractor_spec cd disk ext e f src dst =
     (case fs_read f src of
        Inl err \<Rightarrow> (e, f, Some err)
      | Inr data \<Rightarrow>
          if ext \<in> set single_extensions
          then (case single_contents cd ext data of
                  Inl err \<Rightarrow> (e, f, Some err)
                | Inr r \<Rightarrow> extract_write_file disk e f (out_path src dst (''.'' @ ext)) r 0x1A4)
          else (case archive_contents cd ext data of
                  Inl err \<Rightarrow> (e, f, Some err)
                | Inr (fmt, ms, fin) \<Rightarrow> unpack fmt disk e f dst ms fin))"

lemma untar_contents: "untar cd disk e f r dst = (case tar_contents cd r of (fmt, ms, fin) \<Rightarrow> unpack fmt disk e f dst ms fin)"
  by (simp add: untar_def tar_contents_def tar.run_unpack split: prod.split)

lemmas extractor_defs =
  extract_tar_def extract_tar_gzip_def extract_tar_bzip2_def extract_tar_xz_def extract_tar_zstd_def
  extract_tar_lz4_def extract_zip_def extract_gzip_def extract_bzip2_def extract_xz_def extract_zstd_def extract_lz4_def

lemma extractors_spec:
  assumes "map_of (extractors cd disk) ext = Some fn"
  shows "fn e f src dst = extractor_spec cd disk ext e f src dst"
proof -
  have "list_all (\<lambda>(ext, fn). fn e f src dst = extractor_spec cd disk ext e f src dst) (extractors cd disk)"
    by (cases "fs_read f src")
      (simp_all add: extractors_def extractor_defs extractor_spec_def single_extensions_def single_contents_def
        archive_contents_def untar_contents zip.run_unpack bind_result_def split: sum.split prod.split)
  then show ?thesis using map_of_SomeD [OF assms] by (auto simp: list_all_iff)
qed

section \<open>Unpacking stays under the destination\<close>

lemma unpack_member_kept:
  assumes "plain_comps root" and "link_free root f"
  shows "kept root f (unpack_member fmt disk e f (abs_path root) x)"
proof (cases "safe_join (abs_path root) (member_name x)")
  case (Inl a)
  then show ?thesis using assms by (simp add: unpack_member_def)
next
  case (Inr t)
  obtain q where t: "t = abs_path (root @ q)" "plain_comps (root @ q)"
    using safe_join_abs [OF Inr assms(1)] by blast
  note k = mkdir_step_kept [OF t(2) _ assms(2)] write_file_kept [OF t(2)]
  show ?thesis using assms(2) Inr
    by (auto simp: unpack_member_def t(1) split: member.split sum.split intro!: k kept_and_then)
qed

lemma unpack_kept:
  "plain_comps root \<Longrightarrow> link_free root f \<Longrightarrow> kept root f (unpack fmt disk e f (abs_path root) xs fin)"
  by (induction xs arbitrary: e f) (auto intro!: kept_and_then unpack_member_kept)

section \<open>The budget\<close>

text \<open>The bytes of the regular files of a file system.\<close>

fun node_bytes :: "fnode \<Rightarrow> int" where
  "node_bytes (Regular m d) = int (length d)"
| "node_bytes _ = 0"

definition fs_bytes :: "fs \<Rightarrow> int" where
  "fs_bytes f = sum_list (map (\<lambda>(p, n). node_bytes n) (fs_nodes f))"

lemma node_bytes_nonneg [simp]: "0 \<le> node_bytes n"
  by (cases n) simp_all

lemma bytes_without:
  "sum_list (map (\<lambda>(p, n). node_bytes n) (filter (\<lambda>(q, _). q \<noteq> p) m)) +
     (case map_of m p of None \<Rightarrow> 0 | Some n \<Rightarrow> node_bytes n) \<le> sum_list (map (\<lambda>(p, n). node_bytes n) m)"
proof (induction m)
  case (Cons x m)
  have "0 \<le> (case map_of m p of None \<Rightarrow> 0 | Some n \<Rightarrow> node_bytes n)" by (simp split: option.split)
  then show ?case using Cons by (cases x) auto
qed simp

lemma fs_bytes_set:
  "p \<noteq> [] \<Longrightarrow> fs_bytes (fs_set f p n) \<le> fs_bytes f - (case fs_get f p of None \<Rightarrow> 0 | Some k \<Rightarrow> node_bytes k) + node_bytes n"
  using bytes_without [of p "fs_nodes f"] by (simp add: fs_bytes_def fs_set_def fs_get_def map_put_def)

lemma fs_mkdir_bytes: "fs_bytes (fst (fs_mkdir f s m)) \<le> fs_bytes f"
proof (cases "resolve f False s")
  case (Inr p)
  then show ?thesis
    using fs_bytes_set [of p f "Dir m"] parent_ok_not_root [of f p] by (auto simp: fs_mkdir_def split: option.split)
qed (simp add: fs_mkdir_def)

lemma mkdir_all_bytes: "mkdir_all f s m = (g, e) \<Longrightarrow> fs_bytes g \<le> fs_bytes f"
proof -
  have "fs_bytes (fst (fs_mkdir g s m)) \<le> fs_bytes f" if "fs_bytes g \<le> fs_bytes f" for g s m
    using fs_mkdir_bytes [of g s m] that by (rule order_trans)
  then have "fs_bytes (fst (mkdir_all f s m)) \<le> fs_bytes f"
    by (rule mkdir_all_preserves [where I = "\<lambda>g. fs_bytes g \<le> fs_bytes f"]) simp_all
  then show "mkdir_all f s m = (g, e) \<Longrightarrow> fs_bytes g \<le> fs_bytes f" by simp
qed

lemma open_create_bytes:
  assumes "open_create f s m = (g, r)"
  shows "fs_bytes g \<le> fs_bytes f"
proof (cases "resolve f True s")
  case (Inr p)
  show ?thesis
  proof (cases "fs_get f p")
    case None
    then show ?thesis
      using assms Inr fs_bytes_set [of p f "Regular m []"] parent_ok_not_root [of f p] by (auto simp: open_create_def split: if_splits)
  next
    case (Some n)
    show ?thesis
    proof (cases n)
      case (Regular k d)
      then have "p \<noteq> []" using Some by (auto simp: fs_get_def)
      then show ?thesis
        using assms Inr Some Regular fs_bytes_set [of p f "Regular k []"] by (auto simp: open_create_def)
    qed (use assms Inr Some in \<open>simp_all add: open_create_def\<close>)
  qed
qed (use assms in \<open>simp add: open_create_def\<close>)

lemma fs_write_bytes: "fs_bytes (fs_write f p d) \<le> fs_bytes f + int (length d)"
proof (cases "\<exists>m x. fs_get f p = Some (Regular m x)")
  case True
  then obtain m x where x: "fs_get f p = Some (Regular m x)" by blast
  then have "p \<noteq> []" by (auto simp: fs_get_def)
  then show ?thesis using fs_bytes_set [of p f "Regular m (x @ d)"] x by (simp add: fs_write_def)
qed (auto simp: fs_write_def split: option.split fnode.split)

text \<open>What may still be written, and what is left after a file.\<close>

definition budget_ok :: "extractor \<Rightarrow> bool" where
  "budget_ok e \<longleftrightarrow> ex_limited e \<and> 0 \<le> ex_remaining e \<and> ex_remaining e < max_int64"

definition spent :: "extractor \<Rightarrow> int \<Rightarrow> extractor" where
  "spent e n = e\<lparr>ex_remaining := ex_remaining e - n\<rparr>"

lemma spent_simps [simp]: "spent (spent e m) n = spent e (m + n)" "spent e 0 = e" "ex_remaining (spent e n) = ex_remaining e - n"
  by (simp_all add: spent_def)

text \<open>
  \<open>within e f n r\<close>: a run on \<open>f\<close> with the budget \<open>e\<close> that ended in \<open>r\<close>, for entries of \<open>n\<close> bytes:
  never more than one byte beyond the budget on the disk, and on success the entries and no more.
\<close>

definition within :: "extractor \<Rightarrow> fs \<Rightarrow> int \<Rightarrow> extracted \<Rightarrow> bool" where
  "within e f n r \<longleftrightarrow>
     (case r of (e', g, err) \<Rightarrow>
        fs_bytes g \<le> fs_bytes f + ex_remaining e + 1 \<and>
        (err = None \<longrightarrow> e' = spent e n \<and> n \<le> ex_remaining e \<and> fs_bytes g \<le> fs_bytes f + n))"

lemma within_error: "0 \<le> ex_remaining e \<Longrightarrow> fs_bytes g \<le> fs_bytes f \<Longrightarrow> within e f n (e', g, Some err)"
  by (simp add: within_def)

lemma within_and_then:
  assumes "within e f m r" and "0 \<le> m" and "budget_ok e"
    and "\<And>g. budget_ok (spent e m) \<Longrightarrow> within (spent e m) g n (k (spent e m) g)"
  shows "within e f (m + n) (and_then r k)"
proof -
  obtain e1 g err where r: "r = (e1, g, err)" by (cases r)
  show ?thesis
  proof (cases err)
    case None
    then have w: "e1 = spent e m" "m \<le> ex_remaining e" "fs_bytes g \<le> fs_bytes f + m" using assms(1) r by (auto simp: within_def)
    then have "budget_ok (spent e m)" using assms(2,3) by (auto simp: budget_ok_def spent_def)
    then show ?thesis
      using assms(4) [of g] w r None by (cases "k (spent e m) g") (auto simp: within_def and_then_def)
  qed (use assms(1) r in \<open>simp add: within_def and_then_def\<close>)
qed

lemma mkdir_step_within: "budget_ok e \<Longrightarrow> within e f 0 (mkdir_step e f p m)"
  using mkdir_all_bytes [of f p "unat m"] by (auto simp: mkdir_step_def within_def budget_ok_def split: prod.split)

lemma wrap_budget: "budget_ok e \<Longrightarrow> wrap64 (ex_remaining e + 1) = ex_remaining e + 1"
  by (intro wrap64_id) (auto simp: budget_ok_def max_int64_def)

lemma write_file_within:
  assumes "budget_ok e"
  shows "within e f (int (length (rd_data r))) (extract_write_file disk e f path r m)"
proof -
  let ?n = "ex_remaining e + 1"
  have e: "ex_limited e" "0 \<le> ex_remaining e" using assms by (simp_all add: budget_ok_def)
  obtain h res where o: "open_create f path (unat m) = (h, res)" by fastforce
  note h = open_create_bytes [OF o]
  show ?thesis
  proof (cases res)
    case (Inl err)
    then show ?thesis using o h e by (simp add: extract_write_file_def within_error)
  next
    case (Inr p)
    obtain d err where c: "io_copy (disk p) (limit_reader r ?n) = (d, err)" by fastforce
    have "length d \<le> length (rd_data (limit_reader r ?n))"
      using has_prefix_length [OF io_copy_prefix [of "limit_reader r ?n" "disk p"]] c by simp
    then have d: "int (length d) \<le> ?n" using limit_reader_length [of ?n r] e by simp
    have g: "fs_bytes (fs_write h p d) \<le> fs_bytes f + int (length d)" using fs_write_bytes [of h p d] h by simp
    have all: "d = rd_data r" if "err = None" "int (length d) \<le> ex_remaining e"
    proof -
      have "d = rd_data (limit_reader r ?n)" using io_copy_None_err [of "disk p" "limit_reader r ?n"] c that(1) by simp
      then show ?thesis using that(2) e by (auto simp: limit_reader_def split: if_splits)
    qed
    show ?thesis
      using o Inr c d g all e wrap_budget [OF assms]
      by (auto simp: extract_write_file_def within_def spent_def split: option.split)
  qed
qed

lemma unpack_member_within:
  assumes "budget_ok e"
  shows "within e f (member_bytes x) (unpack_member fmt disk e f dst x)"
proof (cases "safe_join dst (member_name x)")
  case (Inl err)
  then show ?thesis using assms by (simp add: unpack_member_def within_error budget_ok_def)
next
  case (Inr t)
  have cont: "within e f (0 + member_bytes (Content n m body)) (and_then (mkdir_step e f (path_dir t) 0x1ED)
      (\<lambda>e g. case body of Inl err \<Rightarrow> (e, g, Some err) | Inr r \<Rightarrow> extract_write_file disk e g t r (safe_mode m)))" for n m body
    using write_file_within assms
    by (intro within_and_then mkdir_step_within) (auto simp: within_error budget_ok_def split: sum.split)
  show ?thesis
    using Inr mkdir_step_within [OF assms] cont assms
    by (cases x) (auto simp: unpack_member_def within_def budget_ok_def)
qed

lemma unpack_within: "budget_ok e \<Longrightarrow> within e f (sum_list (map member_bytes xs)) (unpack fmt disk e f dst xs fin)"
proof (induction xs arbitrary: e f)
  case Nil
  then show ?case by (auto simp: within_def budget_ok_def)
next
  case (Cons x xs)
  show ?case
    unfolding unpack.simps list.map sum_list.Cons
    by (rule within_and_then [OF unpack_member_within [OF Cons.prems] member_bytes_nonneg Cons.prems]) (rule Cons.IH)
qed

text \<open>A budget that suffices makes no difference: \<open>u\<close> is an extraction without one.\<close>

lemma write_file_unlimited:
  assumes "budget_ok e" and "\<not> ex_limited u" and "int (length (rd_data r)) \<le> ex_remaining e"
  shows "snd (extract_write_file disk e f path r m) = snd (extract_write_file disk u f path r m) \<and>
    fst (extract_write_file disk u f path r m) = u"
proof -
  have l: "limit_reader r (wrap64 (ex_remaining e + 1)) = r"
    using wrap_budget [OF assms(1)] assms(3) by (simp add: limit_reader_all)
  have "length d \<le> length (rd_data r)" if "io_copy w r = (d, err)" for w d err
    using has_prefix_length [OF io_copy_prefix [of r w]] that by simp
  then have "int (length d) \<le> ex_remaining e" if "io_copy w r = (d, err)" for w d err
    using that assms(3) by fastforce
  then show ?thesis
    using assms(1,2) l by (fastforce simp: extract_write_file_def budget_ok_def split: prod.split sum.split option.split)
qed

lemma unpack_member_unlimited:
  assumes "budget_ok e" and "\<not> ex_limited u" and "member_bytes x \<le> ex_remaining e"
  shows "snd (unpack_member fmt disk e f dst x) = snd (unpack_member fmt disk u f dst x) \<and>
    fst (unpack_member fmt disk u f dst x) = u"
proof -
  note w = write_file_unlimited [OF assms(1,2)]
  show ?thesis
    using assms(3) w
    by (auto simp: unpack_member_def mkdir_step_def and_then_def split: sum.split member.split prod.split option.split)
qed

lemma unpack_unlimited:
  "budget_ok e \<Longrightarrow> \<not> ex_limited u \<Longrightarrow> sum_list (map member_bytes xs) \<le> ex_remaining e \<Longrightarrow>
   snd (unpack fmt disk e f dst xs fin) = snd (unpack fmt disk u f dst xs fin)"
proof (induction xs arbitrary: e f)
  case (Cons x xs)
  have "0 \<le> sum_list (map member_bytes xs)" by (rule sum_list_nonneg) (auto simp: member_bytes_nonneg)
  then have x: "member_bytes x \<le> ex_remaining e" using Cons.prems(3) by simp
  obtain e1 g err where r: "unpack_member fmt disk e f dst x = (e1, g, err)" by (metis prod_cases3)
  have u: "unpack_member fmt disk u f dst x = (u, g, err)"
    using unpack_member_unlimited [OF Cons.prems(1,2) x, of fmt disk f dst] r
    by (metis fst_conv prod.collapse snd_conv)
  show ?case
  proof (cases err)
    case None
    then have "e1 = spent e (member_bytes x)" using unpack_member_within [OF Cons.prems(1), of f x fmt disk dst] r by (simp add: within_def)
    moreover from this have "budget_ok e1" using Cons.prems(1) x member_bytes_nonneg [of x] by (auto simp: budget_ok_def spent_def)
    ultimately have "snd (unpack fmt disk e1 g dst xs fin) = snd (unpack fmt disk u g dst xs fin)"
      using Cons.IH [of e1 g] Cons.prems(2,3) by simp
    then show ?thesis using r u None by (simp add: and_then_def)
  qed (use r u in \<open>simp add: and_then_def\<close>)
qed simp

text \<open>The bytes the file \<open>src\<close> holds once decompressed and unpacked.\<close>

definition unpacked_bytes :: "codecs \<Rightarrow> fs \<Rightarrow> string \<Rightarrow> int" where
  "unpacked_bytes cd f src =
     (case fs_read f src of
        Inl _ \<Rightarrow> 0
      | Inr data \<Rightarrow>
          (let ext = detect_extension src
           in if ext \<in> set single_extensions
              then (case single_contents cd ext data of Inl _ \<Rightarrow> 0 | Inr r \<Rightarrow> int (length (rd_data r)))
              else (case archive_contents cd ext data of Inl _ \<Rightarrow> 0 | Inr (_, ms, _) \<Rightarrow> sum_list (map member_bytes ms))))"

lemma extractor_within:
  assumes "budget_ok e"
  shows "within e f (unpacked_bytes cd f src) (extractor_spec cd disk (detect_extension src) e f src dst)"
proof -
  have "0 \<le> ex_remaining e" using assms by (simp add: budget_ok_def)
  then show ?thesis
    using unpack_within [OF assms] write_file_within [OF assms]
    by (auto simp: extractor_spec_def unpacked_bytes_def within_error split: sum.split prod.split)
qed

lemma extractor_unlimited:
  assumes "budget_ok e" and "\<not> ex_limited u" and "unpacked_bytes cd f src \<le> ex_remaining e"
  shows "snd (extractor_spec cd disk (detect_extension src) e f src dst) = snd (extractor_spec cd disk (detect_extension src) u f src dst)"
  using assms(3) unpack_unlimited [OF assms(1,2)] write_file_unlimited [OF assms(1,2)]
  by (auto simp: extractor_spec_def unpacked_bytes_def split: sum.splits prod.splits)

section \<open>Whole files\<close>

text \<open>The name a single compressed file is written under is one element.\<close>

lemma trim_suffix_subset: "set (trim_suffix s p) \<subseteq> set s"
  by (auto simp: trim_suffix_def dest: in_set_takeD)

lemma path_base_elem: "CHR ''/'' \<in> set (path_base p) \<Longrightarrow> path_base p = ''/''"
proof -
  let ?q = "trim_right (\<lambda>c. c = CHR ''/'') p"
  have "CHR ''/'' \<notin> set (last (split_chr CHR ''/'' ?q))"
    using split_chr_no_sep last_in_set split_chr_not_Nil by metis
  then show "CHR ''/'' \<in> set (path_base p) \<Longrightarrow> path_base p = ''/''"
    by (auto simp: path_base_def Let_def split: if_splits)
qed

lemma out_name_split:
  "''..'' \<notin> set (split_chr CHR ''/'' (trim_suffix (path_base src) ext)) \<longleftrightarrow>
   trim_suffix (path_base src) ext \<noteq> ''..''"
proof (cases "CHR ''/'' \<in> set (path_base src)")
  case True
  then have "path_base src = ''/''" by (rule path_base_elem)
  moreover have "trim_suffix ''/'' ext = ''/'' \<or> trim_suffix ''/'' ext = []"
    by (auto simp: trim_suffix_def take_Cons')
  ultimately show ?thesis by auto
next
  case False
  then have "CHR ''/'' \<notin> set (trim_suffix (path_base src) ext)" using trim_suffix_subset by blast
  then show ?thesis by (auto simp: split_chr_whole)
qed

lemma out_path_kept:
  assumes "plain_comps root" and "link_free root f" and "trim_suffix (path_base src) ext \<noteq> ''..''"
  shows "kept root f (extract_write_file disk e f (out_path src (abs_path root) ext) r m)"
proof -
  have "contained (abs_path root) (out_path src (abs_path root) ext)"
    using assms(3) unfolding out_path_def by (intro contained_join_plain) (simp_all add: out_name_split)
  then obtain q where "out_path src (abs_path root) ext = abs_path (root @ q)" "plain_comps (root @ q)"
    unfolding out_path_def using join_abs assms(1) by blast
  then show ?thesis using write_file_kept assms(2) by simp
qed

lemma extractor_kept:
  assumes "plain_comps root" and "link_free root f"
    and "\<forall>ext\<in>set single_extensions. trim_suffix (path_base src) (''.'' @ ext) \<noteq> ''..''"
  shows "kept root f (extractor_spec cd disk ext e f src (abs_path root))"
  using assms out_path_kept [OF assms(1,2)] unpack_kept [OF assms(1,2)]
  by (auto simp: extractor_spec_def split: sum.split prod.split)

section \<open>Properties\<close>

text \<open>
  C4. Extraction of any archive, hostile or not, into a directory at and below which there is no
  symbolic link changes nothing outside that directory (missing directories above it may be
  created) and leaves it free of links; for the single-file formats the file's name must not
  shrink to \<^verbatim>\<open>..\<close> when its extension is cut.
\<close>

theorem extract_confined:
  assumes "plain_comps root" and "link_free root f"
    and "\<forall>ext\<in>set single_extensions. trim_suffix (path_base src) (''.'' @ ext) \<noteq> ''..''"
    and "extract_with_limit cd disk f src (abs_path root) max_bytes = (g, extracted, err)"
  shows "confined root f g \<and> link_free root g"
proof (cases "map_of (extractors cd disk) (detect_extension src)")
  case None
  then show ?thesis using assms by (simp add: extract_with_limit_def)
next
  case (Some fn)
  have "kept root f (fn e f src (abs_path root))" for e
    unfolding extractors_spec [OF Some] by (rule extractor_kept [OF assms(1-3)])
  note k = this [of "\<lparr>ex_remaining = max_bytes, ex_limited = 0 < max_bytes\<rparr>"]
  obtain e where "fn \<lparr>ex_remaining = max_bytes, ex_limited = 0 < max_bytes\<rparr> f src (abs_path root) = (e, g, err)"
    using assms(4) Some by (auto simp: extract_with_limit_def split: prod.splits)
  then show ?thesis using k by (simp add: kept_def)
qed

definition demo_fs :: fs where
  "demo_fs = \<lparr>fs_nodes = [([''a''], Dir 493), ([''a'', ''x.tar''], Regular 420 ''t''),
     ([''a'', ''...gz''], Regular 420 ''z'')], fs_cwd = []\<rparr>"

definition demo_tar :: "tar_entry list" where
  "demo_tar =
     [\<lparr>te_name = ''d/f'', te_type = TypeReg, te_mode = 0x9ED, te_body = file_reader ''hello''\<rparr>,
      \<lparr>te_name = ''d/../../../etc/cron'', te_type = TypeReg, te_mode = 0x1A4, te_body = file_reader ''evil''\<rparr>]"

definition demo_codecs :: codecs where
  "demo_codecs =
     \<lparr>gzip_reader = \<lambda>d. Inr (file_reader d), bzip2_reader = \<lambda>d. file_reader d, xz_reader = \<lambda>d. Inr (file_reader d),
      zstd_reader = \<lambda>d. Inr (file_reader d), lz4_reader = \<lambda>d. file_reader d, tar_reader = \<lambda>r. (demo_tar, None),
      zip_reader = \<lambda>d. Inr []\<rparr>"

lemma demo_link_free: "link_free [''out''] demo_fs"
  by (auto simp: links_only_def demo_fs_def fs_get_def)

theorem extract_confined_witness:
  "(case extract_with_limit demo_codecs (\<lambda>_. None) demo_fs ''/a/x.tar'' ''/out'' 100 of
     (g, ok, err) \<Rightarrow> ok \<and> err \<noteq> None \<and> fs_get g [''out'', ''d'', ''f''] = Some (Regular 493 ''hello'') \<and>
       confined [''out''] demo_fs g)"
proof -
  obtain g ok err where r:
    "extract_with_limit demo_codecs (\<lambda>_. None) demo_fs ''/a/x.tar'' (abs_path [''out'']) 100 = (g, ok, err)"
    by (metis prod_cases3)
  have "case extract_with_limit demo_codecs (\<lambda>_. None) demo_fs ''/a/x.tar'' ''/out'' 100 of
     (g, ok, err) \<Rightarrow> ok \<and> err \<noteq> None \<and> fs_get g [''out'', ''d'', ''f''] = Some (Regular 493 ''hello'')"
    by code_simp
  moreover have "plain_comps [''out'']" "abs_path [''out''] = ''/out''"
    "\<forall>ext\<in>set single_extensions. trim_suffix (path_base ''/a/x.tar'') (''.'' @ ext) \<noteq> ''..''"
    by code_simp+
  ultimately show ?thesis using extract_confined [OF _ demo_link_free _ r] r by auto
qed

text \<open>
  C5. The size limit is a limit on all that an archive unpacks to, for every format.  Whatever the
  archive holds and however the extraction ends, the files of the disk have grown by no more
  than the limit and one byte (the one that proves an entry too long), and by no more than the
  limit if it succeeds.  An archive within the limit is extracted exactly as without a limit, to the
  same files and the same result; one beyond the limit is never reported as extracted.
\<close>

theorem extract_within_budget:
  assumes "0 < max_bytes" and "max_bytes < max_int64"
    and "extract_with_limit cd disk f src dst max_bytes = (g, handled, err)"
  shows "fs_bytes g \<le> fs_bytes f + max_bytes + 1 \<and> (err = None \<longrightarrow> fs_bytes g \<le> fs_bytes f + max_bytes) \<and>
    (unpacked_bytes cd f src \<le> max_bytes \<longrightarrow> extract_unlimited cd disk f src dst = (g, handled, err)) \<and>
    (max_bytes < unpacked_bytes cd f src \<and> handled \<longrightarrow> err \<noteq> None)"
proof (cases "map_of (extractors cd disk) (detect_extension src)")
  case None
  then show ?thesis using assms by (simp add: extract_with_limit_def extract_unlimited_def)
next
  case (Some fn)
  let ?e = "\<lparr>ex_remaining = max_bytes, ex_limited = True\<rparr>" and ?u = "\<lparr>ex_remaining = 0, ex_limited = False\<rparr>"
  let ?run = "\<lambda>e. extractor_spec cd disk (detect_extension src) e f src dst"
  have b: "budget_ok ?e" using assms(1,2) by (simp add: budget_ok_def)
  obtain e1 where r: "?run ?e = (e1, g, err)" and h: "handled"
    using assms(1,3) Some by (auto simp: extract_with_limit_def extractors_spec [OF Some] split: prod.splits)
  have "extract_unlimited cd disk f src dst = (g, handled, err)" if "unpacked_bytes cd f src \<le> max_bytes"
    using extractor_unlimited [OF b, of ?u cd f src disk dst] that r h Some
    by (cases "?run ?u") (simp add: extract_unlimited_def extract_with_limit_def extractors_spec [OF Some])
  then show ?thesis using extractor_within [OF b, of f cd src disk dst] r by (auto simp: within_def)
qed

theorem extract_within_budget_witness:
  "(case extract_with_limit demo_codecs (\<lambda>_. None) demo_fs ''/a/x.tar'' ''/out'' 8 of
     (g, ok, err) \<Rightarrow> err \<noteq> None \<and> fs_bytes g \<le> 11) \<and>
   extract_unlimited demo_codecs (\<lambda>_. None) demo_fs ''/a/x.tar'' ''/out'' =
     extract_with_limit demo_codecs (\<lambda>_. None) demo_fs ''/a/x.tar'' ''/out'' 9"
proof -
  have n: "unpacked_bytes demo_codecs demo_fs ''/a/x.tar'' = 9" "fs_bytes demo_fs = 2" "(8::int) < max_int64" "(9::int) < max_int64"
    by code_simp+
  obtain g ok err where r: "extract_with_limit demo_codecs (\<lambda>_. None) demo_fs ''/a/x.tar'' ''/out'' 8 = (g, ok, err)" by (metis prod_cases3)
  have "fst (snd (extract_with_limit demo_codecs (\<lambda>_. None) demo_fs ''/a/x.tar'' ''/out'' 8))" by code_simp
  then have "ok" using r by simp
  then have "err \<noteq> None \<and> fs_bytes g \<le> 11"
    using extract_within_budget [OF _ n(3) r] n(1,2) by simp
  moreover obtain g2 ok2 err2 where r2: "extract_with_limit demo_codecs (\<lambda>_. None) demo_fs ''/a/x.tar'' ''/out'' 9 = (g2, ok2, err2)"
    by (metis prod_cases3)
  moreover from this have "extract_unlimited demo_codecs (\<lambda>_. None) demo_fs ''/a/x.tar'' ''/out'' = (g2, ok2, err2)"
    using extract_within_budget [OF _ n(4) r2] n(1) by simp
  ultimately show ?thesis using r by simp
qed

text \<open>
  The formats that compress a single file do not create the destination: where it does not
  exist, as in the pipeline's own use, extracting such a file always fails and writes nothing.
\<close>

theorem single_file_needs_dst:
  assumes "plain_comps root" and "link_free root f" and "fs_get f root = None"
    and "detect_extension src \<in> set single_extensions"
    and "\<forall>ext\<in>set single_extensions. plain_comps [trim_suffix (path_base src) (''.'' @ ext)]"
  shows "\<exists>e. extract_with_limit cd disk f src (abs_path root) max_bytes = (f, True, Some e)"
proof -
  have out: "\<exists>err. extract_write_file disk e f (out_path src (abs_path root) (''.'' @ ext)) r m = (e, f, Some err)"
    if "ext \<in> set single_extensions" for ext e r m
  proof -
    let ?n = "trim_suffix (path_base src) (''.'' @ ext)"
    have n: "plain_comps [?n]" using assms(5) that by blast
    then have p: "plain_comps (root @ [?n])" using assms(1) by simp
    have "split_chr CHR ''/'' ?n = [?n]"
      using n by (auto simp: plain_comps_def proper_comp_def split_chr_whole)
    then have "path_comps (out_path src (abs_path root) (''.'' @ ext)) = root @ [?n]"
      using path_comps_abs [OF assms(1)] clean_comps_rest [of "[?n]" True root] n
      by (simp add: out_path_def path_comps_join plain_comps_def not_sym)
    moreover have "is_abs (out_path src (abs_path root) (''.'' @ ext))"
      by (simp add: out_path_def is_abs_join)
    moreover have "path_clean (out_path src (abs_path root) (''.'' @ ext)) = out_path src (abs_path root) (''.'' @ ext)"
      by (simp add: out_path_def path_join_two)
    ultimately have "out_path src (abs_path root) (''.'' @ ext) = abs_path (root @ [?n])"
      using clean_abs [of "out_path src (abs_path root) (''.'' @ ext)"] by simp
    then show ?thesis using resolve_needs_parent [OF p assms(2,3), of True]
      by (auto simp: extract_write_file_def open_create_def)
  qed
  obtain fn where fn: "map_of (extractors cd disk) (detect_extension src) = Some fn"
    using assms(4) by (auto simp: single_extensions_def extractors_def)
  have "\<exists>err. extractor_spec cd disk (detect_extension src) e f src (abs_path root) = (e, f, Some err)" for e
    using assms(4) out [OF assms(4), of e] by (auto simp: extractor_spec_def split: sum.split)
  then obtain err where "fn \<lparr>ex_remaining = max_bytes, ex_limited = 0 < max_bytes\<rparr> f src (abs_path root) =
      (\<lparr>ex_remaining = max_bytes, ex_limited = 0 < max_bytes\<rparr>, f, Some err)"
    unfolding extractors_spec [OF fn] by blast
  then show ?thesis by (simp add: extract_with_limit_def fn)
qed

theorem single_file_needs_dst_witness:
  "\<exists>e. extract_with_limit demo_codecs (\<lambda>_. None)
     \<lparr>fs_nodes = [([''t''], Dir 493), ([''t'', ''data.gz''], Regular 420 ''z'')], fs_cwd = []\<rparr>
     ''/t/data.gz'' ''/t/_extracted'' 0 =
     (\<lparr>fs_nodes = [([''t''], Dir 493), ([''t'', ''data.gz''], Regular 420 ''z'')], fs_cwd = []\<rparr>, True, Some e)"
proof -
  let ?f = "\<lparr>fs_nodes = [([''t''], Dir 493), ([''t'', ''data.gz''], Regular 420 ''z'')], fs_cwd = []\<rparr>"
  have "link_free [''t'', ''_extracted''] ?f" by (auto simp: links_only_def fs_get_def)
  moreover have "plain_comps [''t'', ''_extracted'']" "fs_get ?f [''t'', ''_extracted''] = None"
    "detect_extension ''/t/data.gz'' \<in> set single_extensions"
    "\<forall>ext\<in>set single_extensions. plain_comps [trim_suffix (path_base ''/t/data.gz'') (''.'' @ ext)]"
    "abs_path [''t'', ''_extracted''] = ''/t/_extracted''"
    by code_simp+
  ultimately show ?thesis using single_file_needs_dst by metis
qed

text \<open>
  The single-file formats join the destination and the shortened name without the check the
  archives go through: a file named \<^verbatim>\<open>...gz\<close> is written over the destination's parent.
\<close>

theorem single_file_dotdot_escapes:
  "(case extract_with_limit demo_codecs (\<lambda>_. None) demo_fs ''/a/...gz'' ''/out/dst'' 0 of
     (g, ok, err) \<Rightarrow> err = None \<and> fs_get g [''out''] = Some (Regular 420 ''z'') \<and> \<not> confined [''out'', ''dst''] demo_fs g)"
proof -
  obtain g ok err where r: "extract_with_limit demo_codecs (\<lambda>_. None) demo_fs ''/a/...gz'' ''/out/dst'' 0 = (g, ok, err)"
    by (metis prod_cases3)
  have "case extract_with_limit demo_codecs (\<lambda>_. None) demo_fs ''/a/...gz'' ''/out/dst'' 0 of
     (g, ok, err) \<Rightarrow> err = None \<and> fs_get g [''out''] = Some (Regular 420 ''z'')"
    by code_simp
  moreover have "fs_get demo_fs [''out''] = None" by code_simp
  ultimately show ?thesis using r by (auto simp: confined_def intro!: exI [of _ "[''out'']"])
qed

end
