(* ===== verification/Git_Tree.thy ===== *)
theory Git_Tree
  imports Git_Refs Extract
begin

text \<open>
  The partial-clone path's work on trees and files (\<^verbatim>\<open>protocols/git/sparse.go\<close>): which entries of a
  commit are selected for a subdirectory, which blobs are fetched, and how they are written.  go-git's
  reading of a commit is the record \<open>tree_view\<close>: the root tree, \<^verbatim>\<open>root.Tree(dir)\<close> and the recursive
  \<^verbatim>\<open>TreeWalker\<close> over such a tree, with the paths it yields relative to it.
\<close>

section \<open>Data\<close>

datatype filemode =
  FmEmpty | FmDir | FmRegular | FmDeprecated | FmExecutable | FmSymlink | FmSubmodule

record tree_entry =
  tn_name :: string
  tn_mode :: filemode
  tn_hash :: string

record sparse_entry =
  se_path :: string
  se_mode :: filemode
  se_hash :: string

record sparse_selection =
  sel_files :: "sparse_entry list"
  sel_submodules :: "string list"

record tree_view =
  tv_commit :: "goerr option"
  tv_root :: "tree_entry list result"
  tv_tree :: "string \<Rightarrow> tree_entry list result"
  tv_walk :: "string \<Rightarrow> (string \<times> tree_entry) list \<times> goerr option"

section \<open>Selection\<close>

definition ancestor_dirs :: "string \<Rightarrow> string list" where
  "ancestor_dirs subdir =
     (if subdir = [] then [[]]
      else let parts = split_chr CHR ''/'' subdir
           in [] # map (\<lambda>i. join_str ''/'' (take i parts)) [1..<length parts])"

definition materialisable :: "filemode \<Rightarrow> bool" where
  "materialisable m \<longleftrightarrow> m = FmRegular \<or> m = FmExecutable \<or> m = FmSymlink"

definition needs_worktree :: "sparse_selection \<Rightarrow> 't settings \<Rightarrow> bool" where
  "needs_worktree sel s \<longleftrightarrow> sel_submodules sel \<noteq> [] \<and> recurse_submodules (git s)"

definition sel_add :: "string \<Rightarrow> tree_entry \<Rightarrow> sparse_selection \<Rightarrow> sparse_selection" where
  "sel_add p e sel =
     (if tn_mode e = FmSubmodule then sel\<lparr>sel_submodules := sel_submodules sel @ [p]\<rparr>
      else if materialisable (tn_mode e)
      then sel\<lparr>sel_files := sel_files sel @ [\<lparr>se_path = p, se_mode = tn_mode e, se_hash = tn_hash e\<rparr>]\<rparr>
      else sel)"

definition add_named :: "string \<Rightarrow> (string \<times> tree_entry) list \<Rightarrow> sparse_selection \<Rightarrow> sparse_selection" where
  "add_named dir es sel = foldl (\<lambda>sel (name, e). sel_add (path_join [dir, name]) e sel) sel es"

fun ancestor_loop :: "tree_view \<Rightarrow> tree_entry list \<Rightarrow> string list \<Rightarrow> sparse_selection \<Rightarrow> sparse_selection result" where
  "ancestor_loop v root [] sel = Inr sel"
| "ancestor_loop v root (dir # dirs) sel =
     (case (if dir \<noteq> [] then tv_tree v dir else Inr root) of
        Inl err \<Rightarrow> Inl (Errorf ''reading tree for %q: %w'' [dir] [err])
      | Inr es \<Rightarrow> ancestor_loop v root dirs (add_named dir (map (\<lambda>e. (tn_name e, e)) es) sel))"

definition sparse_entries :: "tree_view \<Rightarrow> git_dl \<Rightarrow> string \<Rightarrow> sparse_selection result" where
  "sparse_entries v d commit =
     (case tv_commit v of
        Some err \<Rightarrow> Inl (Errorf ''reading commit %s: %w'' [commit] [err])
      | None \<Rightarrow>
          (case tv_root v of
             Inl err \<Rightarrow> Inl (Errorf ''reading tree for %s: %w'' [commit] [err])
           | Inr root \<Rightarrow>
               bind_result (ancestor_loop v root (ancestor_dirs (gd_subdir d)) \<lparr>sel_files = [], sel_submodules = []\<rparr>)
                 (\<lambda>sel.
                    if gd_subdir d = [] then Inr sel
                    else case tv_tree v (gd_subdir d) of
                      Inl err \<Rightarrow> Inl (Errorf ''subdirectory %q not found in repo: %w'' [gd_subdir d] [err])
                    | Inr _ \<Rightarrow>
                        (case tv_walk v (gd_subdir d) of
                           (es, Some err) \<Rightarrow> Inl (Errorf ''walking %q: %w'' [gd_subdir d] [err])
                         | (es, None) \<Rightarrow> Inr (add_named (gd_subdir d) es sel)))))"

section \<open>Fetching\<close>

fun blob_wants :: "(string \<Rightarrow> bool) \<Rightarrow> sparse_entry list \<Rightarrow> string set \<Rightarrow> string list" where
  "blob_wants have [] seen = []"
| "blob_wants have (e # es) seen =
     (if se_hash e \<in> seen then blob_wants have es seen
      else if have (se_hash e) then blob_wants have es (insert (se_hash e) seen)
      else se_hash e # blob_wants have es (insert (se_hash e) seen))"

text \<open>A fetch by hash: wants, filter and depth.\<close>

type_synonym 'n fetch = "'n sys \<Rightarrow> string list \<Rightarrow> string \<Rightarrow> int \<Rightarrow> 'n sys \<times> goerr option"

definition fetch_blobs :: "'n fetch \<Rightarrow> (string \<Rightarrow> bool) \<Rightarrow> 'n sys \<Rightarrow> sparse_entry list \<Rightarrow> 'n sys \<times> goerr option" where
  "fetch_blobs fetch have w entries =
     (let wants = blob_wants have entries {}
      in if wants = [] then (w, None) else fetch w wants [] 0)"

section \<open>Writing\<close>

text \<open>\<open>os_mode\<close> is the permission part of go-git's \<^verbatim>\<open>ToOSFileMode\<close>.\<close>

definition write_blob :: "(filemode \<Rightarrow> nat result) \<Rightarrow> (string \<Rightarrow> reader result) \<Rightarrow> disk \<Rightarrow> fs \<Rightarrow> sparse_entry \<Rightarrow> string \<Rightarrow> fs \<times> goerr option" where
  "write_blob os_mode blob disk f e dst =
     (case blob (se_hash e) of
        Inl err \<Rightarrow> (f, Some err)
      | Inr rc \<Rightarrow>
          if se_mode e = FmSymlink then
            (case rd_end rc of
               Some err \<Rightarrow> (f, Some err)
             | None \<Rightarrow>
                 (case fs_remove f dst of
                    (g, None) \<Rightarrow> fs_symlink g (rd_data rc) dst
                  | (g, Some err) \<Rightarrow>
                      if errors_is err ErrNotExist then fs_symlink g (rd_data rc) dst else (g, Some err)))
          else case os_mode (se_mode e) of
            Inl err \<Rightarrow> (f, Some err)
          | Inr m \<Rightarrow>
              (case open_create f dst m of
                 (g, Inl err) \<Rightarrow> (g, Some err)
               | (g, Inr p) \<Rightarrow> (case io_copy (disk p) rc of (w, err) \<Rightarrow> (fs_write g p w, err))))"

fun materialise :: "(filemode \<Rightarrow> nat result) \<Rightarrow> (string \<Rightarrow> reader result) \<Rightarrow> disk \<Rightarrow> fs \<Rightarrow> sparse_entry list \<Rightarrow> string \<Rightarrow> fs \<times> goerr option" where
  "materialise os_mode blob disk f [] root = (f, None)"
| "materialise os_mode blob disk f (e # es) root =
     (case secure_path root (se_path e) of
        Inl err \<Rightarrow> (f, Some err)
      | Inr dst \<Rightarrow>
          (case mkdir_all f (path_dir dst) 493 of
             (g, Some err) \<Rightarrow> (g, Some err)
           | (g, None) \<Rightarrow>
               (case write_blob os_mode blob disk g e dst of
                  (h, None) \<Rightarrow> materialise os_mode blob disk h es root
                | (h, Some err) \<Rightarrow>
                    if errors_is err ErrObjectNotFound
                    then (h, Some (Errorf ''%w: object for %s was not delivered: %w'' [se_path e]
                            [Sentinel ErrSparseUnsupported, err]))
                    else (h, Some (Errorf ''writing %s: %w'' [se_path e] [err])))))"

section \<open>Facts\<close>

lemma blob_wants_set:
  "set (blob_wants have es seen) = {h \<in> se_hash ` set es. h \<notin> seen \<and> \<not> have h} \<and> distinct (blob_wants have es seen)"
  by (induction es arbitrary: seen) auto

lemma sel_add_files:
  "set (sel_files (sel_add p e sel)) =
     set (sel_files sel) \<union> (if materialisable (tn_mode e) then {\<lparr>se_path = p, se_mode = tn_mode e, se_hash = tn_hash e\<rparr>} else {})"
  "set (sel_submodules (sel_add p e sel)) = set (sel_submodules sel) \<union> (if tn_mode e = FmSubmodule then {p} else {})"
  by (auto simp: sel_add_def materialisable_def)

lemma add_named_files:
  "set (sel_files (add_named dir es sel)) = set (sel_files sel) \<union>
     {\<lparr>se_path = path_join [dir, n], se_mode = tn_mode e, se_hash = tn_hash e\<rparr> | n e. (n, e) \<in> set es \<and> materialisable (tn_mode e)}"
proof (induction es arbitrary: sel)
  case (Cons x es)
  obtain n e where "x = (n, e)" by fastforce
  then show ?case using Cons.IH [of "sel_add (path_join [dir, n]) e sel"]
    by (auto simp: add_named_def sel_add_files split: if_splits)
qed (simp add: add_named_def)

lemma add_named_submodules:
  "set (sel_submodules (add_named dir es sel)) = set (sel_submodules sel) \<union>
     {path_join [dir, n] | n e. (n, e) \<in> set es \<and> tn_mode e = FmSubmodule}"
proof (induction es arbitrary: sel)
  case (Cons x es)
  obtain n e where "x = (n, e)" by fastforce
  then show ?case using Cons.IH [of "sel_add (path_join [dir, n]) e sel"]
    by (auto simp: add_named_def sel_add_files split: if_splits)
qed (simp add: add_named_def)

lemma ancestor_dirs_rel:
  assumes "plain_comps sub" and "sub \<noteq> []"
  shows "ancestor_dirs (rel_path sub) = map (\<lambda>i. rel_path (take i sub)) [0..<length sub]"
proof -
  have "rel_path sub \<noteq> []" using rel_path_inj [OF assms(1), of "[]"] assms(2) by (auto simp: plain_comps_def)
  moreover have "[0..<length sub] = 0 # [1..<length sub]" using assms(2) by (simp add: upt_conv_Cons)
  ultimately show ?thesis using rel_path_split [OF assms] by (simp add: ancestor_dirs_def)
qed

text \<open>
  The cone of a directory: everything beneath it, and what sits directly in a directory on the
  way to it.
\<close>

definition in_cone :: "string list \<Rightarrow> string list \<Rightarrow> bool" where
  "in_cone sub p \<longleftrightarrow> strict_prefix sub p \<or> strict_prefix (butlast p) sub"

lemma strict_prefix_take: "strict_prefix q sub \<longleftrightarrow> (\<exists>i<length sub. q = take i sub)"
proof
  assume "strict_prefix q sub"
  then show "\<exists>i<length sub. q = take i sub"
    by (intro exI [of _ "length q"]) (auto simp: strict_prefix_def prefix_def)
next
  assume "\<exists>i<length sub. q = take i sub"
  then show "strict_prefix q sub" by (auto simp: strict_prefix_def take_is_prefix dest: arg_cong [where f = length])
qed

text \<open>
  What go-git documents of a tree's reading, against the set of all entries of a commit by path:
  trees list their direct entries, the walker everything beneath, and a path that is no directory
  has no tree.
\<close>

definition lists_dir :: "(string list \<times> filemode \<times> string) set \<Rightarrow> string list \<Rightarrow> tree_entry list \<Rightarrow> bool" where
  "lists_dir T ds es \<longleftrightarrow> (\<forall>e. e \<in> set es \<longleftrightarrow> (ds @ [tn_name e], tn_mode e, tn_hash e) \<in> T)"

definition walks_dir :: "(string list \<times> filemode \<times> string) set \<Rightarrow> string list \<Rightarrow> (string \<times> tree_entry) list \<Rightarrow> bool" where
  "walks_dir T ds es \<longleftrightarrow>
     (\<forall>x m k. (\<exists>e. (x, e) \<in> set es \<and> tn_mode e = m \<and> tn_hash e = k) \<longleftrightarrow>
        (\<exists>q. q \<noteq> [] \<and> x = rel_path q \<and> (ds @ q, m, k) \<in> T))"

definition faithful_view :: "tree_view \<Rightarrow> (string list \<times> filemode \<times> string) set \<Rightarrow> bool" where
  "faithful_view v T \<longleftrightarrow>
     tv_commit v = None \<and>
     (\<forall>p m k. (p, m, k) \<in> T \<longrightarrow> p \<noteq> [] \<and> plain_comps p) \<and>
     (\<exists>root. tv_root v = Inr root \<and> lists_dir T [] root) \<and>
     (\<forall>ds k. (ds, FmDir, k) \<in> T \<longrightarrow>
        (\<exists>es. tv_tree v (rel_path ds) = Inr es \<and> lists_dir T ds es) \<and>
        (\<exists>es. tv_walk v (rel_path ds) = (es, None) \<and> walks_dir T ds es))"

definition dir_entries :: "tree_view \<Rightarrow> tree_entry list \<Rightarrow> string \<Rightarrow> tree_entry list" where
  "dir_entries v root dir = (if dir \<noteq> [] then projr (tv_tree v dir) else root)"

lemma ancestor_loop_files:
  assumes "\<forall>dir\<in>set dirs. dir \<noteq> [] \<longrightarrow> (\<exists>es. tv_tree v dir = Inr es)"
  shows "\<exists>sel'. ancestor_loop v root dirs sel = Inr sel' \<and>
    set (sel_files sel') = set (sel_files sel) \<union>
      {\<lparr>se_path = path_join [dir, tn_name e], se_mode = tn_mode e, se_hash = tn_hash e\<rparr> | dir e.
         dir \<in> set dirs \<and> e \<in> set (dir_entries v root dir) \<and> materialisable (tn_mode e)}"
  using assms
proof (induction dirs arbitrary: sel)
  case (Cons dir dirs)
  let ?es = "dir_entries v root dir"
  have e: "(if dir \<noteq> [] then tv_tree v dir else Inr root) = Inr ?es"
    using Cons.prems by (auto simp: dir_entries_def)
  obtain sel' where "ancestor_loop v root dirs (add_named dir (map (\<lambda>e. (tn_name e, e)) ?es) sel) = Inr sel'"
    "set (sel_files sel') = set (sel_files (add_named dir (map (\<lambda>e. (tn_name e, e)) ?es) sel)) \<union>
      {\<lparr>se_path = path_join [dir, tn_name e], se_mode = tn_mode e, se_hash = tn_hash e\<rparr> | dir e.
         dir \<in> set dirs \<and> e \<in> set (dir_entries v root dir) \<and> materialisable (tn_mode e)}"
    using Cons by (metis (no_types, lifting) list.set_intros(2))
  then show ?case using e by (auto simp: add_named_files)
qed simp

lemma strict_prefix_take_rel:
  "strict_prefix (butlast p) sub \<and> p \<noteq> [] \<longleftrightarrow> (\<exists>i<length sub. \<exists>n. p = take i sub @ [n])"
  unfolding strict_prefix_take by (metis append_butlast_last_id butlast_snoc snoc_eq_iff_butlast)

lemma faithful_plain: "faithful_view v T \<Longrightarrow> (p, m, k) \<in> T \<Longrightarrow> p \<noteq> [] \<and> plain_comps p"
  unfolding faithful_view_def by blast

lemma faithful_tree:
  assumes "faithful_view v T" and "(ds, FmDir, h) \<in> T"
  obtains es where "tv_tree v (rel_path ds) = Inr es" "lists_dir T ds es"
  using assms that unfolding faithful_view_def by blast

lemma faithful_walk:
  assumes "faithful_view v T" and "(ds, FmDir, h) \<in> T"
  obtains es where "tv_walk v (rel_path ds) = (es, None)" "walks_dir T ds es"
  using assms that unfolding faithful_view_def by blast

lemma faithful_root:
  assumes "faithful_view v T"
  obtains root where "tv_root v = Inr root" "lists_dir T [] root" "tv_commit v = None"
  using assms that unfolding faithful_view_def by blast

text \<open>The directories on the way to \<open>sub\<close> are there.\<close>

definition way_to :: "string list \<Rightarrow> (string list \<times> filemode \<times> string) set \<Rightarrow> bool" where
  "way_to sub T \<longleftrightarrow> (\<forall>q. q \<noteq> [] \<and> strict_prefix q sub \<longrightarrow> (\<exists>h. (q, FmDir, h) \<in> T))"

lemma way_entries:
  assumes "faithful_view v T" and "way_to sub T" and "tv_root v = Inr root" and "strict_prefix q sub"
  shows "(rel_path q \<noteq> [] \<longrightarrow> (\<exists>es. tv_tree v (rel_path q) = Inr es)) \<and>
    (e \<in> set (dir_entries v root (rel_path q)) \<longleftrightarrow> (q @ [tn_name e], tn_mode e, tn_hash e) \<in> T)"
proof (cases "q = []")
  case True
  have "lists_dir T [] root" using faithful_root [OF assms(1)] assms(3) by (metis sum.inject(2))
  then show ?thesis using True by (simp add: dir_entries_def lists_dir_def)
next
  case False
  then obtain h where h: "(q, FmDir, h) \<in> T" using assms(2,4) by (auto simp: way_to_def)
  obtain es where "tv_tree v (rel_path q) = Inr es" "lists_dir T q es" by (rule faithful_tree [OF assms(1) h])
  then show ?thesis using faithful_plain [OF assms(1) h] by (simp add: dir_entries_def rel_path_not_Nil lists_dir_def)
qed

abbreviation file_at :: "string list \<Rightarrow> filemode \<Rightarrow> string \<Rightarrow> sparse_entry" where
  "file_at p m k \<equiv> \<lparr>se_path = rel_path p, se_mode = m, se_hash = k\<rparr>"

lemma cone_above:
  assumes "faithful_view v T" and "way_to sub T" and "tv_root v = Inr root" and "plain_comps sub" "sub \<noteq> []"
  obtains sel where
    "ancestor_loop v root (ancestor_dirs (rel_path sub)) \<lparr>sel_files = [], sel_submodules = []\<rparr> = Inr sel"
    "set (sel_files sel) = {file_at p m k | p m k. (p, m, k) \<in> T \<and> materialisable m \<and> strict_prefix (butlast p) sub}"
proof -
  let ?D = "ancestor_dirs (rel_path sub)"
  have "{q. strict_prefix q sub} = (\<lambda>i. take i sub) ` {0..<length sub}"
    by (auto simp: strict_prefix_take)
  then have D: "set ?D = rel_path ` {q. strict_prefix q sub}"
    by (simp add: ancestor_dirs_rel [OF assms(4,5)] image_image)
  have dirs: "\<forall>dir\<in>set ?D. dir \<noteq> [] \<longrightarrow> (\<exists>es. tv_tree v dir = Inr es)"
    using way_entries [OF assms(1-3)] by (auto simp: D)
  obtain sel where sel: "ancestor_loop v root ?D \<lparr>sel_files = [], sel_submodules = []\<rparr> = Inr sel"
    "set (sel_files sel) = {\<lparr>se_path = path_join [dir, tn_name e], se_mode = tn_mode e, se_hash = tn_hash e\<rparr> | dir e.
         dir \<in> set ?D \<and> e \<in> set (dir_entries v root dir) \<and> materialisable (tn_mode e)}"
    using ancestor_loop_files [OF dirs, of root "\<lparr>sel_files = [], sel_submodules = []\<rparr>"] by auto
  have E: "e \<in> set (dir_entries v root (rel_path q)) \<longleftrightarrow> (q @ [tn_name e], tn_mode e, tn_hash e) \<in> T"
    if "strict_prefix q sub" for q e
    using way_entries [OF assms(1-3) that] by blast
  have join: "path_join [rel_path q, n] = rel_path (q @ [n])" if "(q @ [n], m, k) \<in> T" for q n m k
    using join_rel [of q "[n]"] faithful_plain [OF assms(1) that] by simp
  have "set (sel_files sel) = {file_at p m k | p m k. (p, m, k) \<in> T \<and> materialisable m \<and> strict_prefix (butlast p) sub}"
    (is "_ = ?A")
  proof (intro equalityI subsetI)
    fix x assume "x \<in> set (sel_files sel)"
    then obtain q e where q: "strict_prefix q sub" "e \<in> set (dir_entries v root (rel_path q))" "materialisable (tn_mode e)"
      "x = \<lparr>se_path = path_join [rel_path q, tn_name e], se_mode = tn_mode e, se_hash = tn_hash e\<rparr>"
      unfolding sel(2) D by blast
    then have t: "(q @ [tn_name e], tn_mode e, tn_hash e) \<in> T" using E by blast
    have "strict_prefix (butlast (q @ [tn_name e])) sub" using q(1) by simp
    then show "x \<in> ?A" using q(3,4) join [OF t] t by blast
  next
    fix x assume "x \<in> ?A"
    then obtain p m k where x: "x = file_at p m k" "(p, m, k) \<in> T" "materialisable m" "strict_prefix (butlast p) sub"
      by blast
    then have p: "p = butlast p @ [last p]" using faithful_plain [OF assms(1) x(2)] by simp
    let ?e = "\<lparr>tn_name = last p, tn_mode = m, tn_hash = k\<rparr>"
    have "?e \<in> set (dir_entries v root (rel_path (butlast p)))" using E [OF x(4), of ?e] x(2) p by simp
    moreover have "x = \<lparr>se_path = path_join [rel_path (butlast p), tn_name ?e], se_mode = tn_mode ?e, se_hash = tn_hash ?e\<rparr>"
      using x(1,2) p join by simp
    moreover have "materialisable (tn_mode ?e)" using x(3) by simp
    ultimately show "x \<in> set (sel_files sel)" unfolding sel(2) D using x(4) by blast
  qed
  with sel(1) that show ?thesis by blast
qed

lemma cone_beneath:
  assumes "faithful_view v T" and "(sub, FmDir, h) \<in> T"
  obtains es where "tv_walk v (rel_path sub) = (es, None)"
    "{\<lparr>se_path = path_join [rel_path sub, n], se_mode = tn_mode e, se_hash = tn_hash e\<rparr> | n e.
        (n, e) \<in> set es \<and> materialisable (tn_mode e)} =
      {file_at p m k | p m k. (p, m, k) \<in> T \<and> materialisable m \<and> strict_prefix sub p}"
proof -
  obtain es where w: "tv_walk v (rel_path sub) = (es, None)" "walks_dir T sub es"
    by (rule faithful_walk [OF assms])
  note w2 = w(2) [unfolded walks_dir_def, rule_format]
  have join: "path_join [rel_path sub, rel_path q] = rel_path (sub @ q)" if "q \<noteq> []" "(sub @ q, m, k) \<in> T" for q m k
    using join_rel [of sub q] faithful_plain [OF assms(1) that(2)] that(1) by simp
  have "{\<lparr>se_path = path_join [rel_path sub, n], se_mode = tn_mode e, se_hash = tn_hash e\<rparr> | n e.
        (n, e) \<in> set es \<and> materialisable (tn_mode e)} =
      {file_at p m k | p m k. (p, m, k) \<in> T \<and> materialisable m \<and> strict_prefix sub p}" (is "?B = ?C")
  proof (intro equalityI subsetI)
    fix x assume "x \<in> ?B"
    then obtain n e where x: "x = \<lparr>se_path = path_join [rel_path sub, n], se_mode = tn_mode e, se_hash = tn_hash e\<rparr>"
      "(n, e) \<in> set es" "materialisable (tn_mode e)" by blast
    then obtain q where "q \<noteq> []" "n = rel_path q" "(sub @ q, tn_mode e, tn_hash e) \<in> T"
      using w2 [of n "tn_mode e" "tn_hash e"] by blast
    moreover from this(1) have "strict_prefix sub (sub @ q)" by (simp add: strict_prefix_def)
    ultimately show "x \<in> ?C" using x join by blast
  next
    fix x assume "x \<in> ?C"
    then obtain p m k where x: "x = file_at p m k" "(p, m, k) \<in> T" "materialisable m" "strict_prefix sub p" by blast
    then obtain q where q: "p = sub @ q" "q \<noteq> []" by (auto simp: strict_prefix_def prefix_def)
    then obtain e where e: "(rel_path q, e) \<in> set es" "tn_mode e = m" "tn_hash e = k"
      using w2 [of "rel_path q" m k] x(2) by blast
    have "x = \<lparr>se_path = path_join [rel_path sub, rel_path q], se_mode = tn_mode e, se_hash = tn_hash e\<rparr>"
      using x(1,2) q e join by simp
    then show "x \<in> ?B" using e x(3) by blast
  qed
  with w(1) that show ?thesis by blast
qed

section \<open>Writing stays under the destination\<close>

text \<open>
  Where the links of a selection go, and a selection in which nothing goes through them.  Entries
  that lead out of the destination are under no condition.
\<close>

definition links_of :: "fpath \<Rightarrow> sparse_entry list \<Rightarrow> fpath set" where
  "links_of root es =
     {target_of root (se_path e) | e. e \<in> set es \<and> se_mode e = FmSymlink \<and> prefix root (target_of root (se_path e))}"

definition entry_clear :: "fpath set \<Rightarrow> fpath \<Rightarrow> sparse_entry \<Rightarrow> bool" where
  "entry_clear L root e \<longleftrightarrow>
     (let p = target_of root (se_path e)
      in prefix root p \<longrightarrow>
           avoids L (butlast p) \<and> (if se_mode e = FmSymlink then p \<in> L else avoids L p))"

definition no_path_through_link :: "fpath \<Rightarrow> sparse_entry list \<Rightarrow> bool" where
  "no_path_through_link root es \<longleftrightarrow> (\<forall>e\<in>set es. entry_clear (links_of root es) root e)"

lemma write_blob_confined:
  assumes "plain_comps cs" and "links_only L root f" and "prefix root cs" and "avoids L (butlast cs)"
    and "if se_mode e = FmSymlink then cs \<in> L else avoids L cs"
    and "write_blob os_mode blob disk f e (abs_path cs) = (g, err)"
  shows "confined root f g \<and> links_only L root g"
proof (cases "blob (se_hash e)")
  case (Inr rc)
  show ?thesis
  proof (cases "se_mode e = FmSymlink")
    case True
    obtain h e1 where h: "fs_remove f (abs_path cs) = (h, e1)" by fastforce
    note hc = remove_confined [OF assms(1-3) h assms(4)]
    obtain k e2 where k: "fs_symlink h (rd_data rc) (abs_path cs) = (k, e2)" by fastforce
    have kc: "confined root h k \<and> links_only L root k"
      using symlink_confined [OF assms(1) _ assms(3) k assms(4)] hc assms(5) True by simp
    have "g \<in> {f, h, k}"
      using assms(6) Inr True h k by (auto simp: write_blob_def split: option.splits if_splits)
    then show ?thesis using assms(2) hc kc confined_trans by auto
  next
    case False
    show ?thesis
    proof (cases "os_mode (se_mode e)")
      case (Inl a)
      then show ?thesis using assms(2,6) Inr False by (simp add: write_blob_def)
    next
      case (Inr perm)
      obtain h r where h: "open_create f (abs_path cs) perm = (h, r)" by fastforce
      note hc = open_create_confined [OF assms(1-3) h]
      have w: "confined root h (fs_write h p d) \<and> links_only L root (fs_write h p d)" if "r = Inr p" for p d
        using write_confined [where root = root and p = p and f = h and d = d] hc assms(3,5) False that by auto
      have "g = h \<or> (\<exists>p d. r = Inr p \<and> g = fs_write h p d)"
        using assms(6) \<open>blob (se_hash e) = Inr rc\<close> False Inr h
        by (cases r) (auto simp: write_blob_def split: prod.splits)
      then show ?thesis using hc w assms(5) False confined_trans by auto
    qed
  qed
qed (use assms in \<open>simp add: write_blob_def\<close>)

lemma materialise_step_confined:
  assumes "plain_comps root" and "links_only L root f" and "\<forall>e\<in>set es. entry_clear L root e"
    and "materialise os_mode blob disk f es (abs_path root) = (g, err)"
  shows "confined root f g \<and> links_only L root g"
  using assms(2-4)
proof (induction es arbitrary: f)
  case (Cons e es)
  let ?p = "target_of root (se_path e)"
  show ?case
  proof (cases "secure_path (abs_path root) (se_path e)")
    case (Inl a)
    then show ?thesis using Cons.prems by simp
  next
    case (Inr dst)
    then have dst: "dst = abs_path ?p" "plain_comps ?p" "prefix root ?p"
      using safe_join_target [OF _ assms(1)] by (auto simp: secure_path_eq)
    then have q: "avoids L (butlast ?p)" "if se_mode e = FmSymlink then ?p \<in> L else avoids L ?p"
      using Cons.prems(2) by (auto simp: entry_clear_def Let_def)
    obtain h e1 where h: "mkdir_all f (path_dir dst) 493 = (h, e1)" by fastforce
    have hc: "confined root f h \<and> links_only L root h"
      using mkdir_above [OF dst(2,3) Cons.prems(1) h [unfolded dst] q(1)] by simp
    obtain k e2 where k: "write_blob os_mode blob disk h e dst = (k, e2)" by fastforce
    have kc: "confined root h k \<and> links_only L root k"
      using write_blob_confined [OF dst(2) _ dst(3) q k [unfolded dst]] hc by simp
    have "g = h \<or> g = k \<or> materialise os_mode blob disk k es (abs_path root) = (g, err)"
      using Cons.prems(3) Inr h k by (auto split: option.splits if_splits)
    moreover have "confined root k g \<and> links_only L root g" if "materialise os_mode blob disk k es (abs_path root) = (g, err)"
      using Cons.IH [OF _ _ that] kc Cons.prems(2) by simp
    ultimately show ?thesis using hc kc confined_trans by blast
  qed
qed simp

lemma materialise_refuses:
  assumes "plain_comps root" and "e \<in> set es" and "\<not> prefix root (target_of root (se_path e))"
  shows "snd (materialise os_mode blob disk f es (abs_path root)) \<noteq> None"
  using assms(2)
proof (induction es arbitrary: f)
  case (Cons d ds)
  show ?case
  proof (cases "d = e")
    case True
    obtain x where "secure_path (abs_path root) (se_path e) = Inl x"
      using safe_join_outside [OF assms(1,3)] by (auto simp: secure_path_eq)
    then show ?thesis using True by simp
  next
    case False
    then show ?thesis using Cons by (auto split: sum.split prod.split option.split)
  qed
qed simp

section \<open>Properties\<close>

text \<open>
  C15. The sparse selection is the cone of the requested directory: on a commit read faithfully it
  selects exactly the regular files, executables and links beneath the directory or sitting directly
  in a directory on the way to it, each at its path within the repository.
\<close>

theorem sparse_selects_cone:
  assumes "faithful_view v T" and "way_to sub T" and "(sub, FmDir, h) \<in> T" and "gd_subdir d = rel_path sub"
  shows "\<exists>sel. sparse_entries v d c = Inr sel \<and>
    set (sel_files sel) = {\<lparr>se_path = rel_path p, se_mode = m, se_hash = k\<rparr> | p m k.
      (p, m, k) \<in> T \<and> materialisable m \<and> in_cone sub p}"
proof -
  have sub: "plain_comps sub" "sub \<noteq> []" using faithful_plain [OF assms(1,3)] by auto
  obtain root where root: "tv_root v = Inr root" and commit: "tv_commit v = None"
    by (rule faithful_root [OF assms(1)])
  obtain sel where sel:
    "ancestor_loop v root (ancestor_dirs (rel_path sub)) \<lparr>sel_files = [], sel_submodules = []\<rparr> = Inr sel"
    "set (sel_files sel) = {file_at p m k | p m k. (p, m, k) \<in> T \<and> materialisable m \<and> strict_prefix (butlast p) sub}"
    by (rule cone_above [OF assms(1,2) root sub])
  obtain es where es: "tv_walk v (rel_path sub) = (es, None)"
    "{\<lparr>se_path = path_join [rel_path sub, n], se_mode = tn_mode e, se_hash = tn_hash e\<rparr> | n e.
        (n, e) \<in> set es \<and> materialisable (tn_mode e)} =
      {file_at p m k | p m k. (p, m, k) \<in> T \<and> materialisable m \<and> strict_prefix sub p}"
    by (rule cone_beneath [OF assms(1,3)])
  obtain ts where ts: "tv_tree v (rel_path sub) = Inr ts" by (rule faithful_tree [OF assms(1,3)])
  have "sparse_entries v d c = Inr (add_named (rel_path sub) es sel)"
    using assms(4) root commit sel(1) es(1) ts rel_path_not_Nil [OF sub]
    by (simp add: sparse_entries_def)
  moreover have "set (sel_files (add_named (rel_path sub) es sel)) =
      {file_at p m k | p m k. (p, m, k) \<in> T \<and> materialisable m \<and> in_cone sub p}"
    unfolding add_named_files sel(2) es(2) by (auto simp: in_cone_def)
  ultimately show ?thesis by blast
qed

definition demo_commit :: "(string list \<times> filemode \<times> string) set" where
  "demo_commit = {([''m''], FmDir, ''d''), ([''m'', ''x''], FmRegular, ''1''), ([''r''], FmExecutable, ''2''),
     ([''o''], FmSubmodule, ''3'')}"

definition demo_view :: tree_view where
  "demo_view =
     \<lparr>tv_commit = None,
      tv_root = Inr [\<lparr>tn_name = ''m'', tn_mode = FmDir, tn_hash = ''d''\<rparr>, \<lparr>tn_name = ''r'', tn_mode = FmExecutable, tn_hash = ''2''\<rparr>,
        \<lparr>tn_name = ''o'', tn_mode = FmSubmodule, tn_hash = ''3''\<rparr>],
      tv_tree = (\<lambda>d. if d = ''m'' then Inr [\<lparr>tn_name = ''x'', tn_mode = FmRegular, tn_hash = ''1''\<rparr>]
         else Inl (errors_new ''directory not found'')),
      tv_walk = (\<lambda>d. ([(''x'', \<lparr>tn_name = ''x'', tn_mode = FmRegular, tn_hash = ''1''\<rparr>)], None))\<rparr>"

lemma demo_faithful: "faithful_view demo_view demo_commit"
proof -
  have e: "e = \<lparr>tn_name = n, tn_mode = m, tn_hash = h\<rparr> \<longleftrightarrow> tn_name e = n \<and> tn_mode e = m \<and> tn_hash e = h"
    for e :: tree_entry and n m h by auto
  have p: "\<forall>p m k. (p, m, k) \<in> demo_commit \<longrightarrow> p \<noteq> [] \<and> plain_comps p"
    by (auto simp: demo_commit_def plain_comps_def proper_comp_def)
  have r: "lists_dir demo_commit [] (projr (tv_root demo_view))"
    by (auto simp: lists_dir_def demo_view_def demo_commit_def e)
  have t: "lists_dir demo_commit [''m''] (projr (tv_tree demo_view ''m''))"
    by (auto simp: lists_dir_def demo_view_def demo_commit_def e)
  have q: "q \<noteq> [] \<and> x = rel_path q \<and> ([''m''] @ q, m, k) \<in> demo_commit \<longleftrightarrow> q = [''x''] \<and> x = ''x'' \<and> m = FmRegular \<and> k = ''1''"
    for q x m k by (auto simp: demo_commit_def)
  have w: "walks_dir demo_commit [''m''] (fst (tv_walk demo_view ''m''))"
    unfolding walks_dir_def q by (auto simp: demo_view_def)
  have "ds = [''m'']" if "(ds, FmDir, k) \<in> demo_commit" for ds k
    using that by (auto simp: demo_commit_def)
  then show ?thesis
    unfolding faithful_view_def using p r t w by (fastforce simp: demo_view_def)
qed

theorem sparse_selects_cone_witness:
  "\<exists>sel. sparse_entries demo_view (demo_dl ''v1'' \<lparr>gd_subdir := ''m''\<rparr>) [] = Inr sel \<and>
     set (sel_files sel) = {\<lparr>se_path = rel_path p, se_mode = m, se_hash = k\<rparr> | p m k.
       (p, m, k) \<in> demo_commit \<and> materialisable m \<and> in_cone [''m''] p}"
proof (rule sparse_selects_cone [OF demo_faithful])
  show "way_to [''m''] demo_commit" by (auto simp: way_to_def strict_prefix_def prefix_Cons)
  show "([''m''], FmDir, ''d'') \<in> demo_commit" by (simp add: demo_commit_def)
qed simp

text \<open>
  C6. Whatever the paths of the entries are, with any number of \<^verbatim>\<open>..\<close> in them, writing a selection
  changes nothing outside the destination, and a selection with an entry that leads out of it
  fails; this provided no entry inside the destination lies beneath, or (being a file) at, one of
  the symbolic links of the selection.  The links it leaves are those of the selection.
\<close>

theorem materialise_confined:
  assumes "plain_comps root" and "link_free root f" and "no_path_through_link root es"
    and "materialise os_mode blob disk f es (abs_path root) = (g, err)"
  shows "confined root f g \<and> links_only (links_of root es) root g \<and>
    ((\<exists>e\<in>set es. \<not> prefix root (target_of root (se_path e))) \<longrightarrow> err \<noteq> None)"
proof -
  have "links_only (links_of root es) root f" using assms(2) by (auto simp: links_only_def)
  moreover have "\<forall>e\<in>set es. entry_clear (links_of root es) root e" using assms(3) by (simp add: no_path_through_link_def)
  ultimately have "confined root f g \<and> links_only (links_of root es) root g"
    by (rule materialise_step_confined [OF assms(1) _ _ assms(4)])
  moreover have "err \<noteq> None" if "e \<in> set es" "\<not> prefix root (target_of root (se_path e))" for e
    using materialise_refuses [OF assms(1) that, of os_mode blob disk f] assms(4) by simp
  ultimately show ?thesis by blast
qed

definition demo_mode :: "filemode \<Rightarrow> nat result" where
  "demo_mode m = (case m of FmRegular \<Rightarrow> Inr 420 | FmExecutable \<Rightarrow> Inr 493 | _ \<Rightarrow> Inl (errors_new ''malformed mode''))"

definition demo_blob :: "string \<Rightarrow> reader result" where
  "demo_blob h = Inr (file_reader (if h = ''1'' then ''/etc'' else ''data''))"

definition demo_tree_fs :: fs where
  "demo_tree_fs = \<lparr>fs_nodes = [([''etc''], Dir 493), ([''t''], Dir 493)], fs_cwd = []\<rparr>"

theorem materialise_confined_witness:
  "case materialise demo_mode demo_blob (\<lambda>_. None) demo_tree_fs
     [\<lparr>se_path = ''m/l'', se_mode = FmSymlink, se_hash = ''1''\<rparr>, \<lparr>se_path = ''m/../x'', se_mode = FmRegular, se_hash = ''2''\<rparr>,
      \<lparr>se_path = ''m/../../etc/cron'', se_mode = FmRegular, se_hash = ''2''\<rparr>] ''/t'' of
   (g, err) \<Rightarrow> err \<noteq> None \<and> fs_get g [''t'', ''x''] = Some (Regular 420 ''data'') \<and> confined [''t''] demo_tree_fs g"
proof -
  let ?es = "[\<lparr>se_path = ''m/l'', se_mode = FmSymlink, se_hash = ''1''\<rparr>, \<lparr>se_path = ''m/../x'', se_mode = FmRegular, se_hash = ''2''\<rparr>,
    \<lparr>se_path = ''m/../../etc/cron'', se_mode = FmRegular, se_hash = ''2''\<rparr>]"
  obtain g err where r: "materialise demo_mode demo_blob (\<lambda>_. None) demo_tree_fs ?es (abs_path [''t'']) = (g, err)" by fastforce
  have m: "target_of [''t''] ''m/l'' = [''t'', ''m'', ''l'']" "target_of [''t''] ''m/../x'' = [''t'', ''x'']"
    "target_of [''t''] ''m/../../etc/cron'' = [''etc'', ''cron'']" "plain_comps [''t'']" "abs_path [''t''] = ''/t''" by code_simp+
  have L: "links_of [''t''] ?es \<subseteq> {[''t'', ''m'', ''l'']}" using m by (auto simp: links_of_def)
  have "?es ! 0 \<in> set ?es" by (rule nth_mem) simp
  then have "[''t'', ''m'', ''l''] \<in> links_of [''t''] ?es"
    unfolding links_of_def using m by (intro CollectI exI [of _ "?es ! 0"]) simp
  with L have "links_of [''t''] ?es = {[''t'', ''m'', ''l'']}" by blast
  then have "no_path_through_link [''t''] ?es"
    using m by (simp add: no_path_through_link_def entry_clear_def avoids_def)
  moreover have "link_free [''t''] demo_tree_fs" by (auto simp: links_only_def demo_tree_fs_def fs_get_def)
  moreover have "case materialise demo_mode demo_blob (\<lambda>_. None) demo_tree_fs ?es ''/t'' of
    (g, err) \<Rightarrow> fs_get g [''t'', ''x''] = Some (Regular 420 ''data'')" by code_simp
  ultimately show ?thesis using materialise_confined [OF m(4) _ _ r] r m by auto
qed

text \<open>
  Without that proviso the containment check does not hold what it promises: given a tree with
  a link and a directory of the same name, the link is written first and the files of the directory
  are then written through it, outside the destination.
\<close>

theorem materialise_through_link_escapes:
  "case materialise demo_mode demo_blob (\<lambda>_. None) demo_tree_fs
     [\<lparr>se_path = ''m/l'', se_mode = FmSymlink, se_hash = ''1''\<rparr>, \<lparr>se_path = ''m/l/cron'', se_mode = FmRegular, se_hash = ''2''\<rparr>] ''/t'' of
   (g, err) \<Rightarrow> err = None \<and> fs_get demo_tree_fs [''etc'', ''cron''] = None \<and> fs_get g [''etc'', ''cron''] = Some (Regular 420 ''data'')"
  by code_simp

end
