(* ===== verification/Git_Archive.thy ===== *)
theory Git_Archive
  imports Git_Auth Git_Tree
begin

text \<open>
  The archive fallback for commits the Git protocol cannot serve (\<^verbatim>\<open>protocols/git/git_archive.go\<close>)
  and the trimming of failed responses (\<^verbatim>\<open>protocols/git/errbody.go\<close>).  The HTTP exchange, gzip and the tar
  reader are parameters.
\<close>

section \<open>Failed responses\<close>

record http_response =
  hr_status :: int
  hr_content_type :: string
  hr_body :: "reader option"
  hr_length :: int

definition max_err_body :: int where
  "max_err_body = 1024"

definition is_html_body :: "string \<Rightarrow> string \<Rightarrow> bool" where
  "is_html_body content_type body =
     (if has_prefix (to_lower (trim_space content_type)) ''text/html'' then True
      else let start = to_lower (trim_left (\<lambda>c. c \<in> {CHR '' '', CHR 0x09, CHR 0x0D, CHR 0x0A}) body)
           in has_prefix start ''<!doctype'' \<or> has_prefix start ''<html'')"

text \<open>\<^verbatim>\<open>errBodyStripper.RoundTrip\<close> on what the transport beneath answers.\<close>

definition strip_error_body :: "http_response result \<Rightarrow> http_response result" where
  "strip_error_body r =
     (case r of
        Inl err \<Rightarrow> Inl err
      | Inr resp \<Rightarrow>
          (case hr_body resp of
             None \<Rightarrow> Inr resp
           | Some b \<Rightarrow>
               if hr_status resp < 300 then Inr resp
               else
                 let (data, read_err) = io_copy None (limit_reader b (max_err_body + 1));
                     body = (if read_err \<noteq> None \<or> max_err_body < int (length data) \<or>
                                is_html_body (hr_content_type resp) data then [] else data)
                 in Inr (resp\<lparr>hr_body := Some \<lparr>rd_data = body, rd_end = None\<rparr>, hr_length := int (length body)\<rparr>)))"

section \<open>Where the archive is\<close>

text \<open>The \<^verbatim>\<open>SplitN\<close> into at most three parts.\<close>

definition parse_owner_repo :: "string \<Rightarrow> (string \<times> string) result" where
  "parse_owner_repo raw =
     (let p = trim_suffix (trim_prefix raw ''/'') ''.git''
      in case cut_str p ''/'' of
           (owner, rest, ok) \<Rightarrow>
             let repo = fst (cut_str rest ''/'')
             in if \<not> ok \<or> owner = [] \<or> repo = []
                then Inl (Errorf ''cannot parse owner/repo from path %q'' [raw] [])
                else Inr (owner, repo))"

definition on_host :: "string \<Rightarrow> string \<Rightarrow> bool" where
  "on_host host site \<longleftrightarrow> host = site \<or> has_suffix host (''.'' @ site)"

definition archive_url :: "url \<Rightarrow> string \<Rightarrow> string result" where
  "archive_url u ref =
     bind_result (parse_owner_repo (u_path u)) (\<lambda>(owner, repo).
       let host = to_lower (url_hostname u)
       in if on_host host ''github.com''
          then Inr (''https://api.github.com/repos/'' @ owner @ ''/'' @ repo @ ''/tarball/'' @ ref)
          else if on_host host ''gitlab.com''
          then Inr (''https://gitlab.com/api/v4/projects/'' @ owner @ ''%2F'' @ repo @ ''/repository/archive.tar.gz?sha='' @ ref)
          else if on_host host ''bitbucket.org''
          then Inr (''https://bitbucket.org/'' @ owner @ ''/'' @ repo @ ''/get/'' @ ref @ ''.tar.gz'')
          else Inl (Errorf ''unsupported git hosting platform %q for archive fallback'' [host] []))"

definition token_from_env :: "(string \<Rightarrow> string) \<Rightarrow> string \<Rightarrow> string" where
  "token_from_env getenv raw_host =
     (let host = to_lower raw_host
      in if on_host host ''github.com''
         then (if getenv ''GH_TOKEN'' \<noteq> [] then getenv ''GH_TOKEN'' else getenv ''GITHUB_TOKEN'')
         else if on_host host ''gitlab.com''
         then (if getenv ''GITLAB_TOKEN'' \<noteq> [] then getenv ''GITLAB_TOKEN'' else getenv ''GL_TOKEN'')
         else if on_host host ''bitbucket.org'' then getenv ''BITBUCKET_TOKEN''
         else [])"

definition archive_credentials ::
    "('n, 'g) auth_env \<Rightarrow> 't settings \<Rightarrow> 'n sys \<Rightarrow> url \<Rightarrow> 'n sys \<times> (string \<times> string) option" where
  "archive_credentials env s w u =
     (let user = (case u_user u of None \<Rightarrow> []
            | Some ui \<Rightarrow> if ui_username ui \<noteq> [] \<and> ui_username ui \<noteq> ''git'' then ui_username ui else []);
          pw = (case u_user u of None \<Rightarrow> None
            | Some ui \<Rightarrow> if ui_username ui \<noteq> [] \<and> ui_username ui \<noteq> ''git'' then ui_password ui else None)
      in case pw of
           Some p \<Rightarrow> (w, Some (user, p))
         | None \<Rightarrow>
             (case match_https_credential s (url_string u) of
                Some c \<Rightarrow> (w, Some (hc_username c, hc_password c))
              | None \<Rightarrow>
                  (case request_credential s (u_scheme u) (url_hostname u) (u_path u) of
                     Some c \<Rightarrow> (w, Some c)
                   | None \<Rightarrow>
                       (case (if \<not> no_system_fallback s \<and> (u_scheme u = ''https'' \<or> u_scheme u = ''http'')
                              then git_credential_fill env w (u_scheme u) (url_hostname u) user else (w, None)) of
                          (w1, Some c) \<Rightarrow> (w1, Some c)
                        | (w1, None) \<Rightarrow> if user \<noteq> [] then (w1, Some (user, [])) else (w1, None)))))"

section \<open>Extraction\<close>

definition contains_dot_dot :: "string \<Rightarrow> bool" where
  "contains_dot_dot v =
     (if \<not> contains_str v ''..'' then False
      else ''..'' \<in> set (fields_func (\<lambda>r. r = CHR ''/'' \<or> r = CHR 0x5C) v))"

definition archive_selects :: "string \<Rightarrow> string \<Rightarrow> bool \<Rightarrow> bool \<times> bool" where
  "archive_selects rel subdir dirp =
     (if rel = subdir \<or> has_prefix rel (trim_right (\<lambda>c. c = CHR ''/'') subdir @ ''/'') then (True, True)
      else if dirp then (False, False)
      else let dir = path_dir rel; parent = (if dir = ''.'' then [] else dir)
           in (parent \<in> set (ancestor_dirs subdir), False))"

definition write_archive_file ::
    "disk \<Rightarrow> fs \<Rightarrow> string \<Rightarrow> reader \<Rightarrow> nat \<Rightarrow> bool \<Rightarrow> int \<Rightarrow> fs \<times> int \<times> goerr option" where
  "write_archive_file disk f path r mode limited remaining =
     (case mkdir_all f (path_dir path) 493 of
        (g, Some err) \<Rightarrow> (g, 0, Some err)
      | (g, None) \<Rightarrow>
          (case open_create g path mode of
             (h, Inl err) \<Rightarrow> (h, 0, Some err)
           | (h, Inr p) \<Rightarrow>
               if \<not> limited
               then (case io_copy (disk p) r of (w, err) \<Rightarrow> (fs_write h p w, int (length w), err))
               else (case io_copy (disk p) (limit_reader r (wrap64 (remaining + 1))) of
                  (w, Some err) \<Rightarrow> (fs_write h p w, int (length w), Some err)
                | (w, None) \<Rightarrow>
                    (fs_write h p w, int (length w),
                     if remaining < int (length w) then Some exceeds_error else None))))"

record archive_state =
  as_fs :: fs
  as_top :: string
  as_found :: bool
  as_remaining :: int

text \<open>One header: the state after it, and the error that ends the extraction.\<close>

definition archive_step ::
    "disk \<Rightarrow> string \<Rightarrow> string \<Rightarrow> int \<Rightarrow> archive_state \<Rightarrow> tar_entry \<Rightarrow> archive_state \<times> goerr option" where
  "archive_step disk dst subdir limit st h =
     (if te_type h = TypeXGlobalHeader \<or> te_type h = TypeXHeader then (st, None)
      else if contains_dot_dot (te_name h)
      then (st, Some (Errorf ''archive entry contains '' [te_name h] []))
      else
        let pre = (if as_top st = [] then fst (cut_str (te_name h) ''/'') @ ''/'' else as_top st);
            rel = trim_prefix (te_name h) pre;
            dirp = mode_is_dir (te_mode h);
            (selected, under) = (if subdir \<noteq> [] then archive_selects rel subdir dirp else (True, True));
            st1 = st\<lparr>as_top := pre\<rparr>
        in if rel = [] then (st1, None)
           else if \<not> selected then (st1, None)
           else
             let st2 = st1\<lparr>as_found := as_found st \<or> under\<rparr>;
                 out = path_join [dst, from_slash rel]
             in if dirp
                then (case mkdir_all (as_fs st2) out 493 of (g, err) \<Rightarrow> (st2\<lparr>as_fs := g\<rparr>, err))
                else (case write_archive_file disk (as_fs st2) out (te_body h) (unat (mode_perm (te_mode h)))
                             (0 < limit) (as_remaining st2) of
                        (g, n, Some err) \<Rightarrow> (st2\<lparr>as_fs := g\<rparr>, Some err)
                      | (g, n, None) \<Rightarrow> (st2\<lparr>as_fs := g, as_remaining := wrap64 (as_remaining st2 - n)\<rparr>, None)))"

fun archive_loop ::
    "disk \<Rightarrow> string \<Rightarrow> string \<Rightarrow> int \<Rightarrow> archive_state \<Rightarrow> tar_entry list \<Rightarrow> goerr option \<Rightarrow> archive_state \<times> goerr option" where
  "archive_loop disk dst subdir limit st [] fin = (st, fin)"
| "archive_loop disk dst subdir limit st (h # hs) fin =
     (case archive_step disk dst subdir limit st h of
        (st1, Some err) \<Rightarrow> (st1, Some err)
      | (st1, None) \<Rightarrow> archive_loop disk dst subdir limit st1 hs fin)"

definition extract_archive ::
    "codecs \<Rightarrow> disk \<Rightarrow> fs \<Rightarrow> reader \<Rightarrow> string \<Rightarrow> string \<Rightarrow> int \<Rightarrow> fs \<times> goerr option" where
  "extract_archive cd disk f r dst subdir limit =
     (case tar_reader cd r of
        (hs, fin) \<Rightarrow>
          (case archive_loop disk dst subdir limit
                  \<lparr>as_fs = f, as_top = [], as_found = False, as_remaining = limit\<rparr> hs fin of
             (st, Some err) \<Rightarrow> (as_fs st, Some err)
           | (st, None) \<Rightarrow>
               if subdir \<noteq> [] \<and> \<not> as_found st
               then (as_fs st, Some (Errorf ''subdirectory %q not found in archive'' [subdir] []))
               else (as_fs st, None)))"

section \<open>The download\<close>

datatype authorization = NoAuthorization | BasicAuthorization string string | Bearer string

record ('n, 'g) archive_env =
  ar_auth :: "('n, 'g) auth_env"
  ar_net :: net_env
  ar_check :: check_env
  ar_getenv :: "string \<Rightarrow> string"
  ar_http :: "'n sys \<Rightarrow> round_tripper \<Rightarrow> string \<Rightarrow> authorization \<Rightarrow> 'n sys \<times> http_response result"
  ar_codecs :: codecs
  ar_disk :: disk
  ar_override :: string

definition archive_authorization ::
    "('n, 'g) archive_env \<Rightarrow> transport settings \<Rightarrow> 'n sys \<Rightarrow> url \<Rightarrow> 'n sys \<times> authorization" where
  "archive_authorization env s w u =
     (case archive_credentials (ar_auth env) s w u of
        (w1, Some (n, p)) \<Rightarrow> (w1, BasicAuthorization n p)
      | (w1, None) \<Rightarrow>
          let token = token_from_env (ar_getenv env) (url_hostname u)
          in (w1, if \<not> no_system_fallback s \<and> token \<noteq> [] then Bearer token else NoAuthorization))"

text \<open>A body that breaks off makes the decompressed stream break off.\<close>

definition gunzip :: "codecs \<Rightarrow> reader \<Rightarrow> reader result" where
  "gunzip cd b =
     bind_result (gzip_reader cd (rd_data b))
       (\<lambda>g. Inr (case rd_end b of None \<Rightarrow> g | Some err \<Rightarrow> g\<lparr>rd_end := Some err\<rparr>))"

definition receive_archive ::
    "('n, 'g) archive_env \<Rightarrow> transport settings \<Rightarrow> git_dl \<Rightarrow> string \<Rightarrow> 'n sys \<Rightarrow> string \<Rightarrow> http_response result \<Rightarrow>
     'n sys \<times> goerr option" where
  "receive_archive env s d tmp w aurl r =
     (case r of
        Inl err \<Rightarrow> (w, Some (Errorf ''downloading archive from %s: %w'' [aurl] [err]))
      | Inr resp \<Rightarrow>
          if hr_status resp \<noteq> 200
          then (w, Some (Errorf ''downloading archive from %s: HTTP %d'' [aurl, dec_string (hr_status resp)] []))
          else case gunzip (ar_codecs env) (case hr_body resp of None \<Rightarrow> file_reader [] | Some b \<Rightarrow> b) of
            Inl err \<Rightarrow> (w, Some (Errorf ''decompressing archive: %w'' [] [err]))
          | Inr g \<Rightarrow>
              (case extract_archive (ar_codecs env) (ar_disk env) (sys_fs w) g tmp (gd_subdir d) (max_bytes s) of
                 (f, None) \<Rightarrow> (w\<lparr>sys_fs := f\<rparr>, None)
               | (f, Some err) \<Rightarrow> (w\<lparr>sys_fs := f\<rparr>, Some (Errorf ''extracting archive: %w'' [] [err]))))"

definition fetch_archive ::
    "('n, 'g) archive_env \<Rightarrow> transport settings \<Rightarrow> git_dl \<Rightarrow> 'n sys \<Rightarrow> string \<Rightarrow> 'n sys \<times> goerr option" where
  "fetch_archive env s d w tmp =
     (case url_parse (ssh_to_https (gd_repo_url d)) of
        None \<Rightarrow> (w, Some (errors_new ''parsing repo URL for archive fallback''))
      | Some u \<Rightarrow>
          (case (if ar_override env = [] then archive_url u (gd_ref d) else Inr (ar_override env)) of
             Inl err \<Rightarrow> (w, Some err)
           | Inr aurl \<Rightarrow>
               (case url_parse aurl of
                  None \<Rightarrow> (w, Some (errors_new ''parse''))
                | Some au \<Rightarrow>
                    (case archive_authorization env s w u of
                       (w1, authz) \<Rightarrow>
                         (case round_tripper_for_host (ar_net env) (ar_check env) s (url_hostname au) of
                            Inl err \<Rightarrow> (w1, Some (Errorf ''configuring archive transport: %w'' [] [err]))
                          | Inr rt \<Rightarrow>
                              (case ar_http env w1 rt aurl authz of
                                 (w2, r) \<Rightarrow> receive_archive env s d tmp w2 aurl r))))))"

section \<open>Facts\<close>

lemma path_dir_rel:
  assumes "plain_comps (ds @ [c])"
  shows "path_dir (rel_path (ds @ [c])) = (if ds = [] then ''.'' else rel_path ds)"
proof -
  have c: "c \<noteq> []" "CHR ''/'' \<notin> set c" "plain_comps ds" using plain_comp_last [OF assms] by auto
  show ?thesis
  proof (cases "ds = []")
    case True
    have "last_index_chr c CHR ''/'' = None" using c(2) by (induction c) auto
    moreover have "path_clean [] = ''.''" by code_simp
    ultimately show ?thesis using True by (simp add: path_dir_def)
  next
    case False
    have "path_dir (rel_path (ds @ [c])) = path_clean (rel_path ds @ ''/'')"
      using last_index_chr_new [OF c(2), of "rel_path ds"] False by (simp add: path_dir_def join_str_append)
    moreover have "path_comps (rel_path ds @ ''/'') = ds" "\<not> is_abs (rel_path ds @ ''/'')"
      using path_comps_append [of "rel_path ds" "[]"] path_comps_unsplit [OF plain_normal_rel [OF c(3)]]
        is_abs_unsplit [OF plain_normal_rel [OF c(3)]] rel_path_not_Nil [OF c(3) False] False
      by (simp_all add: clean_comps_def clean_step_def unsplit_def is_abs_append)
    ultimately show ?thesis using False by (simp add: path_clean_def unsplit_def)
  qed
qed

lemma last_rel_path:
  assumes "plain_comps sub" and "sub \<noteq> []"
  shows "trim_right (\<lambda>c. c = CHR ''/'') (rel_path sub) = rel_path sub"
proof -
  have "last (rel_path sub) \<noteq> CHR ''/''"
    using last_abs_path [OF assms] rel_path_not_Nil [OF assms] by (simp add: unsplit_def)
  then show ?thesis using rel_path_not_Nil [OF assms] by (simp add: trim_right_id)
qed

lemma beneath_iff:
  assumes "plain_comps p" and "plain_comps sub" and "sub \<noteq> []"
  shows "has_prefix (rel_path p) (rel_path sub @ ''/'') \<longleftrightarrow> strict_prefix sub p"
  using prefix_slash_iff [OF plain_normal_rel [OF assms(1)] plain_normal_rel [OF assms(2)] assms(3)]
  by (auto simp: strict_prefix_def prefix_def neq_Nil_conv)

text \<open>An element that is \<^verbatim>\<open>..\<close> is found between slashes of either kind.\<close>

lemma fields_func_elem:
  "x \<noteq> [] \<Longrightarrow> \<forall>c\<in>set x. \<not> P c \<Longrightarrow> a = [] \<or> P (last a) \<Longrightarrow> b = [] \<or> P (hd b) \<Longrightarrow>
   x \<in> set (fields_func P (a @ x @ b))"
proof (induction P "a @ x @ b" arbitrary: a rule: fields_func.induct)
  case (2 P c s)
  show ?case
  proof (cases a)
    case Nil
    have "takeWhile (\<lambda>y. \<not> P y) (x @ b) = x"
      using 2(5,7) by (cases b) (auto simp: takeWhile_append2)
    then obtain y ys where "x = y # ys" "\<not> P y" "takeWhile (\<lambda>y. \<not> P y) (ys @ b) = ys"
      using 2(4,5) by (cases x) auto
    then show ?thesis using Nil by simp
  next
    case (Cons d a')
    then have s: "s = a' @ x @ b" "c = d" using 2(3) by auto
    show ?thesis
    proof (cases "P c")
      case True
      have "a' = [] \<or> P (last a')" using 2(6) Cons by (auto split: if_splits)
      then show ?thesis using 2(1) [OF True s(1) 2(4,5)] 2(7) True s Cons by simp
    next
      case False
      then have a': "a' \<noteq> []" "P (last a')" using 2(6) Cons s by (auto split: if_splits)
      let ?r = "dropWhile (\<lambda>y. \<not> P y) a'"
      have "\<exists>z\<in>set a'. P z" using a' last_in_set by blast
      then have d: "dropWhile (\<lambda>y. \<not> P y) s = ?r @ x @ b" "?r \<noteq> []"
        using s(1) by (auto simp: dropWhile_append)
      have "P (last ?r)" using a' d(2) by (metis last_appendR takeWhile_dropWhile_id)
      then show ?thesis using 2(2) [OF False d(1) 2(4,5) _ 2(7)] d(1) [unfolded s(1)] False s Cons by simp
    qed
  qed
qed simp

lemma split_elem:
  assumes "x \<in> set (split_chr c s)"
  shows "\<exists>a b. s = a @ x @ b \<and> (a = [] \<or> last a = c) \<and> (b = [] \<or> hd b = c)"
proof -
  obtain xs ys where "split_chr c s = xs @ x # ys" using assms by (meson split_list)
  then have s: "s = join_str [c] (xs @ x # ys)" using join_split [of c s] by simp
  have y: "join_str [c] (x # ys) = x @ (if ys = [] then [] else c # join_str [c] ys)"
    by (simp add: join_str_Cons)
  show ?thesis
  proof (cases "xs = []")
    case True
    then show ?thesis using s y by (intro exI [of _ "[]"] exI [of _ "if ys = [] then [] else c # join_str [c] ys"]) simp
  next
    case False
    then have "s = (join_str [c] xs @ [c]) @ x @ (if ys = [] then [] else c # join_str [c] ys)"
      using s y by (simp add: join_str_append)
    then show ?thesis
      by (intro exI [of _ "join_str [c] xs @ [c]"] exI [of _ "if ys = [] then [] else c # join_str [c] ys"]) simp
  qed
qed

lemma dot_dot_elem:
  assumes "\<not> contains_dot_dot v"
  shows "''..'' \<notin> set (split_chr CHR ''/'' v)"
proof
  let ?P = "\<lambda>r. r = CHR ''/'' \<or> r = CHR 0x5C"
  assume "''..'' \<in> set (split_chr CHR ''/'' v)"
  then obtain a b where v: "v = a @ ''..'' @ b" "a = [] \<or> last a = CHR ''/''" "b = [] \<or> hd b = CHR ''/''"
    using split_elem by blast
  have "''..'' \<in> set (fields_func ?P (a @ ''..'' @ b))"
    using v(2,3) by (intro fields_func_elem) auto
  moreover have "contains_str v ''..''" using v(1) by (auto simp: contains_str_iff)
  ultimately show False using assms v(1) by (simp add: contains_dot_dot_def)
qed

lemma trim_top_elem:
  assumes "''..'' \<notin> set (split_chr CHR ''/'' name)"
  shows "''..'' \<notin> set (split_chr CHR ''/'' (trim_prefix name (t @ ''/'')))"
proof (cases "has_prefix name (t @ ''/'')")
  case True
  then obtain r where r: "name = (t @ ''/'') @ r" by (auto simp: has_prefix_iff)
  have "trim_prefix name (t @ ''/'') = r" unfolding r by (rule trim_prefix_append)
  moreover have "split_chr CHR ''/'' name = split_chr CHR ''/'' t @ split_chr CHR ''/'' r"
    unfolding r using split_chr_append_sep [of "CHR ''/''" t r] by simp
  ultimately show ?thesis using assms by simp
qed (use assms in \<open>simp add: trim_prefix_def\<close>)

section \<open>Extraction stays under the destination\<close>

lemma write_archive_file_confined:
  assumes "plain_comps cs" and "prefix root cs" and "link_free root f"
    and "write_archive_file disk f (abs_path cs) r m limited rem = (g, n, err)"
  shows "confined root f g \<and> link_free root g"
proof -
  obtain h e1 where h: "mkdir_all f (path_dir (abs_path cs)) 493 = (h, e1)" by fastforce
  note hc = mkdir_above [OF assms(1-3) h avoids_empty]
  show ?thesis
  proof (cases e1)
    case (Some a)
    then show ?thesis using assms(4) h hc by (simp add: write_archive_file_def)
  next
    case None
    obtain k res where k: "open_create h (abs_path cs) m = (k, res)" by fastforce
    note kc = open_create_confined [OF assms(1) hc [THEN conjunct2] assms(2) k avoids_empty]
    have fk: "confined root f k" using hc kc confined_trans by blast
    have w: "confined root f (fs_write k p d) \<and> link_free root (fs_write k p d)" if "res = Inr p" for p d
      using write_confined [where root = root and p = p and f = k and d = d] kc assms(2) that confined_trans [OF fk] by auto
    have "g = k \<or> (\<exists>p d. res = Inr p \<and> g = fs_write k p d)"
      using assms(4) h None k
      by (cases res) (auto simp: write_archive_file_def split: prod.splits option.splits if_splits)
    then show ?thesis using fk kc w by auto
  qed
qed

definition top_ok :: "string \<Rightarrow> bool" where
  "top_ok pre \<longleftrightarrow> pre = [] \<or> (\<exists>t. pre = t @ ''/'')"

lemma archive_step_confined:
  assumes "plain_comps root" and "link_free root (as_fs st)" and "top_ok (as_top st)"
    and "archive_step disk (abs_path root) subdir limit st h = (st1, err)"
  shows "confined root (as_fs st) (as_fs st1) \<and> link_free root (as_fs st1) \<and> top_ok (as_top st1)"
proof (cases "te_type h = TypeXGlobalHeader \<or> te_type h = TypeXHeader \<or> contains_dot_dot (te_name h)")
  case True
  then have "st1 = st" using assms(4) by (auto simp: archive_step_def split: if_splits)
  then show ?thesis using assms(2,3) by simp
next
  case False
  let ?top = "if as_top st = [] then fst (cut_str (te_name h) ''/'') @ ''/'' else as_top st"
  let ?rel = "trim_prefix (te_name h) ?top"
  obtain t where t: "?top = t @ ''/''" using assms(3) by (auto simp: top_ok_def)
  then have tok: "top_ok ?top" by (simp add: top_ok_def)
  have "''..'' \<notin> set (split_chr CHR ''/'' ?rel)"
    unfolding t using dot_dot_elem [of "te_name h"] False by (intro trim_top_elem) auto
  then have "contained (abs_path root) (path_join [abs_path root, ?rel])"
    by (intro contained_join_plain) simp_all
  then obtain q where q: "path_join [abs_path root, ?rel] = abs_path (root @ q)" "plain_comps (root @ q)"
    using join_abs assms(1) by blast
  let ?out = "abs_path (root @ q)"
  obtain g1 e1 where m: "mkdir_all (as_fs st) ?out 493 = (g1, e1)" by fastforce
  note mc = mkdir_at [OF q(2) _ assms(2) m avoids_empty]
  obtain g2 n e2 where w: "write_archive_file disk (as_fs st) ?out (te_body h) (unat (mode_perm (te_mode h)))
      (0 < limit) (as_remaining st) = (g2, n, e2)" by (metis prod_cases3)
  note wc = write_archive_file_confined [OF q(2) _ assms(2) w]
  have "as_fs st1 \<in> {as_fs st, g1, g2} \<and> as_top st1 = ?top"
    using assms(4) False m w q(1)
    by (auto simp: archive_step_def from_slash_def Let_def split: prod.splits option.splits if_splits)
  then show ?thesis using mc wc tok assms(2) by auto
qed

lemma archive_loop_confined:
  "plain_comps root \<Longrightarrow> link_free root (as_fs st) \<Longrightarrow> top_ok (as_top st) \<Longrightarrow>
   archive_loop disk (abs_path root) subdir limit st hs fin = (st1, err) \<Longrightarrow>
   confined root (as_fs st) (as_fs st1) \<and> link_free root (as_fs st1)"
proof (induction hs arbitrary: st)
  case (Cons h hs)
  obtain st2 e where s: "archive_step disk (abs_path root) subdir limit st h = (st2, e)" by fastforce
  note step = archive_step_confined [OF Cons.prems(1-3) s]
  show ?case
  proof (cases e)
    case None
    then have "archive_loop disk (abs_path root) subdir limit st2 hs fin = (st1, err)" using Cons.prems(4) s by simp
    then show ?thesis using Cons.IH [OF Cons.prems(1)] step confined_trans by blast
  next
    case (Some a)
    then show ?thesis using Cons.prems(4) s step by simp
  qed
qed simp

section \<open>Properties\<close>

text \<open>
  Extracting a hosting platform's archive, whatever its entries are called, changes nothing
  outside the destination and creates no link.
\<close>

theorem extract_archive_confined:
  assumes "plain_comps root" and "link_free root f"
    and "extract_archive cd disk f r (abs_path root) subdir limit = (g, err)"
  shows "confined root f g \<and> link_free root g"
proof -
  obtain hs fin where t: "tar_reader cd r = (hs, fin)" by fastforce
  let ?st = "\<lparr>as_fs = f, as_top = [], as_found = False, as_remaining = limit\<rparr>"
  obtain st e where l: "archive_loop disk (abs_path root) subdir limit ?st hs fin = (st, e)" by fastforce
  have "g = as_fs st" using assms(3) t l by (simp add: extract_archive_def split: option.splits if_splits)
  then show ?thesis using archive_loop_confined [OF assms(1) _ _ l] assms(2) by (simp add: top_ok_def)
qed

definition demo_archive :: "tar_entry list" where
  "demo_archive =
     [\<lparr>te_name = ''o-r-1/'', te_type = TypeDir, te_mode = 0x800001ED, te_body = file_reader []\<rparr>,
      \<lparr>te_name = ''o-r-1/m/l'', te_type = TypeSymlink, te_mode = 0x1FF, te_body = file_reader []\<rparr>,
      \<lparr>te_name = ''o-r-1/m/x'', te_type = TypeReg, te_mode = 0x1A4, te_body = file_reader ''data''\<rparr>,
      \<lparr>te_name = ''o-r-1/n/y'', te_type = TypeReg, te_mode = 0x1A4, te_body = file_reader ''other''\<rparr>]"

definition archive_codecs :: codecs where
  "archive_codecs = demo_codecs\<lparr>tar_reader := \<lambda>r. (demo_archive, None)\<rparr>"

theorem extract_archive_confined_witness:
  "case extract_archive archive_codecs (\<lambda>_. None) demo_fs (file_reader []) ''/out'' ''m'' 100 of
     (g, err) \<Rightarrow> err = None \<and> fs_get g [''out'', ''m'', ''x''] = Some (Regular 420 ''data'') \<and>
       fs_get g [''out'', ''n'', ''y''] = None \<and> confined [''out''] demo_fs g"
proof -
  obtain g err where r: "extract_archive archive_codecs (\<lambda>_. None) demo_fs (file_reader []) (abs_path [''out'']) ''m'' 100 = (g, err)"
    by fastforce
  have "case extract_archive archive_codecs (\<lambda>_. None) demo_fs (file_reader []) ''/out'' ''m'' 100 of
     (g, err) \<Rightarrow> err = None \<and> fs_get g [''out'', ''m'', ''x''] = Some (Regular 420 ''data'') \<and>
       fs_get g [''out'', ''n'', ''y''] = None"
    by code_simp
  moreover have "plain_comps [''out'']" "abs_path [''out''] = ''/out''" by code_simp+
  ultimately show ?thesis using extract_archive_confined [OF _ demo_link_free r] r by auto
qed

text \<open>
  The archive fallback and the Git path agree on what belongs to a subdirectory: a file of the
  archive is extracted exactly when it is in the cone that the sparse selection takes, and it counts
  as evidence that the subdirectory exists exactly when it is beneath it or is it.
\<close>

theorem archive_selects_cone:
  assumes "plain_comps p" and "p \<noteq> []" and "plain_comps sub" and "sub \<noteq> []"
  shows "archive_selects (rel_path p) (rel_path sub) False = (in_cone sub p, prefix sub p)"
proof -
  have eq: "rel_path p = rel_path sub \<longleftrightarrow> p = sub" using rel_path_inj [OF assms(1,3)] by auto
  have under: "has_prefix (rel_path p) (trim_right (\<lambda>c. c = CHR ''/'') (rel_path sub) @ ''/'') \<longleftrightarrow> strict_prefix sub p"
    unfolding last_rel_path [OF assms(3,4)] by (rule beneath_iff [OF assms(1,3,4)])
  have p: "p = butlast p @ [last p]" using assms(2) by simp
  have b: "plain_comps (butlast p)" using assms(1) by (auto simp: plain_comps_def dest: in_set_butlastD)
  have "path_dir (rel_path p) = (if butlast p = [] then ''.'' else rel_path (butlast p))"
    using path_dir_rel [of "butlast p" "last p"] p assms(1) by simp
  moreover have "rel_path (butlast p) \<noteq> ''.''" if "butlast p \<noteq> []"
  proof
    assume "rel_path (butlast p) = ''.''"
    then have "butlast p = [''.'']" using rel_path_split [OF b that] by simp
    then show False using b by (simp add: plain_comps_def proper_comp_def)
  qed
  ultimately have parent: "(if path_dir (rel_path p) = ''.'' then [] else path_dir (rel_path p)) = rel_path (butlast p)"
    by simp
  have "rel_path (butlast p) \<in> set (ancestor_dirs (rel_path sub)) \<longleftrightarrow> strict_prefix (butlast p) sub"
    using rel_path_inj [OF b plain_comps_take [OF assms(3)]]
    by (auto simp: ancestor_dirs_rel [OF assms(3,4)] strict_prefix_take)
  moreover have "strict_prefix (butlast p) p"
    unfolding strict_prefix_take using assms(2) by (intro exI [of _ "length p - 1"]) (simp add: butlast_conv_take)
  ultimately show ?thesis
    unfolding archive_selects_def eq under parent Let_def
    by (auto simp: in_cone_def strict_prefix_def)
qed

theorem archive_selects_cone_witness:
  "archive_selects ''a/f'' ''a/b'' False = (True, False) \<and> archive_selects ''c/f'' ''a/b'' False = (False, False)"
proof -
  have "plain_comps [''a'', ''f'']" "plain_comps [''a'', ''b'']" "plain_comps [''c'', ''f'']" by code_simp+
  then show ?thesis
    using archive_selects_cone [of "[''a'', ''f'']" "[''a'', ''b'']"] archive_selects_cone [of "[''c'', ''f'']" "[''a'', ''b'']"]
    by (simp add: in_cone_def strict_prefix_def)
qed

text \<open>
  Whatever the repository's path and the ref contain, the archive is asked of the API host of
  the platform the repository is on, over HTTPS and without credentials in the URL.
\<close>

theorem archive_url_stays_on_platform:
  assumes "archive_url u ref = Inr raw" and "url_parse raw = Some au"
  shows "u_scheme au = ''https'' \<and> u_user au = None \<and>
    ((on_host (to_lower (url_hostname u)) ''github.com'' \<and> u_host au = ''api.github.com'') \<or>
     (on_host (to_lower (url_hostname u)) ''gitlab.com'' \<and> u_host au = ''gitlab.com'') \<or>
     (on_host (to_lower (url_hostname u)) ''bitbucket.org'' \<and> u_host au = ''bitbucket.org''))"
proof -
  obtain owner repo where o: "parse_owner_repo (u_path u) = Inr (owner, repo)"
    using assms(1) by (auto simp: archive_url_def bind_result_Inr_iff)
  have hosts: "list_all is_scp_host_char ''api.github.com''" "list_all is_scp_host_char ''gitlab.com''"
    "list_all is_scp_host_char ''bitbucket.org''" by code_simp+
  have parsed: "u_scheme au = ''https'' \<and> u_user au = None \<and> u_host au = h"
    if "raw = ''https://'' @ h @ ''/'' @ p" "list_all is_scp_host_char h" for h p
    using parse_https_host [of h p au] assms(2) that by simp
  consider "on_host (to_lower (url_hostname u)) ''github.com''"
      "raw = ''https://'' @ ''api.github.com'' @ ''/'' @ (''repos/'' @ owner @ ''/'' @ repo @ ''/tarball/'' @ ref)"
    | "on_host (to_lower (url_hostname u)) ''gitlab.com''"
      "raw = ''https://'' @ ''gitlab.com'' @ ''/'' @ (''api/v4/projects/'' @ owner @ ''%2F'' @ repo @ ''/repository/archive.tar.gz?sha='' @ ref)"
    | "on_host (to_lower (url_hostname u)) ''bitbucket.org''"
      "raw = ''https://'' @ ''bitbucket.org'' @ ''/'' @ (owner @ ''/'' @ repo @ ''/get/'' @ ref @ ''.tar.gz'')"
    using assms(1) o by (auto simp: archive_url_def Let_def split: if_splits)
  then show ?thesis by cases (use parsed hosts in blast)+
qed

definition demo_repo_url :: url where
  "demo_repo_url = empty_url\<lparr>u_scheme := ''https'', u_host := ''github.com'', u_path := ''/o/r.git''\<rparr>"

theorem archive_url_stays_on_platform_witness:
  "\<exists>au. url_parse ''https://api.github.com/repos/o/r/tarball/abc1234'' = Some au \<and> u_host au = ''api.github.com'' \<and> u_user au = None"
proof -
  have r: "archive_url demo_repo_url ''abc1234'' = Inr ''https://api.github.com/repos/o/r/tarball/abc1234''" by code_simp
  have "url_parse ''https://api.github.com/repos/o/r/tarball/abc1234'' \<noteq> None" by code_simp
  then obtain au where au: "url_parse ''https://api.github.com/repos/o/r/tarball/abc1234'' = Some au" by auto
  have "\<not> on_host (to_lower (url_hostname demo_repo_url)) ''gitlab.com''"
    "\<not> on_host (to_lower (url_hostname demo_repo_url)) ''bitbucket.org''" by code_simp+
  with archive_url_stays_on_platform [OF r au] au show ?thesis by blast
qed

text \<open>
  A repository in a nested GitLab group is not the one whose archive is fetched: everything
  after the second element of the path is dropped, so the request names the subgroup as the project.
\<close>

theorem nested_group_wrong_project:
  "archive_url (demo_repo_url\<lparr>u_host := ''gitlab.com'', u_path := ''/group/sub/repo.git''\<rparr>) ref =
     archive_url (demo_repo_url\<lparr>u_host := ''gitlab.com'', u_path := ''/group/sub.git''\<rparr>) ref \<and>
   archive_url (demo_repo_url\<lparr>u_host := ''gitlab.com'', u_path := ''/group/sub/repo.git''\<rparr>) ref =
     Inr (''https://gitlab.com/api/v4/projects/group%2Fsub/repository/archive.tar.gz?sha='' @ ref)"
proof -
  have "parse_owner_repo ''/group/sub/repo.git'' = Inr (''group'', ''sub'')" "parse_owner_repo ''/group/sub.git'' = Inr (''group'', ''sub'')"
    by code_simp+
  moreover have "url_hostname (demo_repo_url\<lparr>u_host := ''gitlab.com'', u_path := p\<rparr>) = ''gitlab.com''" for p
    by (rule hostname_plain(1) [THEN trans]) (code_simp, simp)
  moreover have "to_lower ''gitlab.com'' = ''gitlab.com''" "\<not> on_host ''gitlab.com'' ''github.com''" "on_host ''gitlab.com'' ''gitlab.com''"
    by code_simp+
  ultimately show ?thesis by (simp add: archive_url_def)
qed

text \<open>
  A failed response keeps at most 1024 bytes of body, never an HTML page, and its recorded
  length is that of the body; a response below 300 and an error pass unchanged.
\<close>

theorem error_body_bounded:
  shows "(300 \<le> hr_status resp \<and> hr_body resp = Some b \<longrightarrow>
       (\<exists>data. strip_error_body (Inr resp) = Inr (resp\<lparr>hr_body := Some \<lparr>rd_data = data, rd_end = None\<rparr>, hr_length := int (length data)\<rparr>) \<and>
          length data \<le> 1024 \<and> (data = [] \<or> data = rd_data b \<and> \<not> is_html_body (hr_content_type resp) data))) \<and>
     (hr_status resp < 300 \<longrightarrow> strip_error_body (Inr resp) = Inr resp) \<and>
     strip_error_body (Inl err) = Inl err"
proof (intro conjI impI)
  assume a: "300 \<le> hr_status resp \<and> hr_body resp = Some b"
  let ?r = "limit_reader b (max_err_body + 1)"
  let ?bad = "rd_end ?r \<noteq> None \<or> max_err_body < int (length (rd_data ?r)) \<or> is_html_body (hr_content_type resp) (rd_data ?r)"
  let ?data = "if ?bad then [] else rd_data ?r"
  have s: "strip_error_body (Inr resp) =
      Inr (resp\<lparr>hr_body := Some \<lparr>rd_data = ?data, rd_end = None\<rparr>, hr_length := int (length ?data)\<rparr>)"
    using a by (simp add: strip_error_body_def io_copy_def Let_def)
  have "rd_data ?r = rd_data b" if "\<not> ?bad"
    using that by (auto simp: limit_reader_def max_err_body_def split: if_splits)
  then have "length ?data \<le> 1024 \<and> (?data = [] \<or> ?data = rd_data b \<and> \<not> is_html_body (hr_content_type resp) ?data)"
    by (auto simp: max_err_body_def)
  with s show "\<exists>data. strip_error_body (Inr resp) = Inr (resp\<lparr>hr_body := Some \<lparr>rd_data = data, rd_end = None\<rparr>, hr_length := int (length data)\<rparr>) \<and>
      length data \<le> 1024 \<and> (data = [] \<or> data = rd_data b \<and> \<not> is_html_body (hr_content_type resp) data)" by blast
qed (auto simp: strip_error_body_def split: option.split)

theorem error_body_bounded_witness:
  "\<exists>data. strip_error_body (Inr \<lparr>hr_status = 403, hr_content_type = ''text/plain'', hr_body = Some (file_reader ''denied''), hr_length = 6\<rparr>) =
      Inr \<lparr>hr_status = 403, hr_content_type = ''text/plain'', hr_body = Some (file_reader data), hr_length = int (length data)\<rparr> \<and>
     length data \<le> 1024"
  using error_body_bounded [of "\<lparr>hr_status = 403, hr_content_type = ''text/plain'', hr_body = Some (file_reader ''denied''), hr_length = 6\<rparr>"
      "file_reader ''denied''"] by auto

end
