(* ===== verification/Git_Clone.thy ===== *)
theory Git_Clone
  imports Git_Archive
begin

text \<open>
  The Git download as a whole: the partial clone for a subdirectory (\<^verbatim>\<open>protocols/git/sparse.go\<close>),
  the fetch of a pinned commit (\<^verbatim>\<open>protocols/git/pinned.go\<close>), the clone and its preparation, the
  credential loop and the scheme fallback (\<^verbatim>\<open>protocols/git/git.go\<close>).  go-git is the record
  \<open>go_git\<close>; a repository's object store is part of the system state its operations take and return.
\<close>

section \<open>go-git\<close>

record ('n, 'g, 'r) go_git =
  gg_plain_clone :: "('n, ('n, 'g) client_option, 'r) plain_clone"
  gg_plain_init :: "'n sys \<Rightarrow> string \<Rightarrow> 'n sys \<times> 'r result"
  gg_create_remote :: "'n sys \<Rightarrow> 'r \<Rightarrow> string \<Rightarrow> 'n sys \<times> goerr option"
  gg_log :: "'n sys \<Rightarrow> 'r \<Rightarrow> (string list \<times> goerr option) result"
  gg_has_commit :: "'n sys \<Rightarrow> 'r \<Rightarrow> string \<Rightarrow> bool"
  gg_head :: "'n sys \<Rightarrow> 'r \<Rightarrow> string result"
  gg_worktree :: "'n sys \<Rightarrow> 'r \<Rightarrow> goerr option"
  gg_checkout :: "'n sys \<Rightarrow> 'r \<Rightarrow> string \<Rightarrow> bool \<Rightarrow> 'n sys \<times> goerr option"
  gg_submodules :: "'n sys \<Rightarrow> 'r \<Rightarrow> goerr option"
  gg_update_submodules :: "'n sys \<Rightarrow> 'r \<Rightarrow> ('n, 'g) client_option list \<Rightarrow> int \<Rightarrow> 'n sys \<times> goerr option"
  gg_view :: "'n sys \<Rightarrow> 'r \<Rightarrow> string \<Rightarrow> tree_view"
  gg_has_object :: "'n sys \<Rightarrow> 'r \<Rightarrow> string \<Rightarrow> bool"
  gg_blob :: "'n sys \<Rightarrow> 'r \<Rightarrow> string \<Rightarrow> reader result"
  gg_os_mode :: "filemode \<Rightarrow> nat result"
  gg_parse_url :: "string \<Rightarrow> goerr option"
  gg_handshake :: "'n sys \<Rightarrow> string \<Rightarrow> ('n, 'g) client_option list \<Rightarrow> 'n sys \<times> bool result"
  gg_fetch :: "'n sys \<Rightarrow> 'r \<Rightarrow> string list \<Rightarrow> string \<Rightarrow> int \<Rightarrow> 'n sys \<times> goerr option"
  gg_submodule_depth :: int
  gg_ctx_done :: "'n sys \<Rightarrow> bool"
  gg_mkdir_temp :: "'n sys \<Rightarrow> string \<Rightarrow> string \<Rightarrow> 'n sys \<times> string result"
  gg_disk :: disk

section \<open>Sequencing\<close>

definition and_try :: "'n sys \<times> 'a result \<Rightarrow> ('n sys \<Rightarrow> 'a \<Rightarrow> 'n sys \<times> 'b result) \<Rightarrow> 'n sys \<times> 'b result" where
  "and_try m k = (case m of (w, Inl e) \<Rightarrow> (w, Inl e) | (w, Inr x) \<Rightarrow> k w x)"

definition checked :: "'n sys \<times> goerr option \<Rightarrow> 'n sys \<times> unit result" where
  "checked m = (case m of (w, None) \<Rightarrow> (w, Inr ()) | (w, Some e) \<Rightarrow> (w, Inl e))"

definition wrapped :: "string \<Rightarrow> string list \<Rightarrow> 'n sys \<times> 'a result \<Rightarrow> 'n sys \<times> 'a result" where
  "wrapped fmt args m = (case m of (w, Inl e) \<Rightarrow> (w, Inl (wrap_err fmt args e)) | (w, Inr x) \<Rightarrow> (w, Inr x))"

definition as_error :: "'n sys \<times> unit result \<Rightarrow> 'n sys \<times> goerr option" where
  "as_error m = (case m of (w, Inl e) \<Rightarrow> (w, Some e) | (w, Inr _) \<Rightarrow> (w, None))"

section \<open>Fetching by hash\<close>

definition fetch_objects ::
    "('n, 'g, 'r) go_git \<Rightarrow> string \<Rightarrow> ('n, 'g) client_option list \<Rightarrow> 'r \<Rightarrow> 'n fetch" where
  "fetch_objects gg url opts repo w wants flt depth =
     (case gg_parse_url gg url of
        Some err \<Rightarrow> (w, Some err)
      | None \<Rightarrow>
          (case gg_handshake gg w url opts of
             (w1, Inl err) \<Rightarrow> (w1, Some (wrap_err ''handshake: %w'' [] err))
           | (w1, Inr serves_reachable) \<Rightarrow>
               (case gg_fetch gg w1 repo wants flt depth of
                  (w2, None) \<Rightarrow> (w2, None)
                | (w2, Some err) \<Rightarrow>
                    if \<not> serves_reachable
                    then (w2, Some (Errorf ''%w: %w'' [] [Sentinel ErrWantsRestricted, err]))
                    else (w2, Some err))))"

definition commit_missing_on_remote :: "goerr \<Rightarrow> bool" where
  "commit_missing_on_remote err =
     (if errors_is err ErrWantsRestricted then False
      else if errors_is err ErrEmptyRemoteRepository then True
      else (case error_lines err of [] \<Rightarrow> False | t # _ \<Rightarrow> contains_str t ''not our ref'') \<or>
           (case remote_errors err of [] \<Rightarrow> False | t # _ \<Rightarrow> contains_str t ''not our ref''))"

definition fetch_commit_by_hash ::
    "('n, 'g, 'r) go_git \<Rightarrow> string \<Rightarrow> ('n, 'g) client_option list \<Rightarrow> 'r \<Rightarrow> 'n sys \<Rightarrow> string \<Rightarrow> string \<Rightarrow> int \<Rightarrow>
     'n sys \<times> goerr option" where
  "fetch_commit_by_hash gg url opts repo w hash flt depth =
     (case fetch_objects gg url opts repo w [hash] flt depth of
        (w1, None) \<Rightarrow> (w1, None)
      | (w1, Some err) \<Rightarrow>
          if commit_missing_on_remote err
          then (w1, Some (Errorf ''%w: commit %s'' [hash] [Sentinel ErrRemoteRefNotFound]))
          else (w1, Some err))"

section \<open>The pinned commit\<close>

fun complete_loop :: "(string \<Rightarrow> bool) \<Rightarrow> (string \<times> tree_entry) list \<Rightarrow> goerr option \<Rightarrow> goerr option" where
  "complete_loop has_obj [] fin = fin"
| "complete_loop has_obj ((name, e) # es) fin =
     (if \<not> materialisable (tn_mode e) then complete_loop has_obj es fin
      else if \<not> has_obj (tn_hash e)
      then Some (Errorf ''blob for %s: %w'' [name] [Sentinel ErrObjectNotFound])
      else complete_loop has_obj es fin)"

definition commit_complete :: "tree_view \<Rightarrow> (string \<Rightarrow> bool) \<Rightarrow> string \<Rightarrow> goerr option" where
  "commit_complete v has_obj hash =
     (case tv_commit v of
        Some err \<Rightarrow> Some (wrap_err ''commit %s: %w'' [hash] err)
      | None \<Rightarrow>
          (case tv_root v of
             Inl err \<Rightarrow> Some (wrap_err ''tree for %s: %w'' [hash] err)
           | Inr _ \<Rightarrow> (case tv_walk v [] of (es, fin) \<Rightarrow> complete_loop has_obj es fin)))"

definition pinned_fetch_error :: "bool \<Rightarrow> goerr \<Rightarrow> goerr" where
  "pinned_fetch_error ctx_done err =
     (if auth_failure err \<or> ctx_done then err
      else if errors_is err ErrWantsRestricted
      then Errorf ''%w: %w'' [] [Sentinel ErrPinnedFetchUnsupported, err]
      else if errors_is err ErrRemoteRefNotFound \<or> definitive_clone_error err then err
      else Errorf ''%w: %w'' [] [Sentinel ErrPinnedFetchUnsupported, err])"

definition pinned_commit_clone ::
    "('n, 'g, 'r) go_git \<Rightarrow> transport settings \<Rightarrow> git_dl \<Rightarrow> 'n sys \<Rightarrow> string \<Rightarrow> ('n, 'g) client_option list \<Rightarrow>
     'n sys \<times> 'r result" where
  "pinned_commit_clone gg s d w dir opts =
     and_try (gg_plain_init gg w dir) (\<lambda>w repo.
     and_try (checked (gg_create_remote gg w repo (gd_repo_url d))) (\<lambda>w _.
       let depth = (if 0 < gd_depth d \<or> 0 < git_depth (git s) then resolve_depth d s else 1);
           hash = new_hash (gd_ref d)
       in case fetch_commit_by_hash gg (gd_repo_url d) opts repo w hash [] depth of
            (w1, Some err) \<Rightarrow> (w1, Inl (pinned_fetch_error (gg_ctx_done gg w1) err))
          | (w1, None) \<Rightarrow>
              (case commit_complete (gg_view gg w1 repo hash) (gg_has_object gg w1 repo) hash of
                 Some err \<Rightarrow> (w1, Inl (Errorf ''%w: incomplete pack: %w'' [] [Sentinel ErrPinnedFetchUnsupported, err]))
               | None \<Rightarrow> (w1, Inr repo))))"

section \<open>The partial clone\<close>

definition sparse_clone_opts ::
    "git_dl \<Rightarrow> ('a, 'b) settings_scheme \<Rightarrow> ('n, 'g) client_option list \<Rightarrow> ('n, 'g) client_option clone_opts" where
  "sparse_clone_opts d s opts =
     (let hashed = looks_like_commit_hash (gd_ref d);
          depth = (if hashed then 1 else resolve_depth d s)
      in \<lparr>co_url = gd_repo_url d, co_client = opts, co_tags = (if hashed then NoTags else tag_mode d),
          co_depth = (if 0 < depth then depth else 0), co_recurse = 0, co_ref = [], co_single = False,
          co_bare = True, co_no_checkout = True, co_filter = ''blob:none''\<rparr>)"

definition sparse_clone_error :: "goerr \<Rightarrow> goerr" where
  "sparse_clone_error err =
     (if definitive_clone_error err then err
      else Errorf ''%w: partial clone: %w'' [] [Sentinel ErrSparseUnsupported, err])"

definition sparse_clone ::
    "('n, 'g, 'r) go_git \<Rightarrow> transport settings \<Rightarrow> git_dl \<Rightarrow> 'n sys \<Rightarrow> string \<Rightarrow> ('n, 'g) client_option list \<Rightarrow>
     'n sys \<times> 'r option result" where
  "sparse_clone gg s d w dir opts =
     (case clone_by_attempts (gg_plain_clone gg) w dir (sparse_clone_opts d s opts)
             (if looks_like_commit_hash (gd_ref d) then [\<lparr>ca_ref = [], ca_single = True\<rparr>] else clone_attempts d)
             (gd_ref d) of
        (w1, Inr repo) \<Rightarrow> (w1, Inr repo)
      | (w1, Inl err) \<Rightarrow> (w1, Inl (sparse_clone_error err)))"

definition ensure_commit_trees ::
    "('n, 'g, 'r) go_git \<Rightarrow> git_dl \<Rightarrow> ('n, 'g) client_option list \<Rightarrow> 'r \<Rightarrow> 'n sys \<Rightarrow> string \<Rightarrow> 'n sys \<times> goerr option" where
  "ensure_commit_trees gg d opts repo w hash =
     (if tv_commit (gg_view gg w repo hash) = None \<and> (\<exists>t. tv_root (gg_view gg w repo hash) = Inr t) then (w, None)
      else fetch_commit_by_hash gg (gd_repo_url d) opts repo w hash ''blob:none'' 1)"

definition with_trees ::
    "('n, 'g, 'r) go_git \<Rightarrow> git_dl \<Rightarrow> ('n, 'g) client_option list \<Rightarrow> 'r \<Rightarrow> 'n sys \<Rightarrow> string \<Rightarrow> 'n sys \<times> string result" where
  "with_trees gg d opts repo w hash =
     and_try (checked (ensure_commit_trees gg d opts repo w hash)) (\<lambda>w _. (w, Inr hash))"

definition resolve_pinned_commit ::
    "('n, 'g, 'r) go_git \<Rightarrow> git_dl \<Rightarrow> ('n, 'g) client_option list \<Rightarrow> 'r \<Rightarrow> 'n sys \<Rightarrow> 'n sys \<times> string result" where
  "resolve_pinned_commit gg d opts repo w =
     (case resolve_commit_hash (gg_has_commit gg w repo) (gg_log gg w repo) (gd_ref d) of
        Inr hash \<Rightarrow> with_trees gg d opts repo w hash
      | Inl _ \<Rightarrow>
          if length (gd_ref d) = 40 then with_trees gg d opts repo w (new_hash (gd_ref d))
          else case gg_head gg w repo of
            Inl err \<Rightarrow> (w, Inl (wrap_err ''resolving HEAD: %w'' [] err))
          | Inr head \<Rightarrow>
              and_try (wrapped ''fetching commit graph: %w'' []
                  (checked (fetch_objects gg (gd_repo_url d) opts repo w [head] ''tree:0'' 0)))
                (\<lambda>w _. case resolve_commit_hash (gg_has_commit gg w repo) (gg_log gg w repo) (gd_ref d) of
                    Inl err \<Rightarrow> (w, Inl err)
                  | Inr hash \<Rightarrow> with_trees gg d opts repo w hash))"

definition sparse_commit_error :: "string \<Rightarrow> goerr \<Rightarrow> goerr" where
  "sparse_commit_error ref err =
     (if errors_is err ErrWantsRestricted
      then Errorf ''%w: resolving commit %s: %w'' [ref] [Sentinel ErrSparseUnsupported, err]
      else wrap_err ''resolving commit %s: %w'' [ref] err)"

definition sparse_commit ::
    "('n, 'g, 'r) go_git \<Rightarrow> git_dl \<Rightarrow> ('n, 'g) client_option list \<Rightarrow> 'r \<Rightarrow> 'n sys \<Rightarrow> 'n sys \<times> string result" where
  "sparse_commit gg d opts repo w =
     (if gd_ref d \<noteq> [] \<and> looks_like_commit_hash (gd_ref d)
      then (case resolve_pinned_commit gg d opts repo w of
              (w1, Inl err) \<Rightarrow> (w1, Inl (sparse_commit_error (gd_ref d) err))
            | (w1, Inr hash) \<Rightarrow> (w1, Inr hash))
      else (case gg_head gg w repo of
              Inl err \<Rightarrow> (w, Inl (wrap_err ''resolving HEAD: %w'' [] err))
            | Inr head \<Rightarrow> (w, Inr head)))"

definition sys_materialise ::
    "('n, 'g, 'r) go_git \<Rightarrow> 'r \<Rightarrow> 'n sys \<Rightarrow> sparse_entry list \<Rightarrow> string \<Rightarrow> 'n sys \<times> unit result" where
  "sys_materialise gg repo w es dest =
     (case materialise (gg_os_mode gg) (gg_blob gg w repo) (gg_disk gg) (sys_fs w) es dest of
        (f, err) \<Rightarrow> checked (w\<lparr>sys_fs := f\<rparr>, err))"

text \<open>
  The steps inside the scratch directory.  A nil repository without an error cannot come from a
  list of attempts that is not empty; using one would panic, here it is an error.
\<close>

definition sparse_steps ::
    "('n, 'g, 'r) go_git \<Rightarrow> transport settings \<Rightarrow> git_dl \<Rightarrow> ('n, 'g) client_option list \<Rightarrow> string \<Rightarrow> string \<Rightarrow> 'n sys \<Rightarrow>
     'n sys \<times> unit result" where
  "sparse_steps gg s d opts scratch tmp w =
     and_try (sparse_clone gg s d w (path_join [scratch, ''repo.git'']) opts) (\<lambda>w r.
       case r of
         None \<Rightarrow> (w, Inl (errors_new ''nil repository''))
       | Some repo \<Rightarrow>
           and_try (sparse_commit gg d opts repo w) (\<lambda>w commit.
             case sparse_entries (gg_view gg w repo commit) d commit of
               Inl err \<Rightarrow> (w, Inl err)
             | Inr sel \<Rightarrow>
                 if needs_worktree sel s
                 then (w, Inl (Errorf ''%w: %s needs a worktree to initialise'' [join_str '', '' (sel_submodules sel)]
                         [Sentinel ErrSparseUnsupported]))
                 else (case fetch_blobs (fetch_objects gg (gd_repo_url d) opts repo) (gg_has_object gg w repo) w (sel_files sel) of
                         (w1, Some err) \<Rightarrow>
                           (w1, Inl (Errorf ''%w: fetching %d objects: %w'' [dec_string (int (length (sel_files sel)))]
                              [Sentinel ErrSparseUnsupported, err]))
                       | (w1, None) \<Rightarrow> sys_materialise gg repo w1 (sel_files sel) tmp)))"

definition sparse_download ::
    "('n, 'g, 'r) go_git \<Rightarrow> transport settings \<Rightarrow> git_dl \<Rightarrow> 'n sys \<Rightarrow> string \<Rightarrow> ('n, 'g) client_option list \<Rightarrow>
     'n sys \<times> goerr option" where
  "sparse_download gg s d w tmp opts =
     (case gg_mkdir_temp gg w (temporary_directory s) ''grabber-sparse-'' of
        (w1, Inl err) \<Rightarrow> (w1, Some err)
      | (w1, Inr scratch) \<Rightarrow>
          (case sparse_steps gg s d opts scratch tmp w1 of
             (w2, r) \<Rightarrow> as_error (fst (sys_remove_all w2 scratch), r)))"

section \<open>Clone and prepare\<close>

definition clone_opts_for ::
    "git_dl \<Rightarrow> ('a, 'b) settings_scheme \<Rightarrow> int \<Rightarrow> ('n, 'g) client_option list \<Rightarrow> ('n, 'g) client_option clone_opts" where
  "clone_opts_for d s submodule_depth opts =
     \<lparr>co_url = gd_repo_url d, co_client = opts, co_tags = tag_mode d,
      co_depth = (if 0 < resolve_depth d s then resolve_depth d s else 0),
      co_recurse = (if recurse_submodules (git s) \<and> \<not> looks_like_commit_hash (gd_ref d) then submodule_depth else 0),
      co_ref = [], co_single = False, co_bare = False, co_no_checkout = False, co_filter = []\<rparr>"

definition clone_named ::
    "('n, 'g, 'r) go_git \<Rightarrow> transport settings \<Rightarrow> git_dl \<Rightarrow> 'n sys \<Rightarrow> string \<Rightarrow> ('n, 'g) client_option list \<Rightarrow>
     'n sys \<times> ('r option \<times> bool) result" where
  "clone_named gg s d w dir opts =
     and_try (wrapped ''cloning repo: %w'' []
         (clone_by_attempts (gg_plain_clone gg) w dir (clone_opts_for d s (gg_submodule_depth gg) opts) (clone_attempts d) (gd_ref d)))
       (\<lambda>w repo. (w, Inr (repo, False)))"

definition obtain_repo ::
    "('n, 'g, 'r) go_git \<Rightarrow> transport settings \<Rightarrow> git_dl \<Rightarrow> 'n sys \<Rightarrow> string \<Rightarrow> ('n, 'g) client_option list \<Rightarrow>
     'n sys \<times> ('r option \<times> bool) result" where
  "obtain_repo gg s d w dir opts =
     (if \<not> pinned_commit_eligible d then clone_named gg s d w dir opts
      else case pinned_commit_clone gg s d w dir opts of
        (w1, Inr repo) \<Rightarrow> (w1, Inr (Some repo, True))
      | (w1, Inl err) \<Rightarrow>
          if \<not> errors_is err ErrPinnedFetchUnsupported then (w1, Inl (wrap_err ''cloning repo: %w'' [] err))
          else and_try (checked (reset_dir w1 dir)) (\<lambda>w _. clone_named gg s d w dir opts))"

definition update_submodules ::
    "('n, 'g, 'r) go_git \<Rightarrow> ('n, 'g) client_option list \<Rightarrow> 'r \<Rightarrow> 'n sys \<Rightarrow> 'n sys \<times> unit result" where
  "update_submodules gg opts repo w =
     (case gg_submodules gg w repo of
        Some err \<Rightarrow> (w, Inl (wrap_err ''reading submodules: %w'' [] err))
      | None \<Rightarrow>
          wrapped ''updating submodules: %w'' [] (checked (gg_update_submodules gg w repo opts (gg_submodule_depth gg))))"

definition checkout_ref ::
    "('n, 'g, 'r) go_git \<Rightarrow> transport settings \<Rightarrow> git_dl \<Rightarrow> ('n, 'g) client_option list \<Rightarrow> bool \<Rightarrow> 'r \<Rightarrow> 'n sys \<Rightarrow>
     'n sys \<times> unit result" where
  "checkout_ref gg s d opts pinned repo w =
     (if gd_ref d = [] \<or> \<not> looks_like_commit_hash (gd_ref d) then (w, Inr ())
      else case resolve_commit_hash (gg_has_commit gg w repo) (gg_log gg w repo) (gd_ref d) of
        Inl err \<Rightarrow> (w, Inl (wrap_err ''resolving commit %s: %w'' [gd_ref d] err))
      | Inr hash \<Rightarrow>
          (case gg_worktree gg w repo of
             Some err \<Rightarrow> (w, Inl err)
           | None \<Rightarrow>
               and_try (wrapped ''checking out commit %s: %w'' [gd_ref d] (checked (gg_checkout gg w repo hash pinned)))
                 (\<lambda>w _. if recurse_submodules (git s) then update_submodules gg opts repo w else (w, Inr ()))))"

definition finish_clone :: "git_dl \<Rightarrow> string \<Rightarrow> 'n sys \<Rightarrow> 'n sys \<times> unit result" where
  "finish_clone d tmp w0 =
     (let w = fst (sys_remove_all w0 (path_join [tmp, ''.git'']))
      in if gd_subdir d = [] then (w, Inr ())
         else case fs_stat (sys_fs w) (path_join [tmp, gd_subdir d]) of
           Inl err \<Rightarrow> (w, Inl (wrap_err ''subdirectory %q not found in repo: %w'' [gd_subdir d] err))
         | Inr n \<Rightarrow>
             if \<not> is_dir n then (w, Inl (Errorf ''subdirectory %q is not a directory'' [gd_subdir d] []))
             else (w, Inr ()))"

definition full_clone ::
    "('n, 'g, 'r) go_git \<Rightarrow> transport settings \<Rightarrow> git_dl \<Rightarrow> 'n sys \<Rightarrow> string \<Rightarrow> ('n, 'g) client_option list \<Rightarrow>
     'n sys \<times> goerr option" where
  "full_clone gg s d w tmp opts =
     as_error (and_try (obtain_repo gg s d w tmp opts) (\<lambda>w (r, pinned).
       case r of
         None \<Rightarrow> (w, Inl (errors_new ''nil repository''))
       | Some repo \<Rightarrow> and_try (checkout_ref gg s d opts pinned repo w) (\<lambda>w _. finish_clone d tmp w)))"

definition clone_and_prepare ::
    "('n, 'g, 'r) go_git \<Rightarrow> transport settings \<Rightarrow> git_dl \<Rightarrow> string \<Rightarrow> ('n, 'g) prepare" where
  "clone_and_prepare gg s d tmp w opts =
     (if \<not> sparse_eligible d then full_clone gg s d w tmp opts
      else case sparse_download gg s d w tmp opts of
        (w1, None) \<Rightarrow> (w1, None)
      | (w1, Some err) \<Rightarrow>
          if \<not> errors_is err ErrSparseUnsupported then (w1, Some err)
          else (case reset_dir w1 tmp of
                  (w2, Some e) \<Rightarrow> (w2, Some e)
                | (w2, None) \<Rightarrow> full_clone gg s d w2 tmp opts))"

section \<open>One remote\<close>

record ('n, 'g, 'r) git_env =
  ge_git :: "('n, 'g, 'r) go_git"
  ge_archive :: "('n, 'g) archive_env"
  ge_lookup :: Ssrf.resolver
  ge_reach :: "string \<Rightarrow> bool"
  ge_targets :: "string \<Rightarrow> string list"

definition http_transport_for :: "net_env \<Rightarrow> transport settings \<Rightarrow> string \<Rightarrow> transport option result" where
  "http_transport_for net s url =
     (case http_remote_url url of None \<Rightarrow> Inr None | Some u \<Rightarrow> transport_for_host net s (url_hostname u))"

text \<open>The HTTP client is behind the error-body stripper; without a round tripper it is the default transport.\<close>

definition transport_options ::
    "('n, 'g, 'r) git_env \<Rightarrow> transport settings \<Rightarrow> git_dl \<Rightarrow> ('n, 'g) client_option list result" where
  "transport_options env s d =
     (case http_remote_url (gd_repo_url d) of
        None \<Rightarrow> Inr []
      | Some u \<Rightarrow>
          bind_result (round_tripper_for_host (ar_net (ge_archive env)) (ar_check (ge_archive env)) s (url_hostname u))
            (\<lambda>rt. Inr [WithHTTPClient rt]))"

definition git_download ::
    "('n, 'g, 'r) git_env \<Rightarrow> transport settings \<Rightarrow> git_dl \<Rightarrow> string \<Rightarrow> 'n sys \<Rightarrow> ('n sys \<times> goerr option) option" where
  "git_download env s d tmp w =
     (let url = gd_repo_url d; ar = ge_archive env
      in case check_ssrf_host_for (ar_net ar) (ar_check ar) s (ge_lookup env) (git_url_scheme url) (git_url_host url)
                (snd (git_host_port url)) of
           Some err \<Rightarrow> Some (w, Some err)
         | None \<Rightarrow>
             (case transport_options env s d of
                Inl err \<Rightarrow> Some (w, Some err)
              | Inr topts \<Rightarrow>
                  map_option (\<lambda>cs. download_with_credentials (clone_and_prepare (ge_git env) s d tmp) (\<lambda>w. reset_dir w tmp) topts cs w)
                    (auth_candidates (ar_auth ar) s d)))"

section \<open>All candidates\<close>

datatype download_end = Succeeded | Aborted "goerr list" | Exhausted "goerr list"

fun download_loop ::
    "(string \<Rightarrow> goerr option) \<Rightarrow> (string \<Rightarrow> 'n sys \<Rightarrow> ('n sys \<times> goerr option) option) \<Rightarrow> ('n sys \<Rightarrow> 'n sys \<times> goerr option) \<Rightarrow>
     string list \<Rightarrow> 'n sys \<Rightarrow> bool \<Rightarrow> goerr list \<Rightarrow> ('n sys \<times> download_end) option" where
  "download_loop probe attempt reset [] w later errs = Some (w, Exhausted errs)"
| "download_loop probe attempt reset (c # cs) w later errs =
     (case (if later then reset w else (w, None)) of
        (w1, Some e) \<Rightarrow> Some (w1, Aborted (errs @ [e]))
      | (w1, None) \<Rightarrow>
          (case probe c of
             Some e \<Rightarrow> download_loop probe attempt reset cs w1 True (errs @ [e])
           | None \<Rightarrow>
               (case attempt c w1 of
                  None \<Rightarrow> None
                | Some (w2, None) \<Rightarrow> Some (w2, Succeeded)
                | Some (w2, Some e) \<Rightarrow>
                    if definitive_clone_error e then Some (w2, Exhausted (errs @ [e]))
                    else download_loop probe attempt reset cs w2 True (errs @ [e]))))"

definition git_probe :: "('n, 'g, 'r) git_env \<Rightarrow> transport settings \<Rightarrow> string \<Rightarrow> goerr option" where
  "git_probe env s cand =
     (case git_host_port cand of (host, port) \<Rightarrow>
        probe_connect_for (ar_net (ge_archive env)) s (ge_reach env) (ge_targets env cand) (git_url_scheme cand) host port)"

text \<open>What follows the loop: the answer, or the archive for a commit hash.\<close>

definition download_result ::
    "('n, 'g, 'r) git_env \<Rightarrow> transport settings \<Rightarrow> git_dl \<Rightarrow> string \<Rightarrow> 'n sys \<Rightarrow> download_end \<Rightarrow> 'n sys \<times> goerr option" where
  "download_result env s d tmp w r =
     (case r of
        Succeeded \<Rightarrow> (w, None)
      | Aborted errs \<Rightarrow> (w, errors_join errs)
      | Exhausted errs \<Rightarrow>
          if looks_like_commit_hash (gd_ref d) \<and> \<not> gg_ctx_done (ge_git env) w then
            (case reset_dir w tmp of
               (w1, Some e) \<Rightarrow> (w1, errors_join (errs @ [e]))
             | (w1, None) \<Rightarrow>
                 (case fetch_archive (ge_archive env) s d w1 tmp of
                    (w2, Some e) \<Rightarrow> (w2, errors_join (errs @ [e]))
                  | (w2, None) \<Rightarrow> (w2, None)))
          else (w, errors_join errs))"

text \<open>\<^verbatim>\<open>Download\<close>; it never reports a single file.\<close>

definition git_downloader_download ::
    "('n, 'g, 'r) git_env \<Rightarrow> transport settings \<Rightarrow> git_dl \<Rightarrow> string \<Rightarrow> 'n sys \<Rightarrow> ('n sys \<times> bool result) option" where
  "git_downloader_download env s d tmp w =
     map_option (\<lambda>(w1, r). case download_result env s d tmp w1 r of
         (w2, None) \<Rightarrow> (w2, Inr False)
       | (w2, Some e) \<Rightarrow> (w2, Inl e))
       (download_loop (git_probe env s) (\<lambda>cand. git_download env s (d\<lparr>gd_repo_url := cand\<rparr>) tmp) (\<lambda>w. reset_dir w tmp)
          (clone_candidates s d) w False [])"

section \<open>Facts\<close>

text \<open>A candidate that lets the next one have its turn.\<close>

definition passes :: "(string \<Rightarrow> goerr option) \<Rightarrow> (string \<Rightarrow> goerr option) \<Rightarrow> string \<Rightarrow> bool" where
  "passes probe verdict c \<longleftrightarrow>
     probe c \<noteq> None \<or> (\<exists>e. verdict c = Some e \<and> \<not> definitive_clone_error e)"

lemma download_loop_spec:
  assumes "\<And>c w. c \<in> set cs \<Longrightarrow> I w \<Longrightarrow> \<exists>w'. attempt c w = Some (w', verdict c) \<and> I w'"
    and reset: "\<And>w. I w \<Longrightarrow> \<exists>w'. reset w = (w', None) \<and> I w'" and "I w"
  shows "\<exists>w1 r. download_loop probe attempt reset cs w later errs = Some (w1, r) \<and>
    (r = Succeeded \<longleftrightarrow>
       (\<exists>xs c ys. cs = xs @ c # ys \<and> (\<forall>x\<in>set xs. passes probe verdict x) \<and> probe c = None \<and> verdict c = None)) \<and>
    (\<forall>es. r \<noteq> Aborted es) \<and> (\<forall>es. r = Exhausted es \<longrightarrow> es \<noteq> [] \<or> cs = [] \<and> es = errs)"
  using assms(1,3)
proof (induction cs arbitrary: w later errs)
  case (Cons c cs)
  let ?win = "\<lambda>cs. \<exists>xs c ys. cs = xs @ c # ys \<and> (\<forall>x\<in>set xs. passes probe verdict x) \<and> probe c = None \<and> verdict c = None"
  obtain w1 where w1: "(if later then reset w else (w, None)) = (w1, None)"
    "I w1"
    using reset [OF Cons.prems(2)] Cons.prems(2) by (cases later) auto
  obtain w2 where w2: "attempt c w1 = Some (w2, verdict c)" "I w2"
    using Cons.prems(1) [of c w1] w1(2) by auto
  have first: "?win (c # cs) \<longleftrightarrow> probe c = None \<and> verdict c = None \<or> passes probe verdict c \<and> ?win cs"
  proof
    assume "?win (c # cs)"
    then obtain xs d ys where x: "c # cs = xs @ d # ys" "\<forall>x\<in>set xs. passes probe verdict x" "probe d = None" "verdict d = None"
      by blast
    then show "probe c = None \<and> verdict c = None \<or> passes probe verdict c \<and> ?win cs" by (cases xs) auto
  next
    assume r: "probe c = None \<and> verdict c = None \<or> passes probe verdict c \<and> ?win cs"
    then show "?win (c # cs)"
    proof
      assume "probe c = None \<and> verdict c = None"
      then show ?thesis by (intro exI [of _ "[]"] exI [of _ c] exI [of _ cs]) simp
    next
      assume p: "passes probe verdict c \<and> ?win cs"
      then obtain xs d ys where "cs = xs @ d # ys" "\<forall>x\<in>set xs. passes probe verdict x" "probe d = None" "verdict d = None"
        by blast
      then show ?thesis using p by (intro exI [of _ "c # xs"]) auto
    qed
  qed
  have next_one: ?case if "passes probe verdict c"
    "download_loop probe attempt reset (c # cs) w later errs = download_loop probe attempt reset cs w3 True es" "es \<noteq> []" "I w3" for w3 es
  proof -
    have "\<not> (probe c = None \<and> verdict c = None)" using that(1) by (auto simp: passes_def)
    with first that(1) have "?win (c # cs) = ?win cs" by blast
    then show ?thesis unfolding that(2) using Cons.IH [OF _ that(4), of True es] Cons.prems(1) that(3) by auto
  qed
  show ?case
  proof (cases "probe c")
    case (Some e)
    then show ?thesis using w1 by (intro next_one [of w1 "errs @ [e]"]) (auto simp: passes_def)
  next
    case None
    show ?thesis
    proof (cases "verdict c")
      case None
      then show ?thesis using \<open>probe c = None\<close> w1 w2 first by simp
    next
      case (Some e)
      show ?thesis
      proof (cases "definitive_clone_error e")
        case True
        then have "\<not> ?win (c # cs)" using first Some \<open>probe c = None\<close> by (simp add: passes_def)
        then show ?thesis using \<open>probe c = None\<close> Some True w1 w2 by simp
      next
        case False
        then show ?thesis using \<open>probe c = None\<close> Some w1 w2
          by (intro next_one [of w2 "errs @ [e]"]) (auto simp: passes_def)
      qed
    qed
  qed
qed simp

lemma download_loop_total:
  "(\<And>c w. \<exists>r. attempt c w = Some r) \<Longrightarrow> \<exists>r. download_loop probe attempt reset cs w later errs = Some r"
proof (induction cs arbitrary: w later errs)
  case (Cons c cs)
  obtain w1 e where r: "(if later then reset w else (w, None)) = (w1, e)" by fastforce
  obtain w2 v where a: "attempt c w1 = Some (w2, v)" using Cons.prems by fastforce
  show ?case using Cons.IH [OF Cons.prems] r a
    by (cases e; cases "probe c"; cases v) auto
qed simp

section \<open>Properties\<close>

text \<open>
  C17. The scheme fallback: where the outcome for a candidate depends on that candidate only, in the
  states \<open>I\<close> the download passes through, the
  loop over the candidates succeeds exactly when one of them can be reached and downloaded after
  others that were unreachable or failed without a definitive answer; a missing ref, an empty
  repository or a finished context ends it.
\<close>

theorem scheme_fallback_exact:
  assumes "\<And>cand w. cand \<in> set (clone_candidates s d) \<Longrightarrow> I w \<Longrightarrow>
      \<exists>w'. git_download env s (d\<lparr>gd_repo_url := cand\<rparr>) tmp w = Some (w', verdict cand) \<and> I w'"
    and "\<And>w. I w \<Longrightarrow> \<exists>w'. reset_dir w tmp = (w', None) \<and> I w'" and "I w"
    and "\<not> looks_like_commit_hash (gd_ref d)"
  shows "\<exists>w1 r. git_downloader_download env s d tmp w = Some (w1, r) \<and> r \<noteq> Inr True \<and>
    (r = Inr False \<longleftrightarrow> (\<exists>xs c ys. clone_candidates s d = xs @ c # ys \<and> git_probe env s c = None \<and> verdict c = None \<and>
       (\<forall>x\<in>set xs. git_probe env s x \<noteq> None \<or> (\<exists>e. verdict x = Some e \<and> \<not> definitive_clone_error e))))"
proof -
  let ?cs = "clone_candidates s d"
  obtain w1 r where l: "download_loop (git_probe env s) (\<lambda>cand. git_download env s (d\<lparr>gd_repo_url := cand\<rparr>) tmp)
      (\<lambda>w. reset_dir w tmp) ?cs w False [] = Some (w1, r)"
    and win: "r = Succeeded \<longleftrightarrow> (\<exists>xs c ys. ?cs = xs @ c # ys \<and> (\<forall>x\<in>set xs. passes (git_probe env s) verdict x) \<and>
        git_probe env s c = None \<and> verdict c = None)"
    and lost: "\<forall>es. r \<noteq> Aborted es" "\<forall>es. r = Exhausted es \<longrightarrow> es \<noteq> [] \<or> ?cs = [] \<and> es = []"
    using download_loop_spec [where attempt = "\<lambda>cand. git_download env s (d\<lparr>gd_repo_url := cand\<rparr>) tmp" and verdict = verdict
        and reset = "\<lambda>w. reset_dir w tmp" and cs = ?cs and w = w and later = False and errs = "[]" and I = I, OF assms(1-3)] by blast
  have "?cs \<noteq> []" by (simp add: clone_candidates_def Let_def split: option.split)
  then have "git_downloader_download env s d tmp w = Some (w1, case r of Succeeded \<Rightarrow> Inr False | Aborted es \<Rightarrow> Inl (Joined es) | Exhausted es \<Rightarrow> Inl (Joined es))"
    using l lost assms(4) by (cases r) (auto simp: git_downloader_download_def download_result_def)
  moreover have "(\<exists>xs c ys. ?cs = xs @ c # ys \<and> (\<forall>x\<in>set xs. passes (git_probe env s) verdict x) \<and>
        git_probe env s c = None \<and> verdict c = None) \<longleftrightarrow>
      (\<exists>xs c ys. ?cs = xs @ c # ys \<and> git_probe env s c = None \<and> verdict c = None \<and>
       (\<forall>x\<in>set xs. git_probe env s x \<noteq> None \<or> (\<exists>e. verdict x = Some e \<and> \<not> definitive_clone_error e)))"
    unfolding passes_def by blast
  ultimately show ?thesis using win by (cases r) auto
qed

text \<open>
  The guard is asked before anything else: when the repository's host is an address that is
  blocked and not on the allow list, and no environment proxy applies, the download fails and
  leaves files and network as they were.
\<close>

theorem git_download_blocked_host:
  assumes "parse_ip (git_url_host (gd_repo_url d)) \<noteq> []"
    and "blocked (ssrf_guard s) (parse_ip (git_url_host (gd_repo_url d)))" and "enabled (ssrf_guard s)"
    and "\<not> host_allowed (ssrf_guard s) (git_url_host (gd_repo_url d))"
    and "\<not> env_proxy_applies (ar_net (ge_archive env)) s (git_url_scheme (gd_repo_url d)) (git_url_host (gd_repo_url d))
           (snd (git_host_port (gd_repo_url d)))"
  shows "\<exists>e. git_download env s d tmp w = Some (w, Some e)"
proof -
  have "parse_ip [] = []" by code_simp
  then have "git_url_host (gd_repo_url d) \<noteq> []" using assms(1) by metis
  then have "\<exists>e. check_host (ssrf_guard s) (ge_lookup env) (git_url_host (gd_repo_url d)) = Some e"
    using assms(1-4) by (simp add: check_host_def)
  then show ?thesis using assms(5) by (auto simp: git_download_def check_ssrf_host_for_def check_ssrf_host_def Let_def)
qed

text \<open>
  A commit is reported missing only by a server that serves every commit it has: an error that
  reads as a missing ref comes from a handshake that promised so and a refusal that says the
  commit is not there.
\<close>

theorem commit_missing_sound:
  assumes "fetch_commit_by_hash gg url opts repo w hash flt depth = (w1, Some e)" and "errors_is e ErrRemoteRefNotFound"
    and "\<And>w wants flt depth w1 e. gg_fetch gg w repo wants flt depth = (w1, Some e) \<Longrightarrow> \<not> errors_is e ErrRemoteRefNotFound"
    and "\<And>w w1 e. gg_handshake gg w url opts = (w1, Inl e) \<Longrightarrow> \<not> errors_is e ErrRemoteRefNotFound \<and> \<not> commit_missing_on_remote e"
    and "\<And>e. gg_parse_url gg url = Some e \<Longrightarrow> \<not> errors_is e ErrRemoteRefNotFound \<and> \<not> commit_missing_on_remote e"
  shows "\<exists>w2 e2. gg_handshake gg w url opts = (w2, Inr True) \<and> gg_fetch gg w2 repo [hash] flt depth = (w1, Some e2) \<and>
    commit_missing_on_remote e2"
proof -
  obtain e1 where f: "fetch_objects gg url opts repo w [hash] flt depth = (w1, Some e1)"
    and e: "e = e1 \<and> \<not> commit_missing_on_remote e1 \<or> commit_missing_on_remote e1"
    using assms(1) by (auto simp: fetch_commit_by_hash_def split: prod.splits option.splits if_splits)
  have parse: "gg_parse_url gg url = None"
    using f e assms(2,5) by (auto simp: fetch_objects_def split: option.splits)
  obtain w2 hs where h: "gg_handshake gg w url opts = (w2, hs)" by fastforce
  have "\<not> (\<exists>he. hs = Inl he)"
    using f e assms(2) assms(4) [of w w2] h parse
    by (auto simp: fetch_objects_def commit_missing_on_remote_def wrap_err_def split: if_splits)
  then obtain reach where hr: "hs = Inr reach" by (cases hs) auto
  obtain w3 fe where g: "gg_fetch gg w2 repo [hash] flt depth = (w3, fe)" by fastforce
  obtain e2 where e2: "fe = Some e2" "w3 = w1" "e1 = (if \<not> reach then Errorf ''%w: %w'' [] [Sentinel ErrWantsRestricted, e2] else e2)"
    using f parse h hr g by (auto simp: fetch_objects_def split: option.splits if_splits)
  have n: "\<not> errors_is e2 ErrRemoteRefNotFound" using assms(3) g e2(1) by blast
  have m: "commit_missing_on_remote e1"
    using e assms(2) e2(3) n by (auto split: if_splits)
  then have "reach" using e2(3) by (auto simp: commit_missing_on_remote_def split: if_splits)
  then show ?thesis using h hr g e2 m by simp
qed

text \<open>
  What a clone leaves holds no repository: after the clean-up the \<^verbatim>\<open>.git\<close> entry of the
  destination is gone, whatever links the repository's own files contain.
\<close>

theorem git_directory_removed:
  assumes "plain_comps root" and "links_only L root (sys_fs w)" and "avoids L root"
    and "finish_clone d (abs_path root) w = (w1, r)"
  shows "\<exists>e. fs_lstat (sys_fs w1) (abs_path (root @ [''.git''])) = Inl e"
proof -
  let ?p = "root @ [''.git'']"
  have "plain_comps [''.git'']" by code_simp
  then have p: "plain_comps ?p" "path_join [abs_path root, ''.git''] = abs_path ?p"
    using assms(1) join_abs_rel [OF assms(1), of "[''.git'']"] by simp_all
  let ?f = "sys_fs w"
  obtain g e where g: "fs_remove_all ?f (abs_path ?p) = (g, e)" by fastforce
  have w1: "sys_fs w1 = g"
    using assms(4) g p(2) by (auto simp: finish_clone_def sys_remove_all_def Let_def split: sum.splits if_splits)
  show ?thesis
  proof (cases "resolve ?f False (abs_path ?p)")
    case (Inl a)
    then show ?thesis using g w1 by (simp add: fs_remove_all_def fs_lstat_def)
  next
    case (Inr q)
    have "q = ?p" using resolve_nofollow [OF p(1) assms(2) _ Inr] assms(3) by simp
    then have gd: "g = ?f\<lparr>fs_nodes := filter (\<lambda>(q, _). \<not> prefix ?p q) (fs_nodes ?f)\<rparr>"
      using g Inr by (simp add: fs_remove_all_def)
    have get: "fs_get g x = (if x \<noteq> [] \<and> prefix ?p x then None else fs_get ?f x)" for x
    proof -
      have "map_of (filter (\<lambda>(q, _). \<not> prefix ?p q) ns) x = (if prefix ?p x then None else map_of ns x)" for ns :: "(fpath \<times> fnode) list"
        by (induction ns) auto
      then show ?thesis by (simp add: gd fs_get_def)
    qed
    then have "links_only L root g" using assms(2) by (auto simp: links_only_def split: if_splits)
    show ?thesis
    proof (cases "resolve g False (abs_path ?p)")
      case (Inl a)
      then show ?thesis using w1 by (simp add: fs_lstat_def)
    next
      case (Inr q')
      have "q' = ?p" using resolve_nofollow [OF p(1) \<open>links_only L root g\<close> _ Inr] assms(3) by simp
      then show ?thesis using Inr w1 get [of ?p] by (simp add: fs_lstat_def)
    qed
  qed
qed

text \<open>Concrete instances: a local repository that go-git clones, and a server that lacks a commit.\<close>

definition demo_dir :: fs where
  "demo_dir = \<lparr>fs_nodes = [([''t''], Dir 493)], fs_cwd = []\<rparr>"

definition demo_sys :: "unit sys" where
  "demo_sys = \<lparr>sys_fs = demo_dir, sys_net = ()\<rparr>"

definition demo_git :: "(unit, string, string) go_git" where
  "demo_git =
     \<lparr>gg_plain_clone = (\<lambda>w dir opts. (demo_sys, Inr ''repo'')), gg_plain_init = (\<lambda>w dir. (w, Inr ''repo'')),
      gg_create_remote = (\<lambda>w r u. (w, None)), gg_log = (\<lambda>w r. Inr ([], None)), gg_has_commit = (\<lambda>w r h. False),
      gg_head = (\<lambda>w r. Inr ''head''), gg_worktree = (\<lambda>w r. None), gg_checkout = (\<lambda>w r h b. (w, None)),
      gg_submodules = (\<lambda>w r. None), gg_update_submodules = (\<lambda>w r opts n. (w, None)),
      gg_view = (\<lambda>w r h. demo_view), gg_has_object = (\<lambda>w r h. False), gg_blob = (\<lambda>w r h. Inr (file_reader ''data'')),
      gg_os_mode = demo_mode, gg_parse_url = (\<lambda>u. None), gg_handshake = (\<lambda>w u opts. (w, Inr True)),
      gg_fetch = (\<lambda>w r wants flt n. (w, Some (ErrorLine ''upload-pack: not our ref abc''))), gg_submodule_depth = 10,
      gg_ctx_done = (\<lambda>w. False), gg_mkdir_temp = (\<lambda>w d p. (w, Inr ''/t/s'')), gg_disk = (\<lambda>p. None)\<rparr>"

definition demo_archive_env :: "(unit, string) archive_env" where
  "demo_archive_env =
     \<lparr>ar_auth = demo_auth_env, ar_net = demo_env,
      ar_check = \<lparr>ce_idna = \<lparr>lookup_to_ascii = Inr, puny_to_ascii = Inr\<rparr>, ce_lookup = (\<lambda>_. Inr [[8, 8, 8, 8]]), ce_done = False\<rparr>,
      ar_getenv = (\<lambda>_. []), ar_http = (\<lambda>w rt u a. (w, Inl (errors_new ''offline''))), ar_codecs = demo_codecs,
      ar_disk = (\<lambda>p. None), ar_override = []\<rparr>"

definition demo_git_env :: "(unit, string, string) git_env" where
  "demo_git_env =
     \<lparr>ge_git = demo_git, ge_archive = demo_archive_env, ge_lookup = (\<lambda>_. Inr [[8, 8, 8, 8]]), ge_reach = (\<lambda>_. True),
      ge_targets = (\<lambda>_. [])\<rparr>"

theorem commit_missing_sound_witness:
  "\<exists>w2 e2. gg_handshake demo_git demo_sys ''url'' [] = (w2, Inr True) \<and>
     gg_fetch demo_git w2 ''repo'' [''abc''] [] 1 = (demo_sys, Some e2) \<and> commit_missing_on_remote e2"
proof (rule commit_missing_sound)
  have "commit_missing_on_remote (ErrorLine ''upload-pack: not our ref abc'')" by code_simp
  then show "fetch_commit_by_hash demo_git ''url'' [] ''repo'' demo_sys ''abc'' [] 1 =
      (demo_sys, Some (Errorf ''%w: commit %s'' [''abc''] [Sentinel ErrRemoteRefNotFound]))"
    by (simp add: fetch_commit_by_hash_def fetch_objects_def demo_git_def)
qed (auto simp: demo_git_def)

definition local_dl :: git_dl where
  "local_dl = (demo_dl ''v1'')\<lparr>gd_repo_url := ''/srv/r''\<rparr>"

lemma demo_reset: "reset_dir demo_sys ''/t'' = (demo_sys, None)"
proof -
  have "fs_remove_all demo_dir ''/t'' = (demo_dir\<lparr>fs_nodes := []\<rparr>, None)" by code_simp
  moreover have "mkdir_all (demo_dir\<lparr>fs_nodes := []\<rparr>) ''/t'' 493 = (demo_dir, None)" by code_simp
  ultimately show ?thesis
    by (simp add: reset_dir_def sys_remove_all_def sys_mkdir_all_def demo_sys_def)
qed

lemma local_url:
  "url_parse ''/srv/r'' = Some (empty_url\<lparr>u_path := ''/srv/r''\<rparr>)" "\<not> scp_match ''/srv/r''" "\<not> has_prefix ''/srv/r'' ''ssh://''"
  by code_simp+

lemma demo_candidates: "auth_candidates demo_auth_env demo_default local_dl = Some [const_source None]"
proof -
  have "match_https_credentials demo_default ''/srv/r'' = []"
    unfolding match_https_credentials_def demo_default_def default_settings_def by (simp add: local_url)
  moreover have "request_credential demo_default x y z = None" for x y z
    by (simp add: request_credential_def demo_default_def default_settings_def)
  ultimately show ?thesis
    by (simp add: auth_candidates_def local_dl_def demo_dl_def local_url url_user_of_def url_credential_def empty_url_def)
qed

lemma demo_clone:
  "git_download demo_git_env demo_default local_dl ''/t'' demo_sys = Some (demo_sys, None)"
proof -
  have h: "git_url_host ''/srv/r'' = []" "git_url_scheme ''/srv/r'' = []" "http_remote_url ''/srv/r'' = None" by code_simp+
  have "fs_remove_all demo_dir ''/t/.git'' = (demo_dir, None)" by code_simp
  moreover have "path_join [''/t'', ''.git''] = ''/t/.git''" by code_simp
  ultimately have f: "finish_clone local_dl ''/t'' demo_sys = (demo_sys, Inr ())"
    by (simp add: finish_clone_def local_dl_def demo_dl_def sys_remove_all_def demo_sys_def Let_def)
  have p: "\<not> pinned_commit_eligible local_dl" "\<not> sparse_eligible local_dl" "\<not> looks_like_commit_hash (gd_ref local_dl)"
    by (simp_all add: pinned_commit_eligible_def sparse_eligible_def local_dl_def demo_dl_def looks_like_commit_hash_def)
  have "clone_attempts local_dl \<noteq> []" by (simp add: clone_attempts_def Let_def split: option.split)
  then have "clone_named demo_git demo_default local_dl demo_sys ''/t'' opts = (demo_sys, Inr (Some ''repo'', False))" for opts
    by (cases "clone_attempts local_dl")
      (auto simp: clone_named_def clone_by_attempts_def wrapped_def and_try_def demo_git_def Let_def split: prod.split)
  then have "clone_and_prepare demo_git demo_default local_dl ''/t'' demo_sys [] = (demo_sys, None)"
    using p f by (simp add: clone_and_prepare_def full_clone_def obtain_repo_def checkout_ref_def as_error_def and_try_def)
  then show ?thesis
    using h demo_candidates
    by (simp add: git_download_def Let_def check_ssrf_host_for_def env_proxy_applies_def check_ssrf_host_def check_host_def
        transport_options_def download_with_credentials_def const_source_def demo_git_env_def demo_archive_env_def
        local_dl_def demo_dl_def)
qed

theorem scheme_fallback_exact_witness:
  "\<exists>w1. git_downloader_download demo_git_env demo_default local_dl ''/t'' demo_sys = Some (w1, Inr False)"
proof -
  let ?verdict = "\<lambda>_ :: string. None :: goerr option"
  have cs: "clone_candidates demo_default local_dl = [''/srv/r'']"
    by (simp add: clone_candidates_def local_dl_def demo_dl_def demo_default_def default_settings_def local_url Let_def empty_url_def)
  have up: "local_dl\<lparr>gd_repo_url := ''/srv/r''\<rparr> = local_dl" by (simp add: local_dl_def demo_dl_def)
  have "git_host_port ''/srv/r'' = ([], [])" by code_simp
  then have probe: "git_probe demo_git_env demo_default ''/srv/r'' = None"
    by (simp add: git_probe_def probe_connect_for_def)
  have "\<exists>w'. git_download demo_git_env demo_default (local_dl\<lparr>gd_repo_url := cand\<rparr>) ''/t'' w = Some (w', ?verdict cand) \<and> w' = demo_sys"
    if "cand \<in> set (clone_candidates demo_default local_dl)" "w = demo_sys" for cand w
    using that demo_clone up cs by simp
  moreover have "\<exists>w'. reset_dir w ''/t'' = (w', None) \<and> w' = demo_sys" if "w = demo_sys" for w
    using that demo_reset by simp
  moreover have "\<not> looks_like_commit_hash (gd_ref local_dl)"
    by (simp add: local_dl_def demo_dl_def looks_like_commit_hash_def)
  ultimately obtain w1 r where "git_downloader_download demo_git_env demo_default local_dl ''/t'' demo_sys = Some (w1, r)"
    and r: "r = Inr False \<longleftrightarrow> (\<exists>xs c ys. clone_candidates demo_default local_dl = xs @ c # ys \<and>
       git_probe demo_git_env demo_default c = None \<and> ?verdict c = None \<and>
       (\<forall>x\<in>set xs. git_probe demo_git_env demo_default x \<noteq> None \<or> (\<exists>e. ?verdict x = Some e \<and> \<not> definitive_clone_error e)))"
    using scheme_fallback_exact [where I = "\<lambda>w. w = demo_sys" and verdict = ?verdict and s = demo_default and d = local_dl
        and env = demo_git_env and tmp = "''/t''" and w = demo_sys, OF _ _ refl] by blast
  moreover have "r = Inr False" using probe unfolding r cs by (intro exI [of _ "[]"] exI [of _ "''/srv/r''"]) simp
  ultimately show ?thesis by blast
qed

theorem git_download_blocked_host_witness:
  "\<exists>e. git_download demo_git_env demo_default ((demo_dl ''v1'')\<lparr>gd_repo_url := ''https://127.0.0.1/o/r.git''\<rparr>) ''/t'' demo_sys =
     Some (demo_sys, Some e)"
proof -
  let ?d = "(demo_dl ''v1'')\<lparr>gd_repo_url := ''https://127.0.0.1/o/r.git''\<rparr>"
  have u: "git_url_host ''https://127.0.0.1/o/r.git'' = ''127.0.0.1''" by code_simp
  have g: "parse_ip ''127.0.0.1'' \<noteq> []" "blocked (ssrf_guard demo_default) (parse_ip ''127.0.0.1'')"
    "enabled (ssrf_guard demo_default)" "\<not> host_allowed (ssrf_guard demo_default) ''127.0.0.1''"
    unfolding demo_guard by code_simp+
  have "base_proxy demo_env demo_default = None"
    by (simp add: base_proxy_def demo_env_def demo_default_def default_settings_def empty_transport_def)
  then have "\<not> env_proxy_applies demo_env demo_default x y z" for x y z
    by (simp add: env_proxy_applies_def)
  then show ?thesis
    using git_download_blocked_host [of ?d demo_default demo_git_env "''/t''" demo_sys] u g
    by (simp add: demo_git_env_def demo_archive_env_def)
qed

theorem git_directory_removed_witness:
  "\<exists>e. fs_lstat (sys_fs (fst (finish_clone (demo_dl ''v1'') ''/t''
      \<lparr>sys_fs = \<lparr>fs_nodes = [([''t''], Dir 493), ([''t'', ''.git''], Dir 493), ([''t'', ''.git'', ''config''], Regular 420 ''c''),
         ([''t'', ''l''], Link ''/etc'')], fs_cwd = []\<rparr>, sys_net = ()\<rparr>))) ''/t/.git'' = Inl e"
proof -
  let ?w = "\<lparr>sys_fs = \<lparr>fs_nodes = [([''t''], Dir 493), ([''t'', ''.git''], Dir 493), ([''t'', ''.git'', ''config''], Regular 420 ''c''),
         ([''t'', ''l''], Link ''/etc'')], fs_cwd = []\<rparr>, sys_net = ()\<rparr> :: unit sys"
  obtain w1 r where f: "finish_clone (demo_dl ''v1'') (abs_path [''t'']) ?w = (w1, r)" by fastforce
  have "links_only {[''t'', ''l'']} [''t''] (sys_fs ?w)" by (auto simp: links_only_def fs_get_def split: if_splits)
  moreover have "avoids {[''t'', ''l'']} [''t'']" by (simp add: avoids_def)
  moreover have "plain_comps [''t'']" "abs_path [''t''] = ''/t''" "abs_path ([''t''] @ [''.git'']) = ''/t/.git''" by code_simp+
  ultimately show ?thesis using git_directory_removed [OF _ _ _ f] f by simp
qed

end
