(* ===== verification/Copy_Tree.thy ===== *)
theory Copy_Tree
  imports Files Small_Internal
begin

text \<open>
  Copying a directory tree: \<^verbatim>\<open>copyDir\<close>, \<^verbatim>\<open>copySymlink\<close> and \<^verbatim>\<open>copyFile\<close> of \<^verbatim>\<open>grabber.go\<close> and of
  \<^verbatim>\<open>protocols/file/file.go\<close> (which take the mode of a file from different places), over
  \<^verbatim>\<open>filepath.Rel\<close> and \<^verbatim>\<open>filepath.Walk\<close> of the standard library.  The lemmas show that the copy of
  a tree to a new place holds what the original holds, symbolic links included, and touches
  nothing else, as renaming the tree does.
\<close>

section \<open>filepath.Rel\<close>

fun strip_common :: "string list \<Rightarrow> string list \<Rightarrow> string list \<times> string list" where
  "strip_common (x # xs) (y # ys) = (if x = y then strip_common xs ys else (x # xs, y # ys))"
| "strip_common xs ys = (xs, ys)"

definition path_rel :: "string \<Rightarrow> string \<Rightarrow> string result" where
  "path_rel base targ =
     (if path_clean targ = path_clean base then Inr ''.''
      else if is_abs (path_clean base) \<noteq> is_abs (path_clean targ)
      then Inl (Errorf ''Rel: can't make %s relative to %s'' [targ, base] [])
      else case strip_common (path_comps base) (path_comps targ) of
        (up, down) \<Rightarrow>
          if up \<noteq> [] \<and> hd up = ''..'' then Inl (Errorf ''Rel: can't make %s relative to %s'' [targ, base] [])
          else Inr (join_str ''/'' (map (\<lambda>_. ''..'') up @ down)))"

section \<open>filepath.Walk\<close>

text \<open>
  The function that is called for each path, with what \<^verbatim>\<open>Lstat\<close> says of it or an error; the
  functions of the program never return \<^verbatim>\<open>SkipDir\<close>.  \<open>k\<close> bounds the depth; the walk has no
  result when it is exceeded.
\<close>

type_synonym walk_fn = "fs \<Rightarrow> string \<Rightarrow> fnode option \<Rightarrow> goerr option \<Rightarrow> fs \<times> goerr option"

fun walk_node :: "nat \<Rightarrow> walk_fn \<Rightarrow> fs \<Rightarrow> string \<Rightarrow> fnode \<Rightarrow> (fs \<times> goerr option) option"
  and walk_names :: "nat \<Rightarrow> walk_fn \<Rightarrow> fs \<Rightarrow> string \<Rightarrow> string list \<Rightarrow> (fs \<times> goerr option) option" where
  "walk_node 0 fn f path n = (if is_dir n then None else Some (fn f path (Some n) None))"
| "walk_node (Suc k) fn f path n =
     (if \<not> is_dir n then Some (fn f path (Some n) None)
      else case read_dir f path of
        Inl err \<Rightarrow> Some (fn f path (Some n) (Some err))
      | Inr names \<Rightarrow>
          (case fn f path (Some n) None of
             (g, Some err) \<Rightarrow> Some (g, Some err)
           | (g, None) \<Rightarrow> walk_names k fn g path names))"
| "walk_names k fn f path [] = Some (f, None)"
| "walk_names k fn f path (c # cs) =
     (case (case fs_lstat f (path_join [path, c]) of
              Inl err \<Rightarrow> Some (fn f (path_join [path, c]) None (Some err))
            | Inr n \<Rightarrow> walk_node k fn f (path_join [path, c]) n) of
        None \<Rightarrow> None
      | Some (g, Some err) \<Rightarrow> Some (g, Some err)
      | Some (g, None) \<Rightarrow> walk_names k fn g path cs)"

definition file_walk :: "nat \<Rightarrow> walk_fn \<Rightarrow> fs \<Rightarrow> string \<Rightarrow> (fs \<times> goerr option) option" where
  "file_walk k fn f root =
     (case fs_lstat f root of
        Inl err \<Rightarrow> Some (fn f root None (Some err))
      | Inr n \<Rightarrow> walk_node k fn f root n)"

section \<open>The copies\<close>

text \<open>
  \<open>os.Open\<close> gives the path of the node it opened; what is read later is the node's content then.
\<close>

definition open_read :: "fs \<Rightarrow> string \<Rightarrow> fpath result" where
  "open_read f s = bind_result (resolve f True s) (\<lambda>p. if fs_get f p = None then Inl enoent else Inr p)"

definition opened_reader :: "fs \<Rightarrow> fpath \<Rightarrow> reader" where
  "opened_reader f p =
     (case fs_get f p of
        Some (Regular m d) \<Rightarrow> \<lparr>rd_data = d, rd_end = None\<rparr>
      | _ \<Rightarrow> \<lparr>rd_data = [], rd_end = Some eisdir\<rparr>)"

definition copy_symlink :: "fs \<Rightarrow> string \<Rightarrow> string \<Rightarrow> fs \<times> goerr option" where
  "copy_symlink f src dst =
     (case fs_readlink f src of
        Inl err \<Rightarrow> (f, Some err)
      | Inr target \<Rightarrow>
          (case mkdir_all f (path_dir dst) 493 of
             (g, Some err) \<Rightarrow> (g, Some err)
           | (g, None) \<Rightarrow>
               (case fs_remove g dst of
                  (h, None) \<Rightarrow> fs_symlink h target dst
                | (h, Some err) \<Rightarrow> if errors_is err ErrNotExist then fs_symlink h target dst else (h, Some err))))"

text \<open>What follows the opening of the source, common to both copies: \<open>disk\<close> is how writing ends.\<close>

definition copy_opened :: "(fpath \<Rightarrow> writer) \<Rightarrow> fs \<Rightarrow> fpath \<Rightarrow> string \<Rightarrow> nat \<Rightarrow> fs \<times> goerr option" where
  "copy_opened disk f p dst mode =
     (case mkdir_all f (path_dir dst) 493 of
        (g, Some err) \<Rightarrow> (g, Some err)
      | (g, None) \<Rightarrow>
          (case open_create g dst mode of
             (h, Inl err) \<Rightarrow> (h, Some err)
           | (h, Inr q) \<Rightarrow> (case io_copy (disk q) (opened_reader h p) of (w, err) \<Rightarrow> (fs_write h q w, err))))"

definition copy_file :: "(fpath \<Rightarrow> writer) \<Rightarrow> fs \<Rightarrow> string \<Rightarrow> string \<Rightarrow> nat \<Rightarrow> fs \<times> goerr option" where
  "copy_file disk f src dst mode =
     (case open_read f src of Inl err \<Rightarrow> (f, Some err) | Inr p \<Rightarrow> copy_opened disk f p dst mode)"

definition node_mode :: "fnode \<Rightarrow> nat" where
  "node_mode n = (case n of Dir m \<Rightarrow> m | Regular m _ \<Rightarrow> m | Link _ \<Rightarrow> 511)"

text \<open>The one of the file protocol asks the open file for the mode.\<close>

definition copy_local_file :: "(fpath \<Rightarrow> writer) \<Rightarrow> fs \<Rightarrow> string \<Rightarrow> string \<Rightarrow> fs \<times> goerr option" where
  "copy_local_file disk f src dst =
     (case open_read f src of
        Inl err \<Rightarrow> (f, Some err)
      | Inr p \<Rightarrow> copy_opened disk f p dst (case fs_get f p of Some n \<Rightarrow> node_mode n | None \<Rightarrow> 0))"

definition copy_entry :: "(fs \<Rightarrow> string \<Rightarrow> string \<Rightarrow> nat \<Rightarrow> fs \<times> goerr option) \<Rightarrow> string \<Rightarrow> string \<Rightarrow> walk_fn" where
  "copy_entry cp src dst f path info err =
     (case err of
        Some e \<Rightarrow> (f, Some e)
      | None \<Rightarrow>
          (case path_rel src path of
             Inl e \<Rightarrow> (f, Some e)
           | Inr rel \<Rightarrow>
               (case info of
                  Some (Dir m) \<Rightarrow> mkdir_all f (path_join [dst, rel]) m
                | Some (Link _) \<Rightarrow> copy_symlink f path (path_join [dst, rel])
                | Some (Regular m _) \<Rightarrow> cp f path (path_join [dst, rel]) m
                | None \<Rightarrow> (f, None))))"

definition copy_dir :: "nat \<Rightarrow> (fpath \<Rightarrow> writer) \<Rightarrow> fs \<Rightarrow> string \<Rightarrow> string \<Rightarrow> (fs \<times> goerr option) option" where
  "copy_dir k disk f src dst = file_walk k (copy_entry (copy_file disk) src dst) f src"

definition copy_local_dir :: "nat \<Rightarrow> (fpath \<Rightarrow> writer) \<Rightarrow> fs \<Rightarrow> string \<Rightarrow> string \<Rightarrow> (fs \<times> goerr option) option" where
  "copy_local_dir k disk f src dst =
     file_walk k (copy_entry (\<lambda>f s d _. copy_local_file disk f s d) src dst) f src"

section \<open>Well-formed file systems\<close>

text \<open>Every node has one entry, a plain name and a directory above it.\<close>

definition fs_ok :: "fs \<Rightarrow> bool" where
  "fs_ok f \<longleftrightarrow> distinct (map fst (fs_nodes f)) \<and>
     (\<forall>p n. fs_get f p = Some n \<longrightarrow> p \<noteq> [] \<longrightarrow> plain_comps p \<and> (\<exists>m. fs_get f (butlast p) = Some (Dir m)))"

text \<open>A path that goes through directories only.\<close>

definition placed :: "fs \<Rightarrow> fpath \<Rightarrow> bool" where
  "placed f p \<longleftrightarrow> plain_comps p \<and> (\<forall>q. strict_prefix q p \<longrightarrow> (\<exists>m. fs_get f q = Some (Dir m)))"

lemma placed_snoc:
  "placed f (p @ [c]) \<longleftrightarrow> placed f p \<and> plain_comps [c] \<and> (\<exists>m. fs_get f p = Some (Dir m))"
  by (auto simp: placed_def strict_prefix_def prefix_snoc)

lemma placed_Nil [simp]: "placed f []"
  by (simp add: placed_def plain_comps_def)

lemma placed_plain: "placed f p \<Longrightarrow> plain_comps p"
  by (simp add: placed_def)

lemma placed_parent: "placed f p \<Longrightarrow> p \<noteq> [] \<Longrightarrow> placed f (butlast p) \<and> (\<exists>m. fs_get f (butlast p) = Some (Dir m))"
  by (cases p rule: rev_cases) (auto simp: placed_snoc)

lemma placed_cong: "(\<And>q. strict_prefix q p \<Longrightarrow> fs_get g q = fs_get f q) \<Longrightarrow> placed g p = placed f p"
  by (simp add: placed_def)

lemma ok_placed: "fs_ok f \<Longrightarrow> fs_get f p = Some n \<Longrightarrow> placed f p"
proof (induction p arbitrary: n rule: rev_induct)
  case (snoc c p)
  then have "plain_comps (p @ [c])" "\<exists>m. fs_get f p = Some (Dir m)"
    unfolding fs_ok_def by (metis butlast_snoc snoc_eq_iff_butlast)+
  then show ?case using snoc by (auto simp: placed_snoc)
qed simp

lemma ok_none_below:
  assumes "fs_ok f" and "prefix p q" and "fs_get f p = None"
  shows "fs_get f q = None"
proof (rule ccontr)
  assume "fs_get f q \<noteq> None"
  then have "placed f q" using ok_placed assms(1) by blast
  then show False using assms(2,3) \<open>fs_get f q \<noteq> None\<close> by (cases "p = q") (auto simp: placed_def strict_prefix_def)
qed

lemma walk_dirs:
  assumes "\<And>q. strict_prefix q cs \<Longrightarrow> q \<noteq> [] \<Longrightarrow> \<exists>m. fs_get f (cur @ q) = Some (Dir m)"
    and "''..'' \<notin> set cs" and "\<And>t. fl \<Longrightarrow> cs \<noteq> [] \<Longrightarrow> fs_get f (cur @ cs) \<noteq> Some (Link t)"
  shows "walk f fl n cur cs = Inr (cur @ cs)"
  using assms
proof (induction cs arbitrary: cur)
  case (Cons c cs)
  show ?case
  proof (cases "cs = []")
    case True
    then show ?thesis using Cons.prems by (auto split: option.split fnode.split)
  next
    case False
    then obtain m where m: "fs_get f (cur @ [c]) = Some (Dir m)"
      using Cons.prems(1) [of "[c]"] by (auto simp: strict_prefix_def prefix_def)
    have "walk f fl n (cur @ [c]) cs = Inr ((cur @ [c]) @ cs)"
    proof (rule Cons.IH)
      show "\<exists>m. fs_get f ((cur @ [c]) @ q) = Some (Dir m)" if "strict_prefix q cs" "q \<noteq> []" for q
        using Cons.prems(1) [of "c # q"] that by simp
    qed (use Cons.prems(2,3) False in auto)
    then show ?thesis using m Cons.prems(2) by (cases "c = ''..''") auto
  qed
qed simp

lemma resolve_placed:
  assumes "placed f p" and "\<And>t. fl \<Longrightarrow> fs_get f p \<noteq> Some (Link t)"
  shows "resolve f fl (abs_path p) = Inr p"
proof -
  have "plain_comps p" using assms(1) by (rule placed_plain)
  moreover have "walk f fl symloop_max [] p = Inr ([] @ p)"
    using assms by (intro walk_dirs) (auto simp: placed_def plain_comps_def)
  ultimately show ?thesis by (simp add: resolve_def raw_comps_abs)
qed

lemma parent_ok_placed: "placed f p \<Longrightarrow> p \<noteq> [] \<Longrightarrow> parent_ok f p"
  using placed_parent [of f p] by (auto simp: parent_ok_def is_dir_def)

lemma stat_placed:
  "placed f p \<Longrightarrow> fs_get f p = Some n \<Longrightarrow> (\<And>t. n \<noteq> Link t) \<Longrightarrow> fs_stat f (abs_path p) = Inr n"
  by (simp add: fs_stat_def resolve_placed)

lemma lstat_placed: "placed f p \<Longrightarrow> fs_get f p = Some n \<Longrightarrow> fs_lstat f (abs_path p) = Inr n"
  by (simp add: fs_lstat_def resolve_placed)

lemma stat_placed_none: "placed f p \<Longrightarrow> fs_get f p = None \<Longrightarrow> fs_stat f (abs_path p) = Inl enoent"
  by (simp add: fs_stat_def resolve_placed)

lemma mkdir_placed:
  "placed f p \<Longrightarrow> fs_get f p = None \<Longrightarrow> p \<noteq> [] \<Longrightarrow> fs_mkdir f (abs_path p) m = (fs_set f p (Dir m), None)"
  by (simp add: fs_mkdir_def resolve_placed parent_ok_placed)

lemma mkdir_all_existing: "placed f p \<Longrightarrow> fs_get f p = Some (Dir m') \<Longrightarrow> mkdir_all f (abs_path p) m = (f, None)"
  unfolding mkdir_all_def by (subst mkdir_all_from.simps) (simp add: stat_placed is_dir_def)

lemma mkdir_all_placed:
  assumes "placed f p" and "fs_get f p = None"
  shows "mkdir_all f (abs_path p) m = (fs_set f p (Dir m), None)"
proof -
  have ne: "p \<noteq> []" using assms(2) by (auto simp: fs_get_def)
  then obtain q c where p: "p = q @ [c]" by (cases p rule: rev_cases) auto
  have "mkdir_all_from k f (parent_string (abs_path p)) m = (f, None)" if "parent_string (abs_path p) \<noteq> []" for k
  proof -
    have "parent_string (abs_path p) = abs_path q"
      using parent_string_abs [of q c] placed_plain [OF assms(1)] that by (auto simp: p split: if_splits)
    moreover have "placed f q" "\<exists>m. fs_get f q = Some (Dir m)" using assms(1) by (auto simp: p placed_snoc)
    ultimately show ?thesis
      by (subst mkdir_all_from.simps) (auto simp: stat_placed is_dir_def)
  qed
  moreover obtain k where "length (abs_path p) = Suc k" by (cases "length (abs_path p)") auto
  ultimately show ?thesis
    unfolding mkdir_all_def
    using stat_placed_none [OF assms] mkdir_placed [OF assms ne] by (subst mkdir_all_from.simps) simp
qed

lemma symlink_placed:
  "placed f p \<Longrightarrow> fs_get f p = None \<Longrightarrow> p \<noteq> [] \<Longrightarrow> fs_symlink f t (abs_path p) = (fs_set f p (Link t), None)"
  by (simp add: fs_symlink_def resolve_placed parent_ok_placed)

lemma remove_placed_none: "placed f p \<Longrightarrow> fs_get f p = None \<Longrightarrow> fs_remove f (abs_path p) = (f, Some enoent)"
  by (simp add: fs_remove_def resolve_placed)

lemma create_placed:
  "placed f p \<Longrightarrow> fs_get f p = None \<Longrightarrow> p \<noteq> [] \<Longrightarrow>
   open_create f (abs_path p) m = (fs_set f p (Regular m []), Inr p)"
  by (simp add: open_create_def resolve_placed parent_ok_placed)

lemma fs_set_set [simp]: "fs_set (fs_set f p a) p b = fs_set f p b"
  by (simp add: fs_set_def map_put_def filter_filter case_prod_unfold)

lemma write_created: "p \<noteq> [] \<Longrightarrow> fs_write (fs_set f p (Regular m [])) p d = fs_set f p (Regular m d)"
  by (simp add: fs_write_def fs_get_set)

section \<open>One entry\<close>

lemma strip_common_append: "strip_common s (s @ r) = ([], r)"
  by (induction s) (cases r; simp)+

lemma rel_of:
  assumes "plain_comps s" and "plain_comps r"
  shows "path_rel (abs_path s) (abs_path (s @ r)) = Inr (if r = [] then ''.'' else rel_path r)"
proof -
  have "abs_path (s @ r) = abs_path s \<longleftrightarrow> r = []"
    using path_comps_abs [of s] path_comps_abs [of "s @ r"] assms by auto
  then show ?thesis
    using assms by (simp add: path_rel_def clean_abs_path path_comps_abs strip_common_append)
qed

lemma join_of:
  assumes "plain_comps d" and "plain_comps r"
  shows "path_join [abs_path d, if r = [] then ''.'' else rel_path r] = abs_path (d @ r)"
proof (cases "r = []")
  case True
  let ?j = "path_join [abs_path d, ''.'']"
  have "path_comps ?j = d" using path_comps_abs [OF assms(1)] by (simp add: path_comps_join clean_comps_def clean_step_def)
  moreover have "is_abs ?j" by (simp add: is_abs_join)
  moreover have "path_clean ?j = ?j" by (simp add: path_join_two)
  ultimately have "?j = abs_path d" using clean_abs [of ?j] by simp
  then show ?thesis using True by simp
qed (use assms join_abs_rel in simp)

text \<open>A copy of one node, for both ways to copy a file.\<close>

definition copies_files :: "(fpath \<Rightarrow> writer) \<Rightarrow> (fs \<Rightarrow> string \<Rightarrow> string \<Rightarrow> nat \<Rightarrow> fs \<times> goerr option) \<Rightarrow> bool" where
  "copies_files disk cp \<longleftrightarrow>
     (\<forall>f s d m x. fs_get f s = Some (Regular m x) \<longrightarrow> placed f s \<longrightarrow> placed f d \<longrightarrow> fs_get f d = None \<longrightarrow> disk d = None \<longrightarrow>
        cp f (abs_path s) (abs_path d) m = (fs_set f d (Regular m x), None))"

lemma copy_opened_placed:
  assumes "fs_get f s = Some (Regular m x)" and "placed f d" and "fs_get f d = None" and "disk d = None"
  shows "copy_opened disk f s (abs_path d) k = (fs_set f d (Regular k x), None)"
proof -
  have d: "d \<noteq> []" "s \<noteq> d" using assms(1,3) by (auto simp: fs_get_def)
  have "mkdir_all f (path_dir (abs_path d)) 493 = (f, None)"
    using placed_parent [OF assms(2) d(1)] mkdir_all_existing path_dir_abs [OF placed_plain [OF assms(2)]] by auto
  then show ?thesis
    using assms d create_placed [OF assms(2,3) d(1), of k] write_created [OF d(1)]
    by (simp add: copy_opened_def opened_reader_def fs_get_set io_copy_def)
qed

lemma open_read_placed: "placed f s \<Longrightarrow> fs_get f s = Some (Regular m x) \<Longrightarrow> open_read f (abs_path s) = Inr s"
  by (simp add: open_read_def resolve_placed)

lemma copies_files_both: "copies_files disk (copy_file disk)" "copies_files disk (\<lambda>f s d _. copy_local_file disk f s d)"
  by (auto simp: copies_files_def copy_file_def copy_local_file_def open_read_placed copy_opened_placed node_mode_def)

lemma copy_symlink_placed:
  assumes "placed f s" and "fs_get f s = Some (Link t)" and "placed f d" and "fs_get f d = None"
  shows "copy_symlink f (abs_path s) (abs_path d) = (fs_set f d (Link t), None)"
proof -
  have d: "d \<noteq> []" using assms(4) by (auto simp: fs_get_def)
  have "mkdir_all f (path_dir (abs_path d)) 493 = (f, None)"
    using placed_parent [OF assms(3) d] mkdir_all_existing path_dir_abs [OF placed_plain [OF assms(3)]] by auto
  then show ?thesis
    using assms d remove_placed_none [OF assms(3,4)]
    by (simp add: copy_symlink_def fs_readlink_def lstat_placed symlink_placed enoent_def)
qed

lemma copy_entry_placed:
  assumes "copies_files disk cp" and "plain_comps s" and "plain_comps d"
    and "fs_get f (s @ r) = Some n" and "placed f (s @ r)" and "placed f (d @ r)" and "fs_get f (d @ r) = None" and "disk (d @ r) = None"
  shows "copy_entry cp (abs_path s) (abs_path d) f (abs_path (s @ r)) (Some n) None = (fs_set f (d @ r) n, None)"
proof -
  have r: "plain_comps r" using placed_plain [OF assms(5)] by simp
  note paths = rel_of [OF assms(2) r] join_of [OF assms(3) r]
  show ?thesis
  proof (cases n)
    case (Dir m)
    then show ?thesis using paths assms mkdir_all_placed by (simp add: copy_entry_def del: split_paired_All)
  next
    case (Regular m x)
    then show ?thesis using paths assms unfolding copies_files_def by (simp add: copy_entry_def)
  next
    case (Link t)
    then show ?thesis using paths assms copy_symlink_placed by (simp add: copy_entry_def)
  qed
qed

section \<open>The whole tree\<close>

lemma set_insert_str: "set (insert_str x ys) = insert x (set ys)"
  by (induction ys) auto

lemma distinct_insert_str: "distinct ys \<Longrightarrow> x \<notin> set ys \<Longrightarrow> distinct (insert_str x ys)"
  by (induction ys) (auto simp: set_insert_str)

lemma sort_str_facts: "set (sort_str xs) = set xs" "distinct xs \<Longrightarrow> distinct (sort_str xs)"
  by (induction xs) (auto simp: sort_str_def set_insert_str distinct_insert_str)

lemma set_children: "set (fs_children f p) = {c. fs_get f (p @ [c]) \<noteq> None}"
proof -
  have "c \<in> set (fs_children f p) \<longleftrightarrow> (\<exists>q\<in>fst ` set (fs_nodes f). q \<noteq> [] \<and> butlast q = p \<and> c = last q)" for c
    unfolding fs_children_def by auto
  moreover have "(\<exists>q\<in>fst ` set (fs_nodes f). q \<noteq> [] \<and> butlast q = p \<and> c = last q) \<longleftrightarrow> p @ [c] \<in> fst ` set (fs_nodes f)" for c
    by (metis append_butlast_last_id butlast_snoc last_snoc snoc_eq_iff_butlast)
  ultimately show ?thesis by (auto simp: fs_get_def map_of_eq_None_iff)
qed

lemma distinct_children: "distinct (map fst (fs_nodes f)) \<Longrightarrow> distinct (fs_children f p)"
  unfolding fs_children_def
  by (auto simp: distinct_map inj_on_def) (metis append_butlast_last_id)

lemma read_dir_placed:
  assumes "placed f p" and "fs_get f p = Some (Dir m)" and "distinct (map fst (fs_nodes f))"
  obtains names where "read_dir f (abs_path p) = Inr names" "distinct names" "set names = {c. fs_get f (p @ [c]) \<noteq> None}"
  using assms sort_str_facts [of "fs_children f p"] set_children [of f p] distinct_children [of f p]
  by (simp add: read_dir_def resolve_placed)

text \<open>
  The state in the middle of the walk: of the tree at \<open>s\<close> in \<open>f\<close> the paths in \<open>R\<close> have been copied to
  \<open>d\<close>, which itself is \<open>e\<close>, and nothing else has changed.
\<close>

definition copied :: "fs \<Rightarrow> fpath \<Rightarrow> fpath \<Rightarrow> fnode \<Rightarrow> fpath set \<Rightarrow> fs \<Rightarrow> bool" where
  "copied f s d e R g \<longleftrightarrow> distinct (map fst (fs_nodes g)) \<and>
     (\<forall>r. fs_get g (d @ r) = (if r \<notin> R then None else if r = [] then Some e else fs_get f (s @ r))) \<and>
     ((\<exists>m. fs_get f s = Some (Dir m)) \<longrightarrow> is_dir e) \<and>
     (\<forall>q. \<not> prefix d q \<longrightarrow> fs_get g q = fs_get f q)"

lemma copied_set:
  assumes "copied f s d e R g" and "fs_get f (s @ r) = Some n" and "d \<noteq> []" and "r = [] \<Longrightarrow> n = e"
  shows "copied f s d e (insert r R) (fs_set g (d @ r) n)"
proof -
  have at: "fs_get g (d @ x) = (if x \<notin> R then None else if x = [] then Some e else fs_get f (s @ x))" for x
    using assms(1) by (simp add: copied_def)
  have "fs_get (fs_set g (d @ r) n) (d @ x) =
      (if x \<notin> insert r R then None else if x = [] then Some e else fs_get f (s @ x))" for x
    using assms(2,4) by (cases "x = r") (simp_all add: fs_get_set [of "d @ r"] assms(3) at)
  moreover have "distinct (map fst (fs_nodes (fs_set g (d @ r) n)))"
    using assms(1) distinct_map_put by (auto simp: copied_def fs_set_def)
  ultimately show ?thesis using assms(1,3) by (auto simp: copied_def fs_get_set)
qed

lemma copied_cong:
  assumes "copied f s d e R g" and "\<And>r. fs_get f (s @ r) \<noteq> None \<Longrightarrow> r \<in> R \<longleftrightarrow> r \<in> S"
    and "fs_get f s \<noteq> None"
  shows "copied f s d e S g"
proof -
  have "(if r \<notin> R then None else if r = [] then Some e else fs_get f (s @ r)) =
      (if r \<notin> S then None else if r = [] then Some e else fs_get f (s @ r))" for r
    using assms(2) [of r] assms(3) by (cases "fs_get f (s @ r)") auto
  then show ?thesis using assms(1) by (simp add: copied_def)
qed

text \<open>The two trees do not overlap; the new one has a directory to stand in.\<close>

definition apart :: "fs \<Rightarrow> fpath \<Rightarrow> fpath \<Rightarrow> bool" where
  "apart f s d \<longleftrightarrow> fs_ok f \<and> placed f d \<and> d \<noteq> [] \<and> \<not> prefix s d \<and> \<not> prefix d s"

lemma apart_source:
  assumes "apart f s d" and "prefix q (s @ r)"
  shows "\<not> prefix d q"
proof
  assume "prefix d q"
  then have "prefix d (s @ r)" using assms(2) by (rule prefix_order.trans)
  then have "prefix d s \<or> prefix s d" by (rule prefix_same_cases) simp
  then show False using assms(1) by (simp add: apart_def)
qed

lemma copied_source: "apart f s d \<Longrightarrow> copied f s d e R g \<Longrightarrow> fs_get g (s @ r) = fs_get f (s @ r)"
  using apart_source [of f s d "s @ r" r] by (simp add: copied_def)

lemma copied_placed_source:
  assumes "apart f s d" and "copied f s d e R g" and "fs_get f (s @ r) = Some n"
  shows "placed g (s @ r)"
proof -
  have "fs_get g q = fs_get f q" if "strict_prefix q (s @ r)" for q
    using apart_source [OF assms(1), of q r] that assms(2) by (simp add: copied_def strict_prefix_def)
  then have "placed g (s @ r) = placed f (s @ r)" by (rule placed_cong)
  then show ?thesis using ok_placed assms(1,3) by (simp add: apart_def)
qed

lemma copied_placed_target:
  assumes "apart f s d" and "copied f s d e R g" and "fs_get f (s @ r) = Some n" and "\<And>q. strict_prefix q r \<Longrightarrow> q \<in> R"
  shows "placed g (d @ r)"
proof -
  have f: "placed f (s @ r)" "placed f d" using ok_placed assms(1,3) by (auto simp: apart_def)
  have "\<exists>m. fs_get g q = Some (Dir m)" if q: "strict_prefix q (d @ r)" for q
  proof (cases "prefix d q")
    case True
    then obtain u where "q = d @ u" by (auto simp: prefix_def)
    then have u: "q = d @ u" "strict_prefix u r" using q by (simp_all add: strict_prefix_def)
    then have "strict_prefix (s @ u) (s @ r)" by (auto simp: strict_prefix_def)
    then obtain m where m: "fs_get f (s @ u) = Some (Dir m)" using f(1) by (auto simp: placed_def)
    have "fs_get g q = (if u = [] then Some e else fs_get f (s @ u))"
      using u assms(2,4) by (simp add: copied_def)
    moreover have "is_dir e" if "u = []" using m that assms(2) by (auto simp: copied_def)
    ultimately show ?thesis using m by (auto simp: is_dir_def split: fnode.splits if_splits)
  next
    case False
    then have "strict_prefix q d" using q prefix_same_cases [of q "d @ r" d] by (auto simp: strict_prefix_def)
    then show ?thesis using f(2) False assms(2) by (auto simp: placed_def copied_def)
  qed
  moreover have "plain_comps (d @ r)" using placed_plain [OF f(1)] placed_plain [OF f(2)] by simp
  ultimately show ?thesis by (simp add: placed_def)
qed

lemma copy_names:
  assumes node: "\<And>g r n R. copied f s d e R g \<Longrightarrow> fs_get f (s @ r) = Some n \<Longrightarrow> (\<And>q. strict_prefix q r \<Longrightarrow> q \<in> R) \<Longrightarrow>
      (\<And>q. prefix r q \<Longrightarrow> q \<notin> R) \<Longrightarrow> (\<And>q. fs_get f (s @ r @ q) \<noteq> None \<Longrightarrow> length q < k) \<Longrightarrow> r \<noteq> [] \<Longrightarrow>
      \<exists>h. walk_node k fn g (abs_path (s @ r)) n = Some (h, None) \<and> copied f s d e (R \<union> {q. prefix r q}) h"
    and "apart f s d" and "plain_comps s"
  shows "copied f s d e R g \<Longrightarrow> distinct cs \<Longrightarrow> set cs \<subseteq> {c. fs_get f (s @ r @ [c]) \<noteq> None} \<Longrightarrow>
    (\<And>q. prefix q r \<Longrightarrow> q \<in> R) \<Longrightarrow> (\<And>c q. c \<in> set cs \<Longrightarrow> prefix (r @ [c]) q \<Longrightarrow> q \<notin> R) \<Longrightarrow>
    (\<And>q. fs_get f (s @ r @ q) \<noteq> None \<Longrightarrow> length q < Suc k) \<Longrightarrow>
    \<exists>h. walk_names k fn g (abs_path (s @ r)) cs = Some (h, None) \<and>
      copied f s d e (R \<union> {q. \<exists>c\<in>set cs. prefix (r @ [c]) q}) h"
proof (induction cs arbitrary: g R)
  case (Cons c cs)
  obtain n where n: "fs_get f (s @ (r @ [c])) = Some n" using Cons.prems(3) by auto
  have pl: "placed g (s @ (r @ [c]))" by (rule copied_placed_source [OF assms(2) Cons.prems(1) n])
  have gn: "fs_get g (s @ (r @ [c])) = Some n" using copied_source [OF assms(2) Cons.prems(1)] n by simp
  have "plain_comps (s @ r)" "plain_comps [c]" using placed_plain [OF pl] by simp_all
  then have join: "path_join [abs_path (s @ r), c] = abs_path (s @ (r @ [c]))"
    using join_abs_rel [of "s @ r" "[c]"] by simp
  have "\<exists>h. walk_node k fn g (abs_path (s @ (r @ [c]))) n = Some (h, None) \<and>
      copied f s d e (R \<union> {q. prefix (r @ [c]) q}) h"
  proof (rule node [OF Cons.prems(1) n])
    show "q \<in> R" if "strict_prefix q (r @ [c])" for q
      using Cons.prems(4) that by (auto simp: strict_prefix_def prefix_snoc)
    show "length q < k" if "fs_get f (s @ (r @ [c]) @ q) \<noteq> None" for q
      using Cons.prems(6) [of "c # q"] that by simp
  qed (use Cons.prems(5) in auto)
  then obtain h where h: "walk_node k fn g (abs_path (s @ (r @ [c]))) n = Some (h, None)"
    "copied f s d e (R \<union> {q. prefix (r @ [c]) q}) h" by blast
  have "\<exists>h'. walk_names k fn h (abs_path (s @ r)) cs = Some (h', None) \<and>
      copied f s d e ((R \<union> {q. prefix (r @ [c]) q}) \<union> {q. \<exists>c\<in>set cs. prefix (r @ [c]) q}) h'"
  proof (rule Cons.IH [OF h(2)])
    show "q \<notin> R \<union> {q. prefix (r @ [c]) q}" if "c' \<in> set cs" "prefix (r @ [c']) q" for c' q
      using Cons.prems(2,5) that by (auto simp: prefix_def)
  qed (use Cons.prems in auto)
  moreover have "(R \<union> {q. prefix (r @ [c]) q}) \<union> {q. \<exists>c\<in>set cs. prefix (r @ [c]) q} =
      R \<union> {q. \<exists>c'\<in>set (c # cs). prefix (r @ [c']) q}" by auto
  ultimately show ?case using h(1) join lstat_placed [OF pl gn] by simp
qed simp

lemma child_below:
  assumes "fs_ok f" and "fs_get f (s @ q) \<noteq> None" and "prefix r q" and "q \<noteq> r"
  shows "\<exists>c. fs_get f (s @ r @ [c]) \<noteq> None \<and> prefix (r @ [c]) q"
proof -
  obtain v where "q = r @ v" using assms(3) by (auto simp: prefix_def)
  then obtain c u where u: "q = r @ c # u" using assms(4) by (cases v) auto
  have "fs_get f (s @ r @ [c]) \<noteq> None"
    using ok_none_below [OF assms(1), of "s @ r @ [c]" "s @ q"] assms(2) unfolding u by fastforce
  then show ?thesis using u by auto
qed

lemma leaf_alone:
  assumes "fs_ok f" and "fs_get f (s @ q) \<noteq> None" and "prefix r q" and "fs_get f (s @ r) = Some n" and "\<not> is_dir n"
  shows "q = r"
proof (rule ccontr)
  assume "q \<noteq> r"
  then have "strict_prefix (s @ r) (s @ q)" using assms(3) by (auto simp: strict_prefix_def)
  moreover have "placed f (s @ q)" using assms(1,2) ok_placed by auto
  ultimately obtain m where "fs_get f (s @ r) = Some (Dir m)" unfolding placed_def by blast
  then show False using assms(4,5) by (simp add: is_dir_def)
qed

lemma copy_node:
  assumes "apart f s d" and "plain_comps s" and "copies_files disk cp" and "\<And>q. disk q = None"
  shows "copied f s d e R g \<Longrightarrow> fs_get f (s @ r) = Some n \<Longrightarrow> (\<And>q. strict_prefix q r \<Longrightarrow> q \<in> R) \<Longrightarrow>
    (\<And>q. prefix r q \<Longrightarrow> q \<notin> R) \<Longrightarrow> (\<And>q. fs_get f (s @ r @ q) \<noteq> None \<Longrightarrow> length q < k) \<Longrightarrow> (r = [] \<Longrightarrow> n = e) \<Longrightarrow>
    \<exists>h. walk_node k (copy_entry cp (abs_path s) (abs_path d)) g (abs_path (s @ r)) n = Some (h, None) \<and>
      copied f s d e (R \<union> {q. prefix r q}) h"
proof (induction k arbitrary: g r n R)
  case 0
  then show ?case using 0(5) [of "[]"] by simp
next
  case (Suc k)
  let ?fn = "copy_entry cp (abs_path s) (abs_path d)"
  have d: "plain_comps d" "d \<noteq> []" using assms(1) placed_plain by (auto simp: apart_def)
  have pl: "placed g (s @ r)" by (rule copied_placed_source [OF assms(1) Suc.prems(1,2)])
  have gn: "fs_get g (s @ r) = Some n" using copied_source [OF assms(1) Suc.prems(1)] Suc.prems(2) by simp
  have "fs_get g (d @ r) = None" using Suc.prems(1,4) by (simp add: copied_def)
  then have fn: "?fn g (abs_path (s @ r)) (Some n) None = (fs_set g (d @ r) n, None)"
    using copy_entry_placed [OF assms(3,2) d(1) gn pl copied_placed_target [OF assms(1) Suc.prems(1,2,3)]] assms(4) by simp
  have src: "fs_get f s \<noteq> None" using ok_none_below [of f s "s @ r"] assms(1) Suc.prems(2) by (auto simp: apart_def)
  have c1: "copied f s d e (insert r R) (fs_set g (d @ r) n)" by (rule copied_set [OF Suc.prems(1,2) d(2) Suc.prems(6)])
  show ?case
  proof (cases "is_dir n")
    case True
    then obtain m where m: "n = Dir m" by (auto simp: is_dir_def split: fnode.splits)
    have gd: "distinct (map fst (fs_nodes g))" using Suc.prems(1) by (simp add: copied_def)
    obtain names where names: "read_dir g (abs_path (s @ r)) = Inr names" "distinct names"
      "set names = {c. fs_get g ((s @ r) @ [c]) \<noteq> None}" by (rule read_dir_placed [OF pl gn [unfolded m] gd])
    have nset: "set names = {c. fs_get f (s @ r @ [c]) \<noteq> None}"
      using names(3) copied_source [OF assms(1) Suc.prems(1), of "r @ [_]"] by simp
    have "\<exists>h. walk_names k ?fn (fs_set g (d @ r) n) (abs_path (s @ r)) names = Some (h, None) \<and>
        copied f s d e (insert r R \<union> {q. \<exists>c\<in>set names. prefix (r @ [c]) q}) h"
    proof (rule copy_names [OF _ assms(1,2) c1 names(2)])
      show "\<exists>h. walk_node k ?fn g (abs_path (s @ r)) n = Some (h, None) \<and> copied f s d e (R \<union> {q. prefix r q}) h"
        if "copied f s d e R g" "fs_get f (s @ r) = Some n" "\<And>q. strict_prefix q r \<Longrightarrow> q \<in> R" "\<And>q. prefix r q \<Longrightarrow> q \<notin> R"
          "\<And>q. fs_get f (s @ r @ q) \<noteq> None \<Longrightarrow> length q < k" "r \<noteq> []" for g r n R
        using Suc.IH that by blast
      show "q \<notin> insert r R" if "c \<in> set names" "prefix (r @ [c]) q" for c q
      proof -
        have "prefix r q" using that(2) by (rule append_prefixD)
        then show ?thesis using Suc.prems(4) that by auto
      qed
    qed (use nset Suc.prems(3,5) in \<open>auto simp: strict_prefix_def\<close>)
    then obtain h where h: "walk_names k ?fn (fs_set g (d @ r) n) (abs_path (s @ r)) names = Some (h, None)"
      "copied f s d e (insert r R \<union> {q. \<exists>c\<in>set names. prefix (r @ [c]) q}) h" by blast
    have "copied f s d e (R \<union> {q. prefix r q}) h"
    proof (rule copied_cong [OF h(2) _ src])
      fix q assume q: "fs_get f (s @ q) \<noteq> None"
      have "q = r \<or> (\<exists>c\<in>set names. prefix (r @ [c]) q)" if "prefix r q"
        using child_below [OF _ q that] assms(1) by (auto simp: nset apart_def)
      then show "q \<in> insert r R \<union> {q. \<exists>c\<in>set names. prefix (r @ [c]) q} \<longleftrightarrow> q \<in> R \<union> {q. prefix r q}"
        by (auto dest: append_prefixD)
    qed
    then show ?thesis using h(1) True names(1) fn by simp
  next
    case False
    have "copied f s d e (R \<union> {q. prefix r q}) (fs_set g (d @ r) n)"
    proof (rule copied_cong [OF c1 _ src])
      fix q assume q: "fs_get f (s @ q) \<noteq> None"
      have "q = r" if "prefix r q"
        using leaf_alone [OF _ q that Suc.prems(2) False] assms(1) by (simp add: apart_def)
      then show "q \<in> insert r R \<longleftrightarrow> q \<in> R \<union> {q. prefix r q}" by auto
    qed
    then show ?thesis using False fn by simp
  qed
qed

text \<open>The length of the longest path bounds the depth of a walk.\<close>

definition fs_depth :: "fs \<Rightarrow> nat" where
  "fs_depth f = foldr (\<lambda>(p, _). max (length p)) (fs_nodes f) 0"

lemma fs_depth_bound: "fs_get f p \<noteq> None \<Longrightarrow> length p \<le> fs_depth f"
proof -
  have "(p, n) \<in> set ns \<Longrightarrow> length p \<le> foldr (\<lambda>(p, _). max (length p)) ns 0" for n and ns :: "(fpath \<times> fnode) list"
    by (induction ns) auto
  then show "fs_get f p \<noteq> None \<Longrightarrow> length p \<le> fs_depth f"
    by (auto simp: fs_get_def fs_depth_def split: if_splits dest: map_of_SomeD)
qed

lemma copy_tree:
  assumes "fs_ok f" and "fs_get f s = Some n" and "placed f d" and "fs_get f d = None" and "\<not> prefix s d"
    and "copies_files disk cp" and "\<And>q. disk q = None" and "fs_depth f < k"
  shows "\<exists>g. file_walk k (copy_entry cp (abs_path s) (abs_path d)) f (abs_path s) = Some (g, None) \<and>
    (\<forall>r. fs_get g (d @ r) = fs_get f (s @ r)) \<and> (\<forall>q. \<not> prefix d q \<longrightarrow> fs_get g q = fs_get f q)"
proof -
  have s: "placed f s" using ok_placed assms(1,2) by blast
  have none: "fs_get f (d @ r) = None" for r using ok_none_below [OF assms(1) _ assms(4), of "d @ r"] by simp
  have ap: "apart f s d"
    using assms(1-5) none by (auto simp: apart_def prefix_def fs_get_def)
  have c: "copied f s d n {} f" using assms(1,2) none by (auto simp: copied_def fs_ok_def is_dir_def)
  have "\<exists>h. walk_node k (copy_entry cp (abs_path s) (abs_path d)) f (abs_path (s @ [])) n = Some (h, None) \<and>
      copied f s d n ({} \<union> {q. prefix [] q}) h"
  proof (rule copy_node [OF ap placed_plain [OF s] assms(6,7) c])
    show "length q < k" if "fs_get f (s @ [] @ q) \<noteq> None" for q
      using fs_depth_bound [OF that] assms(8) by simp
  qed (use assms(2) in simp_all)
  then show ?thesis using lstat_placed [OF s assms(2)] assms(2) by (auto simp: file_walk_def copied_def)
qed

text \<open>What is left when everything below a directory has been copied into an existing one.\<close>

lemma copied_into:
  assumes "fs_ok f" and "fs_get f d = Some e" and "set names = {c. fs_get f (s @ [c]) \<noteq> None}"
    and "copied f s d e ({[]} \<union> {q. \<exists>c\<in>set names. prefix [c] q}) h"
  shows "r \<noteq> [] \<Longrightarrow> fs_get h (d @ r) = fs_get f (s @ r)" and "\<not> strict_prefix d q \<Longrightarrow> fs_get h q = fs_get f q"
proof -
  show "fs_get h (d @ r) = fs_get f (s @ r)" if r: "r \<noteq> []"
  proof (cases r)
    case (Cons c u)
    show ?thesis
    proof (cases "c \<in> set names")
      case False
      then have "fs_get f (s @ r) = None" using ok_none_below [OF assms(1), of "s @ [c]" "s @ r"] assms(3) Cons by simp
      then show ?thesis using assms(4) r by (simp add: copied_def)
    qed (use assms(4) Cons in \<open>auto simp: copied_def\<close>)
  qed (use r in simp)
  show "fs_get h q = fs_get f q" if "\<not> strict_prefix d q"
  proof (cases "q = d")
    case True
    then show ?thesis using assms(2,4) unfolding copied_def by (metis (mono_tags, lifting) Un_insert_left append_Nil2 insertI1)
  next
    case False
    then show ?thesis using assms(4) that by (auto simp: copied_def strict_prefix_def)
  qed
qed

text \<open>Into a directory that is there and empty.\<close>

lemma copy_tree_into:
  assumes "fs_ok f" and "fs_get f s = Some (Dir m)" and "fs_get f d = Some (Dir m')" and "\<And>c. fs_get f (d @ [c]) = None"
    and "\<not> prefix s d" and "\<not> prefix d s"
    and "copies_files disk cp" and "\<And>q. disk q = None" and "fs_depth f < k"
  shows "\<exists>g. file_walk k (copy_entry cp (abs_path s) (abs_path d)) f (abs_path s) = Some (g, None) \<and>
    (\<forall>r. r \<noteq> [] \<longrightarrow> fs_get g (d @ r) = fs_get f (s @ r)) \<and> (\<forall>q. \<not> strict_prefix d q \<longrightarrow> fs_get g q = fs_get f q) \<and>
    distinct (map fst (fs_nodes g))"
proof -
  let ?fn = "copy_entry cp (abs_path s) (abs_path d)"
  have pl: "placed f s" "placed f d" using ok_placed assms(1,2,3) by blast+
  have none: "fs_get f (d @ r) = None" if "r \<noteq> []" for r
    using that ok_none_below [OF assms(1) _ assms(4) [of "hd r"], of "d @ r"] by (cases r) auto
  have ap: "apart f s d"
    using assms(1,5,6) pl none by (auto simp: apart_def)
  have c: "copied f s d (Dir m') {[]} f"
    using assms(1,3) none by (auto simp: copied_def fs_ok_def is_dir_def)
  obtain k' where k: "k = Suc k'" using assms(9) by (cases k) auto
  obtain names where names: "read_dir f (abs_path s) = Inr names" "distinct names"
    "set names = {c. fs_get f (s @ [c]) \<noteq> None}"
    using assms(1) by (auto simp: fs_ok_def intro: read_dir_placed [OF pl(1) assms(2)])
  have "\<exists>h. walk_names k' ?fn f (abs_path (s @ [])) names = Some (h, None) \<and>
      copied f s d (Dir m') ({[]} \<union> {q. \<exists>c\<in>set names. prefix ([] @ [c]) q}) h"
  proof (rule copy_names [OF _ ap placed_plain [OF pl(1)] c names(2)])
    show "\<exists>h. walk_node k' ?fn g (abs_path (s @ r)) n = Some (h, None) \<and> copied f s d (Dir m') (R \<union> {q. prefix r q}) h"
      if "copied f s d (Dir m') R g" "fs_get f (s @ r) = Some n" "\<And>q. strict_prefix q r \<Longrightarrow> q \<in> R" "\<And>q. prefix r q \<Longrightarrow> q \<notin> R"
        "\<And>q. fs_get f (s @ r @ q) \<noteq> None \<Longrightarrow> length q < k'" "r \<noteq> []" for g r n R
      using copy_node [OF ap placed_plain [OF pl(1)] assms(7,8)] that by blast
    show "length q < Suc k'" if "fs_get f (s @ [] @ q) \<noteq> None" for q
      using fs_depth_bound [OF that] assms(9) k by simp
  qed (use names(3) in auto)
  then obtain h where h: "walk_names k' ?fn f (abs_path s) names = Some (h, None)"
    "copied f s d (Dir m') ({[]} \<union> {q. \<exists>c\<in>set names. prefix [c] q}) h" by auto
  note into = copied_into [OF assms(1,3) _ h(2)]
  have "fs_get h (d @ r) = fs_get f (s @ r)" if "r \<noteq> []" for r using into(1) [OF _ that] names(3) by simp
  moreover have "fs_get h q = fs_get f q" if "\<not> strict_prefix d q" for q using into(2) [OF _ that] names(3) by simp
  moreover have "?fn f (abs_path s) (Some (Dir m)) None = (f, None)"
    using rel_of [OF placed_plain [OF pl(1)], of "[]"] join_of [OF placed_plain [OF pl(2)], of "[]"]
      mkdir_all_existing [OF pl(2) assms(3)] by (simp add: copy_entry_def plain_comps_def)
  moreover have "distinct (map fst (fs_nodes h))" using h(2) by (simp add: copied_def)
  ultimately show ?thesis using lstat_placed [OF pl(1) assms(2)] names(1) h(1) k by (simp add: file_walk_def is_dir_def)
qed

lemma move_get:
  assumes "fs_ok f" and "fs_get f d = None" and "s \<noteq> []" and "\<not> prefix s d"
  shows "fs_get (fs_move f s d) x =
    (if prefix d x then fs_get f (s @ drop (length d) x) else if prefix s x then None else fs_get f x)"
proof -
  let ?mv = "\<lambda>(r, n :: fnode). (if prefix s r then d @ drop (length s) r else r, n)"
  have d: "d \<noteq> []" using assms(2) by (auto simp: fs_get_def)
  have list: "map_of (map ?mv ns) x =
      (if prefix d x then map_of ns (s @ drop (length d) x) else if prefix s x then None else map_of ns x)"
    if "\<forall>r\<in>fst ` set ns. \<not> prefix d r" for ns
    using that
  proof (induction ns)
    case (Cons a ns)
    obtain r n where a: "a = (r, n)" by fastforce
    have r: "\<not> prefix d r" using Cons.prems by (simp add: a)
    have IH: "map_of (map ?mv ns) x =
        (if prefix d x then map_of ns (s @ drop (length d) x) else if prefix s x then None else map_of ns x)"
      using Cons by simp
    show ?case
    proof (cases "prefix s r")
      case True
      then obtain u where "r = s @ u" by (auto simp: prefix_def)
      moreover have "d @ u = x \<longleftrightarrow> prefix d x \<and> drop (length d) x = u" by (auto simp: prefix_def)
      moreover have "r = x \<Longrightarrow> prefix s x" using True by simp
      ultimately show ?thesis using IH by (auto simp: a)
    next
      case False
      then have "s @ y \<noteq> r" for y by auto
      then show ?thesis using IH r False by (auto simp: a)
    qed
  qed auto
  have "\<forall>r\<in>fst ` set (fs_nodes f). \<not> prefix d r"
  proof (intro ballI notI)
    fix r assume r: "r \<in> fst ` set (fs_nodes f)" "prefix d r"
    then have "fs_get f r \<noteq> None" by (simp add: fs_get_def map_of_eq_None_iff del: not_None_eq)
    then show False using ok_none_below [OF assms(1) r(2) assms(2)] by simp
  qed
  then have "filter (\<lambda>(r, _). r \<noteq> d) (fs_nodes f) = fs_nodes f" by (auto intro!: filter_True)
  then show ?thesis using list [of "fs_nodes f"] \<open>\<forall>r\<in>_. _\<close> assms(3) d by (auto simp: fs_move_def fs_get_def)
qed

lemma rename_placed:
  assumes "fs_ok f" and "fs_get f s = Some n" and "s \<noteq> []" and "placed f d" and "fs_get f d = None" and "\<not> prefix s d"
  shows "fs_rename f cross (abs_path s) (abs_path d) =
    (if cross then (f, Some (errors_new ''invalid cross-device link'')) else (fs_move f s d, None))"
proof -
  have "placed f s" using ok_placed assms(1,2) by blast
  moreover have "d \<noteq> []" "s \<noteq> d" using assms(2,5) by (auto simp: fs_get_def)
  ultimately show ?thesis using assms by (simp add: fs_rename_def resolve_placed parent_ok_placed)
qed

lemma remove_all_placed:
  assumes "placed f p" and "p \<noteq> []"
  shows "fs_get (fst (fs_remove_all f (abs_path p))) q = (if prefix p q then None else fs_get f q)"
proof -
  have "map_of (filter (\<lambda>(q, _). \<not> prefix p q) ns) q = (if prefix p q then None else map_of ns q)"
    for ns :: "(fpath \<times> fnode) list" by (induction ns) auto
  moreover have "\<not> prefix p []" using assms(2) by simp
  ultimately show ?thesis using assms resolve_placed [OF assms(1), of False] by (auto simp: fs_remove_all_def fs_get_def)
qed

text \<open>Moving to a place that is free leaves a file system in order.\<close>

lemma fs_move_distinct:
  assumes "fs_ok f" and "fs_get f d = None"
  shows "distinct (map fst (fs_nodes (fs_move f s d)))"
proof -
  let ?mv = "\<lambda>r. if prefix s r then d @ drop (length s) r else r"
  have keys: "\<not> prefix d r" if "r \<in> fst ` set (fs_nodes f)" for r
  proof
    assume below: "prefix d r"
    have "fs_get f r \<noteq> None" using that by (simp add: fs_get_def map_of_eq_None_iff del: not_None_eq)
    then show False using ok_none_below [OF assms(1) below assms(2)] by simp
  qed
  have nodes: "map fst (fs_nodes (fs_move f s d)) = map ?mv (map fst (filter (\<lambda>(r, _). r \<noteq> d) (fs_nodes f)))"
    by (auto simp: fs_move_def)
  have "inj_on ?mv (fst ` set (fs_nodes f))"
  proof (rule inj_onI)
    fix a b assume k: "a \<in> fst ` set (fs_nodes f)" "b \<in> fst ` set (fs_nodes f)" "?mv a = ?mv b"
    then show "a = b" using keys [OF k(1)] keys [OF k(2)] by (auto simp: prefix_def split: if_splits)
  qed
  then have "inj_on ?mv (set (map fst (filter (\<lambda>(r, _). r \<noteq> d) (fs_nodes f))))" by (rule inj_on_subset) auto
  moreover have "distinct (map fst (filter (\<lambda>(r, _). r \<noteq> d) (fs_nodes f)))"
    using assms(1) by (auto simp: fs_ok_def intro: distinct_map_filter)
  ultimately show ?thesis unfolding nodes distinct_map by simp
qed

lemma fs_move_node_ok:
  assumes "fs_ok f" and "fs_get f d = None" and "placed f d" and "s \<noteq> []" and "\<not> prefix s d"
    and n: "fs_get (fs_move f s d) p = Some n" and p: "p \<noteq> []"
  shows "plain_comps p \<and> (\<exists>m. fs_get (fs_move f s d) (butlast p) = Some (Dir m))"
proof -
  note get = move_get [OF assms(1,2,4,5)]
  have up: "prefix x (butlast y) \<Longrightarrow> prefix x y" for x y :: fpath
    by (rule prefix_order.order_trans [OF _ prefixeq_butlast])
  have ok: "plain_comps q \<and> (\<exists>m. fs_get f (butlast q) = Some (Dir m))" if "fs_get f q = Some k" "q \<noteq> []" for q k
    using assms(1) that by (auto simp: fs_ok_def)
  show ?thesis
  proof (cases "prefix d p")
    case True
    then obtain r where r: "p = d @ r" by (auto simp: prefix_def)
    have "plain_comps r" "r \<noteq> [] \<Longrightarrow> \<exists>m. fs_get f (s @ butlast r) = Some (Dir m)"
      using ok [of "s @ r" n] n r get [of p] assms(4) by (auto simp: butlast_append)
    moreover have "r = [] \<Longrightarrow> \<exists>m. fs_get (fs_move f s d) (butlast d) = Some (Dir m)"
    proof -
      assume "r = []"
      then have d: "d \<noteq> []" using p r by simp
      then have "\<not> prefix d (butlast d)" using prefix_length_le [of d "butlast d"] by (cases d) auto
      moreover have "\<not> prefix s (butlast d)" using assms(5) up by blast
      ultimately show ?thesis using placed_parent [OF assms(3) d] get [of "butlast d"] by simp
    qed
    ultimately show ?thesis using r get [of "d @ butlast r"] placed_plain [OF assms(3)]
      by (cases "r = []") (auto simp: butlast_append)
  next
    case False
    then have "\<not> prefix s p" "fs_get f p = Some n" using n get [of p] by (auto split: if_splits)
    moreover have "\<not> prefix d (butlast p)" "\<not> prefix s (butlast p)"
      using False calculation(1) up by blast+
    ultimately show ?thesis using ok [OF _ p, of n] get [of "butlast p"] by simp
  qed
qed

lemma fs_move_ok:
  assumes "fs_ok f" and "fs_get f d = None" and "placed f d" and "s \<noteq> []" and "\<not> prefix s d"
  shows "fs_ok (fs_move f s d)"
  using fs_move_distinct [OF assms(1,2)] fs_move_node_ok [OF assms] by (auto simp: fs_ok_def)

section \<open>Properties\<close>

text \<open>
  C18. Copying a directory tree to a place where nothing is yet ends without an error and leaves
  there exactly what the source holds, modes, contents and symbolic links included; nothing else
  changes.
\<close>

theorem copy_dir_faithful:
  assumes "fs_ok f" and "fs_get f s = Some n" and "placed f d" and "fs_get f d = None" and "\<not> prefix s d"
    and "\<And>q. disk q = None" and "fs_depth f < k"
  shows "\<exists>g. copy_dir k disk f (abs_path s) (abs_path d) = Some (g, None) \<and>
    (\<forall>r. fs_get g (d @ r) = fs_get f (s @ r)) \<and> (\<forall>q. \<not> prefix d q \<longrightarrow> fs_get g q = fs_get f q)"
  unfolding copy_dir_def by (rule copy_tree [OF assms(1-5) copies_files_both(1) assms(6,7)])

definition demo_tree :: fs where
  "demo_tree = \<lparr>fs_nodes = [([''t''], Dir 493), ([''t'', ''a''], Dir 448), ([''t'', ''a'', ''f''], Regular 420 ''data''),
     ([''t'', ''l''], Link ''/etc/passwd''), ([''o''], Dir 493)], fs_cwd = []\<rparr>"

lemma demo_tree_ok: "fs_ok demo_tree" "placed demo_tree [''o'', ''d'']" "fs_get demo_tree [''o'', ''d''] = None"
  "fs_get demo_tree [''t''] = Some (Dir 493)" "fs_depth demo_tree < 4"
proof -
  have "plain_comps [''t'', ''a'', ''f'']" "plain_comps [''t'', ''l'']" "plain_comps [''o'', ''d'']" by code_simp+
  then show "fs_ok demo_tree"
    by (auto simp: fs_ok_def demo_tree_def fs_get_def plain_comps_def split: if_splits)
  have "plain_comps [''o'']" "plain_comps [''d'']" by code_simp+
  then show "placed demo_tree [''o'', ''d'']"
    using placed_snoc [of demo_tree "[''o'']" "''d''"] placed_snoc [of demo_tree "[]" "''o''"]
    by (simp add: demo_tree_def fs_get_def)
qed (simp_all add: demo_tree_def fs_get_def fs_depth_def)

theorem copy_dir_faithful_witness:
  "\<exists>g. copy_dir 4 (\<lambda>_. None) demo_tree (abs_path [''t'']) (abs_path [''o'', ''d'']) = Some (g, None) \<and>
    fs_get g [''o'', ''d'', ''l''] = Some (Link ''/etc/passwd'') \<and> fs_get g [''o'', ''d'', ''a'', ''f''] = Some (Regular 420 ''data'')"
proof -
  obtain g where g: "copy_dir 4 (\<lambda>_. None) demo_tree (abs_path [''t'']) (abs_path [''o'', ''d'']) = Some (g, None)"
    "\<forall>r. fs_get g ([''o'', ''d''] @ r) = fs_get demo_tree ([''t''] @ r)"
    using copy_dir_faithful [OF demo_tree_ok(1,4,2,3) _ _ demo_tree_ok(5), of "\<lambda>_. None"] by auto
  then show ?thesis using g(2) [rule_format, of "[''l'']"] g(2) [rule_format, of "[''a'', ''f'']"]
    by (simp add: demo_tree_def fs_get_def)
qed

end
