(* ===== verification/Layout.thy ===== *)
theory Layout
  imports Copy_Tree
begin

text \<open>
  What a list of directories and files is when it is laid out on a disk, one after the other, with
  \<^verbatim>\<open>os.MkdirAll\<close> and \<^verbatim>\<open>os.OpenFile\<close>: the specification that the extraction of an archive and the
  download of a bucket are measured against.  The layout is a map from paths to nodes and knows
  nothing of how paths are resolved, of how directories are made or of how files are opened.
\<close>

section \<open>Items\<close>

type_synonym layout = "fpath \<Rightarrow> fnode option"

datatype item = Dir_At fpath nat | File_At fpath nat string

text \<open>The directories on the way to \<open>q\<close> and \<open>q\<close> itself, made with the mode \<open>m\<close> where they are missing.\<close>

definition with_dirs :: "layout \<Rightarrow> fpath \<Rightarrow> nat \<Rightarrow> layout" where
  "with_dirs A q m = (\<lambda>p. if A p = None \<and> prefix p q then Some (Dir m) else A p)"

text \<open>A file that is already there is overwritten and keeps its mode.\<close>

definition mode_at :: "layout \<Rightarrow> fpath \<Rightarrow> nat \<Rightarrow> nat" where
  "mode_at A q m = (case A q of Some (Regular k _) \<Rightarrow> k | _ \<Rightarrow> m)"

fun lay :: "layout \<Rightarrow> item \<Rightarrow> layout" where
  "lay A (Dir_At q m) = with_dirs A q m"
| "lay A (File_At q m d) = (with_dirs A (butlast q) 493)(q \<mapsto> Regular (mode_at A q m) d)"

text \<open>
  An item has its place: nothing but directories on the way, and no directory or link where a file
  goes.
\<close>

definition free_way :: "layout \<Rightarrow> fpath \<Rightarrow> bool" where
  "free_way A q \<longleftrightarrow> (\<forall>p\<in>set (prefixes q). case A p of None \<Rightarrow> True | Some n \<Rightarrow> is_dir n)"

fun fits :: "layout \<Rightarrow> item \<Rightarrow> bool" where
  "fits A (Dir_At q m) = (plain_comps q \<and> free_way A q)"
| "fits A (File_At q m d) =
     (plain_comps q \<and> q \<noteq> [] \<and> free_way A (butlast q) \<and>
      (case A q of None \<Rightarrow> True | Some (Regular _ _) \<Rightarrow> True | _ \<Rightarrow> False))"

fun all_fit :: "layout \<Rightarrow> item list \<Rightarrow> bool" where
  "all_fit A [] = True"
| "all_fit A (x # xs) = (fits A x \<and> all_fit (lay A x) xs)"

section \<open>Directories\<close>

lemma free_wayD:
  assumes "free_way A q" and "prefix p q"
  shows "A p = None \<or> (\<exists>m. A p = Some (Dir m))"
proof -
  have "case A p of None \<Rightarrow> True | Some n \<Rightarrow> is_dir n" using assms by (simp add: free_way_def)
  then show ?thesis by (auto simp: is_dir_def split: option.splits fnode.splits)
qed

lemma free_way_prefix: "free_way A q \<Longrightarrow> prefix p q \<Longrightarrow> free_way A p"
  by (auto simp: free_way_def intro: prefix_order.order_trans)

lemma fs_ok_set:
  assumes "fs_ok f" and "placed f t" and "t \<noteq> []" and "\<And>m. fs_get f t = Some (Dir m) \<Longrightarrow> \<exists>k. n = Dir k"
  shows "fs_ok (fs_set f t n)"
proof -
  have "plain_comps p \<and> (\<exists>m. fs_get (fs_set f t n) (butlast p) = Some (Dir m))"
    if "fs_get (fs_set f t n) p = Some k" "p \<noteq> []" for p k
  proof (cases "p = t")
    case True
    obtain m where "fs_get f (butlast t) = Some (Dir m)" using placed_parent [OF assms(2,3)] by blast
    moreover have "butlast t \<noteq> t" using assms(3) by (cases t rule: rev_cases) auto
    ultimately show ?thesis using True placed_plain [OF assms(2)] by (auto simp: fs_get_set assms(3))
  next
    case False
    then have "fs_get f p = Some k" using that(1) by (simp add: fs_get_set assms(3))
    then have "plain_comps p" "\<exists>m. fs_get f (butlast p) = Some (Dir m)" using assms(1) that(2) by (auto simp: fs_ok_def)
    then show ?thesis using assms(4) by (auto simp: fs_get_set assms(3))
  qed
  moreover have "distinct (map fst (fs_nodes (fs_set f t n)))"
    using assms(1) distinct_map_put by (auto simp: fs_ok_def fs_set_def)
  ultimately show ?thesis by (auto simp: fs_ok_def)
qed

text \<open>A path without a parent does not resolve.\<close>

lemma stat_no_parent:
  assumes "fs_ok f" and "plain_comps (q @ [c])" and "free_way (fs_get f) q" and "fs_get f q = None"
  shows "\<exists>e. fs_stat f (abs_path (q @ [c])) = Inl e"
proof -
  have "link_free q f"
    using ok_none_below [OF assms(1) _ assms(4)] free_wayD [OF assms(3)] by (fastforce simp: links_only_def)
  then show ?thesis using resolve_needs_parent [OF assms(2) _ assms(4), of True] by (auto simp: fs_stat_def)
qed

lemma mkdir_all_from_deep:
  assumes "fs_ok f" and "plain_comps q" and "free_way (fs_get f) q" and "length q \<le> k"
  shows "\<exists>g. mkdir_all_from k f (abs_path q) m = (g, None) \<and> fs_ok g \<and> fs_get g = with_dirs (fs_get f) q m"
  using assms
proof (induction q arbitrary: k rule: rev_induct)
  case Nil
  then show ?case
    by (subst mkdir_all_from.simps) (auto simp: stat_placed [of f "[]" "Dir 493"] fs_get_def is_dir_def with_dirs_def intro!: exI [of _ f])
next
  case (snoc c q)
  let ?p = "q @ [c]"
  show ?case
  proof (cases "fs_get f ?p")
    case None
    obtain k' where k: "k = Suc k'" "length q \<le> k'" using snoc.prems(4) by (cases k) auto
    have q: "plain_comps q" "free_way (fs_get f) q" using snoc.prems(2,3) free_way_prefix by auto
    have e: "\<exists>e. fs_stat f (abs_path ?p) = Inl e"
    proof (cases "fs_get f q")
      case None
      then show ?thesis using stat_no_parent snoc.prems(1,2) q(2) by blast
    next
      case (Some n)
      then have "placed f ?p"
        using free_wayD [OF q(2), of q] ok_placed [OF snoc.prems(1)] snoc.prems(2) by (auto simp: placed_snoc)
      then show ?thesis using stat_placed_none None by blast
    qed
    obtain g where g: "mkdir_all_from k' f (abs_path q) m = (g, None)" "fs_ok g" "fs_get g = with_dirs (fs_get f) q m"
      using snoc.IH [OF snoc.prems(1) q k(2)] by blast
    have root: "with_dirs (fs_get f) [] m = fs_get f" by (auto simp: with_dirs_def fs_get_def)
    obtain g where g: "(if parent_string (abs_path ?p) = [] then (f, None) else mkdir_all_from k' f (parent_string (abs_path ?p)) m) = (g, None)"
      "fs_ok g" "fs_get g = with_dirs (fs_get f) q m"
      using snoc.IH [OF snoc.prems(1) q k(2)] parent_string_abs [OF snoc.prems(2)] snoc.prems(1) root
      by (cases "q = []") (auto simp: abs_path_not_Nil)
    have "\<exists>n. fs_get g q = Some (Dir n)" using free_wayD [OF q(2), of q] g(3) by (auto simp: with_dirs_def)
    then have "placed g ?p" using ok_placed [OF g(2)] snoc.prems(2) by (auto simp: placed_snoc)
    moreover have "fs_get g ?p = None" using g(3) None by (simp add: with_dirs_def)
    ultimately have "fs_mkdir g (abs_path ?p) m = (fs_set g ?p (Dir m), None)" "fs_ok (fs_set g ?p (Dir m))"
      using mkdir_placed fs_ok_set [OF g(2)] by simp_all
    moreover have "fs_get (fs_set g ?p (Dir m)) = with_dirs (fs_get f) ?p m"
      using g(3) None by (auto simp: fs_get_set with_dirs_def prefix_snoc)
    ultimately show ?thesis
      using e g(1) by (subst mkdir_all_from.simps) (auto simp: k(1) simp del: mkdir_all_from.simps)
  next
    case (Some n)
    then obtain m' where m': "fs_get f ?p = Some (Dir m')" using free_wayD [OF snoc.prems(3), of ?p] by auto
    have p: "placed f ?p" by (rule ok_placed [OF snoc.prems(1) Some])
    have "with_dirs (fs_get f) ?p m = fs_get f"
      using p m' by (fastforce simp: with_dirs_def placed_def strict_prefix_def)
    moreover have "mkdir_all_from k f (abs_path ?p) m = (f, None)"
      by (subst mkdir_all_from.simps) (simp add: stat_placed [OF p m'] is_dir_def)
    ultimately show ?thesis using snoc.prems(1) by auto
  qed
qed

lemma length_abs_path: "length q \<le> length (abs_path q)"
  by (induction q rule: rev_induct) (auto simp: abs_path_snoc split: if_splits)

lemma mkdir_all_deep:
  assumes "fs_ok f" and "plain_comps q" and "free_way (fs_get f) q"
  obtains g where "mkdir_all f (abs_path q) m = (g, None)" and "fs_ok g" and "fs_get g = with_dirs (fs_get f) q m"
  using mkdir_all_from_deep [OF assms length_abs_path [of q]] unfolding mkdir_all_def by blast

section \<open>Files\<close>

lemma open_create_at:
  assumes "fs_ok f" and "placed f q" and "q \<noteq> []" and "case fs_get f q of None \<Rightarrow> True | Some (Regular _ _) \<Rightarrow> True | _ \<Rightarrow> False"
  shows "open_create f (abs_path q) m = (fs_set f q (Regular (mode_at (fs_get f) q m) []), Inr q)"
proof -
  have "fs_get f q \<noteq> Some (Link t)" for t using assms(4) by auto
  then have "resolve f True (abs_path q) = Inr q" by (rule resolve_placed [OF assms(2)])
  then show ?thesis
    using assms(4) parent_ok_placed [OF assms(2,3)]
    by (auto simp: open_create_def mode_at_def split: option.splits fnode.splits)
qed

text \<open>A file with the directories above it: what is done with the open file decides its content.\<close>

lemma file_deep:
  assumes "fs_ok f" and "fits (fs_get f) (File_At q m d)"
  obtains g where "mkdir_all f (path_dir (abs_path q)) 493 = (g, None)"
    and "open_create g (abs_path q) m = (fs_set g q (Regular (mode_at (fs_get f) q m) []), Inr q)"
    and "fs_ok (fs_set g q (Regular (mode_at (fs_get f) q m) d))"
    and "fs_get (fs_set g q (Regular (mode_at (fs_get f) q m) d)) = lay (fs_get f) (File_At q m d)"
proof -
  have q: "plain_comps q" "q \<noteq> []" "free_way (fs_get f) (butlast q)"
    and at: "case fs_get f q of None \<Rightarrow> True | Some (Regular _ _) \<Rightarrow> True | _ \<Rightarrow> False" using assms(2) by auto
  have up: "plain_comps (butlast q)" "path_dir (abs_path q) = abs_path (butlast q)"
    using q(1) path_dir_abs by (auto simp: plain_comps_def dest: in_set_butlastD)
  obtain g where g: "mkdir_all f (abs_path (butlast q)) 493 = (g, None)" "fs_ok g" "fs_get g = with_dirs (fs_get f) (butlast q) 493"
    using mkdir_all_deep [OF assms(1) up(1) q(3)] .
  have "\<exists>k. fs_get g (butlast q) = Some (Dir k)" using free_wayD [OF q(3), of "butlast q"] g(3) by (auto simp: with_dirs_def)
  then have p: "placed g q"
    using ok_placed [OF g(2)] placed_snoc [of g "butlast q" "last q"] q(1,2) plain_comps_append [of "butlast q" "[last q]"] by auto
  have not_up: "\<not> prefix q (butlast q)" using q(2) prefix_length_le [of q "butlast q"] by (cases q rule: rev_cases) auto
  then have same: "fs_get g q = fs_get f q" using g(3) by (simp add: with_dirs_def)
  have "open_create g (abs_path q) m = (fs_set g q (Regular (mode_at (fs_get g) q m) []), Inr q)"
    by (rule open_create_at [OF g(2) p q(2)]) (simp add: same at)
  then have "open_create g (abs_path q) m = (fs_set g q (Regular (mode_at (fs_get f) q m) []), Inr q)"
    by (simp add: mode_at_def same)
  moreover have "fs_ok (fs_set g q (Regular (mode_at (fs_get f) q m) d))"
    by (rule fs_ok_set [OF g(2) p q(2)]) (use same at in auto)
  moreover have "fs_get (fs_set g q (Regular (mode_at (fs_get f) q m) d)) = lay (fs_get f) (File_At q m d)"
    using g(3) q(2) by (auto simp: fs_get_set)
  ultimately show thesis using that g(1) up(2) by simp
qed

end
