(* ===== verification/Protocols.thy ===== *)
theory Protocols
  imports Settings_Net Git_Refs
begin

text \<open>
  The interface the protocols implement (\<^verbatim>\<open>protocols/protocol.go\<close>).  Detecting a URL yields the
  \<^verbatim>\<open>Download\<close> of what was detected: from the settings and the temporary directory to the new state
  and whether a single file was downloaded; no result means it does not return.
\<close>

type_synonym 'n fetcher = "transport settings \<Rightarrow> string \<Rightarrow> 'n sys \<Rightarrow> ('n sys \<times> bool result) option"

text \<open>\<open>pr_forced\<close> is there for the protocols that implement \<^verbatim>\<open>ForcedDetector\<close>.\<close>

record 'n protocol =
  pr_prefix :: string
  pr_priority :: int
  pr_detect :: "'n sys \<Rightarrow> string \<Rightarrow> 'n fetcher option"
  pr_forced :: "('n sys \<Rightarrow> string \<Rightarrow> 'n fetcher option) option"

text \<open>A download that always returns.\<close>

definition returning :: "(transport settings \<Rightarrow> string \<Rightarrow> 'n sys \<Rightarrow> 'n sys \<times> bool result) \<Rightarrow> 'n fetcher" where
  "returning f s tmp w = Some (f s tmp w)"

text \<open>An error ends a download with \<^verbatim>\<open>false\<close>.\<close>

definition failed :: "'n sys \<times> goerr option \<Rightarrow> bool \<Rightarrow> 'n sys \<times> bool result" where
  "failed r ok = (case r of (w, Some e) \<Rightarrow> (w, Inl e) | (w, None) \<Rightarrow> (w, Inr ok))"

lemma failed_simps [simp]: "failed (w, None) ok = (w, Inr ok)" "failed (w, Some e) ok = (w, Inl e)"
  by (simp_all add: failed_def)

end
