(* ===== verification/Netrc.thy ===== *)
theory Netrc
  imports Go_Paths
begin

text \<open>
  \<^verbatim>\<open>internal/netrc\<close>: the netrc file as the source of HTTP credentials.

  The code keeps three \<^verbatim>\<open>*Machine\<close> pointers, \<^verbatim>\<open>current\<close>, \<^verbatim>\<open>fallback\<close> and \<^verbatim>\<open>match\<close>, which alias:
  a login read after \<^verbatim>\<open>match\<close> was set still changes the matched entry while it is current.  The
  model keeps the allocated machines in a list, the pointers being indices into it.
\<close>

section \<open>The parser\<close>

record machine =
  m_name :: string
  m_login :: string
  m_password :: string

definition new_machine :: "string \<Rightarrow> machine" where
  "new_machine name = \<lparr>m_name = name, m_login = [], m_password = []\<rparr>"

text \<open>The fields of a line up to \<^verbatim>\<open>macdef\<close>, and whether there was one.\<close>

fun line_tokens :: "string list \<Rightarrow> string list \<times> bool" where
  "line_tokens [] = ([], False)"
| "line_tokens (f # fs) =
     (if f = ''macdef'' then ([], True)
      else let (ts, m) = line_tokens fs in (f # ts, m))"

fun netrc_tokens :: "bool \<Rightarrow> string list \<Rightarrow> string list" where
  "netrc_tokens in_macdef [] = []"
| "netrc_tokens in_macdef (l # ls) =
     (if in_macdef then netrc_tokens (trim_space l \<noteq> []) ls
      else let (ts, m) = line_tokens (Go_Strings.fields l) in ts @ netrc_tokens m ls)"

record netrc_state =
  machines :: "machine list"
  current :: "nat option"
  fallback :: "nat option"
  matched :: "nat option"

definition update_current :: "(machine \<Rightarrow> machine) \<Rightarrow> netrc_state \<Rightarrow> netrc_state" where
  "update_current f st =
     (case current st of
        None \<Rightarrow> st
      | Some i \<Rightarrow> st\<lparr>machines := (machines st)[i := f (machines st ! i)]\<rparr>)"

definition start_machine :: "string \<Rightarrow> string \<Rightarrow> netrc_state \<Rightarrow> netrc_state" where
  "start_machine host name st =
     (let i = length (machines st)
      in st\<lparr>machines := machines st @ [new_machine name], current := Some i,
            matched := (if matched st = None \<and> name = host then Some i else matched st)\<rparr>)"

definition start_default :: "netrc_state \<Rightarrow> netrc_state" where
  "start_default st =
     (let i = length (machines st)
      in st\<lparr>machines := machines st @ [new_machine []], current := Some i,
            fallback := (if fallback st = None then Some i else fallback st)\<rparr>)"

text \<open>
  The loop over the tokens.  A keyword at the very end has no value: \<^verbatim>\<open>i\<close> is past the end and
  the loop stops.
\<close>

fun netrc_loop :: "string \<Rightarrow> string list \<Rightarrow> netrc_state \<Rightarrow> netrc_state" where
  "netrc_loop host [] st = st"
| "netrc_loop host [t] st = (if t = ''default'' then start_default st else st)"
| "netrc_loop host (t # v # ts) st =
     (if t = ''machine'' then netrc_loop host ts (start_machine host v st)
      else if t = ''default'' then netrc_loop host (v # ts) (start_default st)
      else if t = ''login'' then netrc_loop host ts (update_current (m_login_update (\<lambda>_. v)) st)
      else if t = ''password'' then netrc_loop host ts (update_current (m_password_update (\<lambda>_. v)) st)
      else if t = ''account'' then netrc_loop host ts st
      else netrc_loop host (v # ts) st)"

definition deref :: "netrc_state \<Rightarrow> nat option \<Rightarrow> machine option" where
  "deref st p = map_option (\<lambda>i. machines st ! i) p"

definition netrc_parse :: "string \<Rightarrow> string \<Rightarrow> machine option" where
  "netrc_parse data host =
     (let st = netrc_loop host (netrc_tokens False (split_chr CHR 0x0A data))
                 \<lparr>machines = [], current = None, fallback = None, matched = None\<rparr>
      in if matched st \<noteq> None then deref st (matched st) else deref st (fallback st))"

section \<open>Finding the file\<close>

text \<open>
  \<open>env\<close> is \<^verbatim>\<open>os.Getenv\<close> (empty when unset), \<open>home\<close> the result of \<^verbatim>\<open>os.UserHomeDir\<close>, and
  \<open>windows\<close> whether \<^verbatim>\<open>runtime.GOOS\<close> is Windows.
\<close>

definition default_path :: "(string \<Rightarrow> string) \<Rightarrow> string result \<Rightarrow> bool \<Rightarrow> string" where
  "default_path env home windows =
     (if env ''NETRC'' \<noteq> [] then env ''NETRC''
      else case home of
        Inl _ \<Rightarrow> []
      | Inr h \<Rightarrow> if h = [] then [] else path_join [h, if windows then ''_netrc'' else ''.netrc''])"

text \<open>\<open>stat\<close> says whether the path is a directory, \<open>read_all\<close> opens and reads the file.\<close>

definition lookup_file ::
    "(string \<Rightarrow> bool result) \<Rightarrow> (string \<Rightarrow> string result) \<Rightarrow> string \<Rightarrow> string \<Rightarrow> machine option result" where
  "lookup_file stat read_all path host =
     (case stat path of
        Inl err \<Rightarrow> if errors_is err ErrNotExist then Inr None else Inl err
      | Inr dir \<Rightarrow>
          if dir then Inr None
          else case read_all path of
            Inl err \<Rightarrow> Inl err
          | Inr data \<Rightarrow> Inr (netrc_parse data host))"

definition netrc_lookup ::
    "(string \<Rightarrow> bool result) \<Rightarrow> (string \<Rightarrow> string result) \<Rightarrow> string \<Rightarrow> string \<Rightarrow> machine option result" where
  "netrc_lookup stat read_all path host =
     (if path = [] then Inr None else lookup_file stat read_all path host)"

section \<open>Reference parser\<close>

text \<open>
  The entries of a netrc file, in order, each complete: an entry ends where the next
  \<^verbatim>\<open>machine\<close> or \<^verbatim>\<open>default\<close> begins.  A \<^verbatim>\<open>default\<close> entry has the empty name.
\<close>

fun netrc_entries :: "machine option \<Rightarrow> string list \<Rightarrow> machine list" where
  "netrc_entries cur [] = (case cur of None \<Rightarrow> [] | Some m \<Rightarrow> [m])"
| "netrc_entries cur (t # ts) =
     (let prev = (case cur of None \<Rightarrow> [] | Some m \<Rightarrow> [m])
      in if t = ''default'' then prev @ netrc_entries (Some (new_machine [])) ts
         else if t \<in> {''machine'', ''login'', ''password'', ''account''} then
           (case ts of
              [] \<Rightarrow> prev
            | v # ts' \<Rightarrow>
                if t = ''machine'' then prev @ netrc_entries (Some (new_machine v)) ts'
                else netrc_entries (map_option
                  (if t = ''login'' then m_login_update (\<lambda>_. v)
                   else if t = ''password'' then m_password_update (\<lambda>_. v) else id) cur) ts')
         else netrc_entries cur ts)"

definition netrc_spec :: "string \<Rightarrow> string \<Rightarrow> machine option" where
  "netrc_spec data host =
     (let es = netrc_entries None (netrc_tokens False (split_chr CHR 0x0A data))
      in case List.find (\<lambda>m. m_name m = host \<and> m_name m \<noteq> []) es of
           Some m \<Rightarrow> Some m
         | None \<Rightarrow> List.find (\<lambda>m. m_name m = []) es)"

section \<open>The pointers find the first entries\<close>

definition find_index :: "('a \<Rightarrow> bool) \<Rightarrow> 'a list \<Rightarrow> nat option" where
  "find_index P xs = List.find (\<lambda>i. P (xs ! i)) [0..<length xs]"

lemma find_index_snoc:
  "find_index P (xs @ [x]) =
     (case find_index P xs of Some i \<Rightarrow> Some i | None \<Rightarrow> if P x then Some (length xs) else None)"
proof -
  have "List.find Q (as @ bs) = (case List.find Q as of Some i \<Rightarrow> Some i | None \<Rightarrow> List.find Q bs)"
    for Q and as bs :: "nat list" by (induction as) auto
  moreover have "List.find (\<lambda>i. P ((xs @ [x]) ! i)) [0..<length xs] = List.find (\<lambda>i. P (xs ! i)) [0..<length xs]"
    by (rule find_cong) (auto simp: nth_append)
  ultimately show ?thesis by (simp add: find_index_def split: option.splits)
qed

lemma find_index_find: "map_option (\<lambda>i. xs ! i) (find_index P xs) = List.find P xs"
proof (induction xs rule: rev_induct)
  case (snoc x xs)
  have b: "find_index P xs = Some i \<Longrightarrow> i < length xs" for i
    using find_SomeD [of "\<lambda>i. P (xs ! i)" "[0..<length xs]" i] by (simp add: find_index_def)
  have "List.find P (xs @ [x]) = (case List.find P xs of Some y \<Rightarrow> Some y | None \<Rightarrow> if P x then Some x else None)"
    by (induction xs) auto
  with snoc.IH [symmetric] b show ?case
    by (cases "find_index P xs") (auto simp: find_index_snoc nth_append)
qed (simp add: find_index_def)

lemma find_index_same:
  "length xs = length ys \<Longrightarrow> (\<And>i. i < length xs \<Longrightarrow> P (xs ! i) = P (ys ! i)) \<Longrightarrow>
   find_index P xs = find_index P ys"
  unfolding find_index_def by (rule find_cong) auto

definition netrc_inv :: "string \<Rightarrow> netrc_state \<Rightarrow> bool" where
  "netrc_inv host st \<longleftrightarrow>
     current st = (if machines st = [] then None else Some (length (machines st) - 1)) \<and>
     fallback st = find_index (\<lambda>m. m_name m = []) (machines st) \<and>
     matched st = find_index (\<lambda>m. m_name m = host \<and> m_name m \<noteq> []) (machines st)"

definition last_machine :: "netrc_state \<Rightarrow> machine option" where
  "last_machine st = (if machines st = [] then None else Some (last (machines st)))"

lemma start_machine_inv:
  "netrc_inv host st \<Longrightarrow> v \<noteq> [] \<Longrightarrow> netrc_inv host (start_machine host v st)"
  by (auto simp: netrc_inv_def start_machine_def find_index_snoc new_machine_def Let_def split: option.splits)

lemma start_default_inv: "netrc_inv host st \<Longrightarrow> netrc_inv host (start_default st)"
  by (auto simp: netrc_inv_def start_default_def find_index_snoc new_machine_def Let_def split: option.splits)

lemma update_current_machines:
  "netrc_inv host st \<Longrightarrow> machines (update_current f st) =
     (if machines st = [] then [] else butlast (machines st) @ [f (last (machines st))])"
  by (cases "machines st" rule: rev_cases) (auto simp: netrc_inv_def update_current_def)

lemma update_current_inv:
  assumes "netrc_inv host st" and "\<And>m. m_name (f m) = m_name m"
  shows "netrc_inv host (update_current f st)"
proof -
  let ?ms = "machines (update_current f st)"
  have l: "length ?ms = length (machines st)" by (simp add: update_current_def split: option.splits)
  have n: "i < length ?ms \<Longrightarrow> m_name (?ms ! i) = m_name (machines st ! i)" for i
    using assms(2) by (cases "current st"; cases "i = the (current st)") (auto simp: update_current_def)
  have "find_index (\<lambda>m. P (m_name m)) ?ms = find_index (\<lambda>m. P (m_name m)) (machines st)" for P
    by (rule find_index_same) (simp_all add: l n)
  from this [of "\<lambda>n. n = []"] this [of "\<lambda>n. n = host \<and> n \<noteq> []"] show ?thesis
    using assms(1) l by (auto simp: netrc_inv_def update_current_def split: option.splits)
qed

lemma butlast_last_machine:
  "butlast (machines st) @ (case last_machine st of None \<Rightarrow> [] | Some m \<Rightarrow> [m]) = machines st"
  by (simp add: last_machine_def)

lemma started [simp]:
  "butlast (machines (start_machine host v st)) = machines st"
  "butlast (machines (start_default st)) = machines st"
  "last_machine (start_machine host v st) = Some (new_machine v)"
  "last_machine (start_default st) = Some (new_machine [])"
  by (simp_all add: start_machine_def start_default_def last_machine_def Let_def)

lemma updated:
  assumes "netrc_inv host st"
  shows "butlast (machines (update_current f st)) = butlast (machines st)"
    and "last_machine (update_current f st) = map_option f (last_machine st)"
  by (simp_all add: last_machine_def update_current_machines [OF assms])

lemma netrc_loop_entries:
  "netrc_inv host st \<Longrightarrow> [] \<notin> set ts \<Longrightarrow>
   netrc_inv host (netrc_loop host ts st) \<and>
   machines (netrc_loop host ts st) = butlast (machines st) @ netrc_entries (last_machine st) ts"
proof (induction host ts st rule: netrc_loop.induct)
  case (1 host st)
  then show ?case by (simp add: butlast_last_machine)
next
  case (2 host t st)
  have "machines (start_default st) = machines st @ [new_machine []]"
    by (simp add: start_default_def Let_def)
  with 2 show ?case
    using butlast_last_machine [of st] by (simp add: start_default_inv Let_def)
next
  case (3 host t v ts st)
  note inv = 3(7) and IH = 3(1-6)
  have v: "v \<noteq> []" "[] \<notin> set ts" "[] \<notin> set (v # ts)" using 3(8) by auto
  have flush: "butlast (machines st) @ (case last_machine st of None \<Rightarrow> [] | Some m \<Rightarrow> [m]) @ xs = machines st @ xs" for xs
    using butlast_last_machine [of st] by (metis append_assoc)
  consider "t = ''machine''" | "t = ''default''" | "t = ''login''" | "t = ''password''" | "t = ''account''"
    | "t \<notin> {''machine'', ''default'', ''login'', ''password'', ''account''}" by auto
  then show ?case
  proof cases
    case 1
    then show ?thesis using IH(1) [OF _ start_machine_inv [OF inv v(1)] v(2)] by (simp add: flush Let_def)
  next
    case 2
    then show ?thesis using IH(2) [OF _ _ start_default_inv [OF inv] v(3)] by (simp add: flush Let_def)
  next
    case 3
    then show ?thesis using IH(3) [OF _ _ _ update_current_inv [OF inv] v(2)]
      by (simp add: updated [OF inv] Let_def)
  next
    case 4
    then show ?thesis using IH(4) [OF _ _ _ _ update_current_inv [OF inv] v(2)]
      by (simp add: updated [OF inv] Let_def)
  next
    case 5
    then show ?thesis using IH(5) [OF _ _ _ _ _ inv v(2)] by (simp add: Let_def option.map_id0)
  next
    case 6
    then show ?thesis using IH(6) [OF _ _ _ _ _ inv v(3)] by (simp add: Let_def)
  qed
qed

lemma fields_not_Nil: "[] \<notin> set (Go_Strings.fields l)"
  by (induction is_space l rule: fields_func.induct) auto

lemma line_tokens_subset: "set (fst (line_tokens fs)) \<subseteq> set fs"
  by (induction fs) (auto split: prod.splits)

lemma netrc_tokens_not_Nil: "[] \<notin> set (netrc_tokens m ls)"
proof (induction ls arbitrary: m)
  case (Cons l ls)
  then show ?case
    using line_tokens_subset [of "Go_Strings.fields l"] fields_not_Nil [of l]
    by (cases "line_tokens (Go_Strings.fields l)") auto
qed simp

section \<open>Properties\<close>

text \<open>
  C35. Looking a host up in a netrc file returns the first complete entry for that very machine
  name, else the first \<^verbatim>\<open>default\<close> entry: the aliased pointers of the loop compute the same as
  splitting the file into entries and searching them.
\<close>

theorem netrc_parse_correct: "netrc_parse data host = netrc_spec data host"
proof -
  let ?ts = "netrc_tokens False (split_chr CHR 0x0A data)"
  let ?s0 = "\<lparr>machines = [], current = None, fallback = None, matched = None\<rparr>"
  let ?st = "netrc_loop host ?ts ?s0"
  have "netrc_inv host ?s0" by (simp add: netrc_inv_def find_index_def)
  from netrc_loop_entries [OF this netrc_tokens_not_Nil]
  have inv: "netrc_inv host ?st" and ms: "machines ?st = netrc_entries None ?ts"
    by (simp_all add: last_machine_def)
  let ?P = "\<lambda>m. m_name m = host \<and> m_name m \<noteq> []"
  have f: "deref ?st (find_index P (machines ?st)) = List.find P (machines ?st)" for P
    by (simp add: deref_def find_index_find)
  have n: "find_index P xs = None \<longleftrightarrow> List.find P xs = None" for P and xs :: "machine list"
    unfolding find_index_find [symmetric] by simp
  have "netrc_parse data host =
      (if List.find ?P (machines ?st) \<noteq> None then List.find ?P (machines ?st)
       else List.find (\<lambda>m. m_name m = []) (machines ?st))"
    using inv unfolding netrc_inv_def by (simp only: netrc_parse_def Let_def f n)
  then show ?thesis unfolding netrc_spec_def Let_def ms by (simp split: option.splits)
qed

end
