(* ===== verification/Streams.thy ===== *)
theory Streams
  imports Copy_Tree Layout Extract Protocols Netrc
begin

text \<open>
  What the protocols share that write a stream to a file: \<^verbatim>\<open>os.Create\<close> followed by the bounded copy,
  with the directories above the file where it may need them, the loop over the pages of a listing,
  and the netrc file as it is read from the file system.
\<close>

section \<open>The netrc file\<close>

text \<open>\<open>path\<close> is what \<^verbatim>\<open>netrc.DefaultPath\<close> yields.\<close>

definition netrc_of :: "string \<Rightarrow> fs \<Rightarrow> string \<Rightarrow> machine option result" where
  "netrc_of path f host =
     netrc_lookup (\<lambda>p. bind_result (fs_stat f p) (\<lambda>n. Inr (is_dir n))) (fs_read f) path host"

section \<open>Saving a stream\<close>

definition save_stream ::
    "disk \<Rightarrow> (goerr \<Rightarrow> goerr) \<Rightarrow> (goerr \<Rightarrow> goerr) \<Rightarrow> fs \<Rightarrow> string \<Rightarrow> reader \<Rightarrow> int \<Rightarrow> fs \<times> goerr option" where
  "save_stream disk creating copying f dst r limit =
     (case open_create f dst 438 of
        (g, Inl e) \<Rightarrow> (g, Some (creating e))
      | (g, Inr p) \<Rightarrow>
          (case limit_copy (disk p) r limit of
             (data, e) \<Rightarrow> (fs_write g p data, map_option copying e)))"

definition save_object :: "disk \<Rightarrow> (goerr \<Rightarrow> goerr) \<Rightarrow> fs \<Rightarrow> string \<Rightarrow> reader \<Rightarrow> int \<Rightarrow> fs \<times> goerr option" where
  "save_object disk copying f dst r limit =
     (case mkdir_all f (path_dir dst) 493 of
        (g, Some e) \<Rightarrow> (g, Some e)
      | (g, None) \<Rightarrow> save_stream disk (\<lambda>e. e) copying g dst r limit)"

text \<open>A complete copy is the whole source, and fits.\<close>

lemma limit_copy_complete:
  assumes "limit_copy dst r limit = (data, None)" and "limit < max_int64"
  shows "data = rd_data r \<and> rd_end r = None \<and> (0 < limit \<longrightarrow> int (length data) \<le> limit)"
proof (cases "limit \<le> 0")
  case True
  then show ?thesis using assms(1) io_copy_None_err [of dst r] by (simp add: limit_copy_def)
next
  case False
  have w: "wrap64 (limit + 1) = limit + 1" using assms(2) False by (intro wrap64_id) (auto simp: max_int64_def)
  obtain wr e where c: "io_copy dst (limit_reader r (limit + 1)) = (wr, e)" by fastforce
  have e: "e = None" "data = wr" "int (length wr) \<le> limit"
    using assms(1) c w False by (auto simp: limit_copy_def split: if_splits)
  then have "wr = rd_data (limit_reader r (limit + 1)) \<and> rd_end (limit_reader r (limit + 1)) = None"
    using io_copy_None_err [of dst "limit_reader r (limit + 1)"] c by simp
  then have "limit_reader r (limit + 1) = r"
    using e False by (auto simp: limit_reader_def split: if_splits)
  then show ?thesis using c e io_copy_None_err [of dst r] by simp
qed

text \<open>A file that is not there yet is the only thing that changes; without an error it is the stream.\<close>

lemma save_stream_fresh:
  assumes "placed f p" and "p \<noteq> []" and "fs_get f p = None" and "save_stream disk c d f (abs_path p) r limit = (g, e)"
  shows "\<forall>q. q \<noteq> p \<longrightarrow> fs_get g q = fs_get f q"
    and "e = None \<Longrightarrow> limit < max_int64 \<Longrightarrow>
      fs_get g p = Some (Regular 438 (rd_data r)) \<and> rd_end r = None \<and> (0 < limit \<longrightarrow> int (length (rd_data r)) \<le> limit)"
proof -
  obtain data e' where l: "limit_copy (disk p) r limit = (data, e')" by fastforce
  have g: "g = fs_set f p (Regular 438 data)" "e = map_option d e'"
    using assms(4) l by (simp_all add: save_stream_def create_placed [OF assms(1,3,2)] write_created [OF assms(2)])
  show "\<forall>q. q \<noteq> p \<longrightarrow> fs_get g q = fs_get f q" using g assms(2) by (simp add: fs_get_set)
  show "fs_get g p = Some (Regular 438 (rd_data r)) \<and> rd_end r = None \<and> (0 < limit \<longrightarrow> int (length (rd_data r)) \<le> limit)"
    if "e = None" "limit < max_int64"
    using limit_copy_complete [of "disk p" r limit data] l that g assms(2) by (auto simp: fs_get_set)
qed

text \<open>Wherever the path leads: that file only, which keeps its mode if it was there.\<close>

definition saved_mode :: "fs \<Rightarrow> fpath \<Rightarrow> nat" where
  "saved_mode f p = (case fs_get f p of Some (Regular k _) \<Rightarrow> k | _ \<Rightarrow> 438)"

lemma save_stream_saves:
  assumes "save_stream disk c d f s r limit = (g, e)"
  shows "resolve f True s \<noteq> Inr q \<Longrightarrow> fs_get g q = fs_get f q"
    and "e = None \<Longrightarrow> limit < max_int64 \<Longrightarrow>
      \<exists>p. resolve f True s = Inr p \<and> fs_get g p = Some (Regular (saved_mode f p) (rd_data r)) \<and> rd_end r = None \<and>
        (0 < limit \<longrightarrow> int (length (rd_data r)) \<le> limit)"
proof -
  obtain h res where o: "open_create f s 438 = (h, res)" by fastforce
  have h: "\<exists>k. h = fs_set f p (Regular k []) \<and> k = saved_mode f p \<and> p \<noteq> [] \<and> resolve f True s = Inr p" if "res = Inr p" for p
    using o that parent_ok_not_root [of f p]
    by (auto simp: open_create_def saved_mode_def fs_get_def split: sum.splits option.splits fnode.splits if_splits)
  have err: "h = f" if "res = Inl x" for x
    using o that by (auto simp: open_create_def split: sum.splits option.splits fnode.splits if_splits)
  have run: "e \<noteq> None \<and> g = f \<or>
      (\<exists>p data e'. res = Inr p \<and> limit_copy (disk p) r limit = (data, e') \<and> e = map_option d e' \<and>
        g = fs_set f p (Regular (saved_mode f p) data))"
  proof (cases res)
    case (Inr p)
    then show ?thesis using assms o h [OF Inr] by (auto simp: save_stream_def write_created split: prod.splits)
  qed (use assms o err in \<open>auto simp: save_stream_def\<close>)
  show "fs_get g q = fs_get f q" if "resolve f True s \<noteq> Inr q"
    using run h that by (auto simp: fs_get_set)
  show "\<exists>p. resolve f True s = Inr p \<and> fs_get g p = Some (Regular (saved_mode f p) (rd_data r)) \<and> rd_end r = None \<and>
        (0 < limit \<longrightarrow> int (length (rd_data r)) \<le> limit)" if e: "e = None" and l: "limit < max_int64"
  proof -
    obtain p data where p: "res = Inr p" "limit_copy (disk p) r limit = (data, None)" "g = fs_set f p (Regular (saved_mode f p) data)"
      using run e by auto
    then show ?thesis using h [OF p(1)] limit_copy_complete [OF p(2) l] by (auto simp: fs_get_set)
  qed
qed

lemma save_stream_error:
  "open_create f s 438 = (f, Inl x) \<Longrightarrow> save_stream disk c d f s r limit = (f, Some (c x))"
  by (simp add: save_stream_def)

text \<open>Wherever below the root the file is, nothing outside the root changes.\<close>

lemma save_stream_confined:
  assumes "plain_comps cs" and "prefix root cs" and "link_free root f" and "save_stream disk c d f (abs_path cs) r limit = (g, e)"
  shows "confined root f g \<and> link_free root g"
proof -
  obtain k res where k: "open_create f (abs_path cs) 438 = (k, res)" by fastforce
  note kc = open_create_confined [OF assms(1,3,2) k avoids_empty]
  have "confined root f (fs_write k p x) \<and> link_free root (fs_write k p x)" if "res = Inr p" for p x
    using write_confined [where root = root and p = p and f = k and d = x] kc assms(2) that
    by (auto intro: confined_trans)
  moreover have "g = k \<or> (\<exists>p x. res = Inr p \<and> g = fs_write k p x)"
    using assms(4) k by (cases res) (auto simp: save_stream_def split: prod.splits)
  ultimately show ?thesis using kc by auto
qed

lemma save_object_confined:
  assumes "plain_comps cs" and "prefix root cs" and "link_free root f" and "save_object disk d f (abs_path cs) r limit = (g, e)"
  shows "confined root f g \<and> link_free root g"
proof -
  obtain h e1 where h: "mkdir_all f (path_dir (abs_path cs)) 493 = (h, e1)" by fastforce
  note hc = mkdir_above [OF assms(1-3) h avoids_empty]
  show ?thesis
  proof (cases e1)
    case None
    then have "save_stream disk (\<lambda>e. e) d h (abs_path cs) r limit = (g, e)" using assms(4) h by (simp add: save_object_def)
    then show ?thesis using save_stream_confined [OF assms(1,2)] hc by (auto intro: confined_trans)
  qed (use assms(4) h hc in \<open>simp add: save_object_def\<close>)
qed

text \<open>A base name has no slash.\<close>

lemma path_base_name:
  assumes "path_base s \<notin> {[], ''.'', ''/''}"
  shows "CHR ''/'' \<notin> set (path_base s)"
proof -
  have "CHR ''/'' \<notin> set (last (split_chr CHR ''/'' t))" for t
    using split_chr_no_sep last_in_set [OF split_chr_not_Nil] by metis
  then show ?thesis using assms by (auto simp: path_base_def Let_def split: if_splits)
qed

text \<open>The parent of an existing directory is a directory: nothing can be created there.\<close>

lemma parent_dir:
  assumes "placed f t" and "fs_get f t = Some (Dir m)"
  obtains m' where "placed f (butlast t)" "fs_get f (butlast t) = Some (Dir m')"
  using placed_parent [OF assms(1)] assms by (cases "t = []") auto

lemma join_dotdot: "plain_comps t \<Longrightarrow> path_join [abs_path t, ''..''] = abs_path (butlast t)"
proof -
  assume t: "plain_comps t"
  let ?p = "path_join [abs_path t, ''..'']"
  have "path_comps ?p = butlast t"
    using t path_comps_abs [of t]
    by (cases t rule: rev_cases) (auto simp: path_comps_join clean_comps_def clean_step_def plain_comps_def)
  then show ?thesis using clean_abs [of ?p] by (simp add: is_abs_append path_join_two path_clean_idem)
qed

lemma join_dot: "plain_comps t \<Longrightarrow> path_join [abs_path t, ''.''] = abs_path t"
proof -
  assume t: "plain_comps t"
  let ?p = "path_join [abs_path t, ''.'']"
  have "path_comps ?p = t"
    using path_comps_abs [OF t] by (simp add: path_comps_join clean_comps_def clean_step_def)
  then show ?thesis using clean_abs [of ?p] by (simp add: is_abs_append path_join_two path_clean_idem)
qed

lemma create_dotdot:
  assumes "placed f t" and "fs_get f t = Some (Dir m)"
  shows "open_create f (path_join [abs_path t, ''..'']) perm = (f, Inl eisdir)"
proof -
  obtain m' where "placed f (butlast t)" "fs_get f (butlast t) = Some (Dir m')" using parent_dir [OF assms] .
  then show ?thesis by (simp add: join_dotdot [OF placed_plain [OF assms(1)]] open_create_def resolve_placed)
qed

section \<open>Pages of a listing\<close>

text \<open>The body of a \<^verbatim>\<open>for range\<close> that returns the first error.\<close>

fun each :: "('w \<Rightarrow> 'k \<Rightarrow> 'w \<times> goerr option) \<Rightarrow> 'w \<Rightarrow> 'k list \<Rightarrow> 'w \<times> goerr option" where
  "each item w [] = (w, None)"
| "each item w (k # ks) =
     (case item w k of (w1, Some e) \<Rightarrow> (w1, Some e) | (w1, None) \<Rightarrow> each item w1 ks)"

text \<open>\<open>fetch\<close> gets the page at a position: its entries, and the position of the next page if there is one.\<close>

partial_function (option) pages ::
    "('w \<Rightarrow> 'p \<Rightarrow> 'w \<times> ('k list \<times> 'p option) result) \<Rightarrow> ('w \<Rightarrow> 'k \<Rightarrow> 'w \<times> goerr option) \<Rightarrow> 'w \<Rightarrow> 'p \<Rightarrow> ('w \<times> goerr option) option" where
  "pages fetch item w p =
     (case fetch w p of
        (w1, Inl e) \<Rightarrow> Some (w1, Some e)
      | (w1, Inr (ks, following)) \<Rightarrow>
          (case each item w1 ks of
             (w2, Some e) \<Rightarrow> Some (w2, Some e)
           | (w2, None) \<Rightarrow> (case following of None \<Rightarrow> Some (w2, None) | Some q \<Rightarrow> pages fetch item w2 q)))"

text \<open>A listing that gets shorter with every page ends the loop.\<close>

lemma pages_return:
  assumes "\<And>w p w1 ks q. fetch w p = (w1, Inr (ks, Some q)) \<Longrightarrow> \<mu> q < (\<mu> p :: nat)"
  shows "\<exists>r. pages fetch item w p = Some r"
proof (induction "\<mu> p" arbitrary: w p rule: less_induct)
  case less
  obtain w1 r where r: "fetch w p = (w1, r)" by fastforce
  show ?case
  proof (cases r)
    case (Inr x)
    obtain ks following where x: "x = (ks, following)" by fastforce
    obtain w2 e where e: "each item w1 ks = (w2, e)" by fastforce
    have "\<exists>r. pages fetch item w2 q = Some r" if "following = Some q" for q
      using less [of q] assms [of w p w1 ks q] r Inr x that by simp
    then show ?thesis using r Inr x e by (subst pages.simps) (auto split: option.split)
  qed (use r in \<open>simp add: pages.simps\<close>)
qed

text \<open>
  What getting a page and storing an entry keep, the loop keeps.  The state of a listing has files
  only entries change.
\<close>

locale paged_store =
  fixes fetch :: "'w \<Rightarrow> 'p \<Rightarrow> 'w \<times> ('k list \<times> 'p option) result"
    and item :: "'w \<Rightarrow> 'k \<Rightarrow> 'w \<times> goerr option"
    and keeps :: "'w \<Rightarrow> bool"
  assumes fetch_keeps: "keeps w \<Longrightarrow> keeps (fst (fetch w p))"
    and item_keeps: "keeps w \<Longrightarrow> keeps (fst (item w k))"
begin

lemma each_keeps: "keeps w \<Longrightarrow> keeps (fst (each item w ks))"
proof (induction ks arbitrary: w)
  case (Cons k ks)
  then show ?case using item_keeps [of w k] by (auto split: prod.split option.split)
qed simp

lemma pages_keep:
  assumes "pages fetch item w p = Some r" and "keeps w"
  shows "keeps (fst r)"
proof -
  have "f = fetch \<longrightarrow> i = item \<longrightarrow> keeps v \<longrightarrow> keeps (fst r')" if "pages f i v q = Some r'" for f i v q r'
    using that
  proof (rule pages.raw_induct [rotated])
    fix rec f i v q r'
    assume rec: "\<And>f i v q r'. rec f i v q = Some r' \<Longrightarrow> f = fetch \<longrightarrow> i = item \<longrightarrow> keeps v \<longrightarrow> keeps (fst r')"
      and step: "(case f v q of (w1, Inl e) \<Rightarrow> Some (w1, Some e)
        | (w1, Inr (ks, following)) \<Rightarrow>
            (case each i w1 ks of (w2, Some e) \<Rightarrow> Some (w2, Some e)
             | (w2, None) \<Rightarrow> (case following of None \<Rightarrow> Some (w2, None) | Some q \<Rightarrow> rec f i w2 q))) = Some r'"
    show "f = fetch \<longrightarrow> i = item \<longrightarrow> keeps v \<longrightarrow> keeps (fst r')"
    proof (intro impI)
      assume eq: "f = fetch" "i = item" and v: "keeps v"
      obtain w1 x where x: "fetch v q = (w1, x)" by fastforce
      have w1: "keeps w1" using fetch_keeps [OF v, of q] x by simp
      show "keeps (fst r')"
      proof (cases x)
        case (Inr y)
        obtain ks following w2 e where y: "y = (ks, following)" "each item w1 ks = (w2, e)" by fastforce
        then have w2: "keeps w2" using each_keeps [OF w1, of ks] by simp
        have "r' = (w2, e) \<or> (\<exists>q. rec fetch item w2 q = Some r')"
          using step x Inr y eq by (cases e; cases following) auto
        then show ?thesis
        proof
          assume "\<exists>q. rec fetch item w2 q = Some r'"
          then obtain q' where "rec fetch item w2 q' = Some r'" ..
          from rec [OF this] show ?thesis using w2 by simp
        qed (simp add: w2)
      qed (use step x w1 eq in auto)
    qed
  qed
  then show ?thesis using assms by blast
qed

end

section \<open>What a listing lays out\<close>

lemma all_fit_append: "all_fit A (xs @ ys) \<longleftrightarrow> all_fit A xs \<and> all_fit (foldl lay A xs) ys"
  by (induction xs arbitrary: A) auto

lemma limit_copy_fits:
  assumes "limit \<le> 0 \<or> int (length (rd_data r)) \<le> limit \<and> limit < max_int64" and "rd_end r = None"
  shows "limit_copy None r limit = (rd_data r, None)"
proof (cases "limit \<le> 0")
  case False
  then have "wrap64 (limit + 1) = limit + 1" using assms(1) by (intro wrap64_id) (auto simp: max_int64_def)
  moreover have "limit_reader r (limit + 1) = r" using assms(1) False by (intro limit_reader_all) auto
  ultimately show ?thesis using False assms by (simp add: limit_copy_def io_copy_def)
qed (use assms(2) in \<open>simp add: limit_copy_def io_copy_def\<close>)

lemma save_object_lays:
  assumes "fs_ok f" and "fits (fs_get f) (File_At q 438 (rd_data r))" and "rd_end r = None" and "disk q = None"
    and "limit \<le> 0 \<or> int (length (rd_data r)) \<le> limit \<and> limit < max_int64"
  shows "\<exists>g. save_object disk d f (abs_path q) r limit = (g, None) \<and> fs_ok g \<and> fs_get g = lay (fs_get f) (File_At q 438 (rd_data r))"
proof -
  let ?k = "mode_at (fs_get f) q 438"
  have q: "q \<noteq> []" using assms(2) by simp
  obtain g where "mkdir_all f (path_dir (abs_path q)) 493 = (g, None)"
    "open_create g (abs_path q) 438 = (fs_set g q (Regular ?k []), Inr q)"
    "fs_ok (fs_set g q (Regular ?k (rd_data r)))"
    "fs_get (fs_set g q (Regular ?k (rd_data r))) = lay (fs_get f) (File_At q 438 (rd_data r))"
    using file_deep [OF assms(1,2)] .
  then show ?thesis
    using limit_copy_fits [OF assms(5,3)] assms(4) q
    by (simp add: save_object_def save_stream_def write_created del: lay.simps)
qed

text \<open>A listing that starts at \<open>p\<close> and ends after finitely many pages with the entries \<open>ks\<close>, whatever the state.\<close>

inductive listing :: "('w \<Rightarrow> 'p \<Rightarrow> 'w \<times> ('k list \<times> 'p option) result) \<Rightarrow> ('w \<Rightarrow> fs) \<Rightarrow> 'p \<Rightarrow> 'k list \<Rightarrow> bool" for fetch files where
  last_page: "(\<And>w. \<exists>w1. fetch w p = (w1, Inr (ks, None)) \<and> files w1 = files w) \<Longrightarrow> listing fetch files p ks"
| page: "(\<And>w. \<exists>w1. fetch w p = (w1, Inr (ks, Some q)) \<and> files w1 = files w) \<Longrightarrow> listing fetch files q rest \<Longrightarrow>
    listing fetch files p (ks @ rest)"

text \<open>A store whose entries each stand for an item, if any: its whole listing is laid out.\<close>

locale laying_store =
  fixes fetch :: "'w \<Rightarrow> 'p \<Rightarrow> 'w \<times> ('k list \<times> 'p option) result"
    and item :: "'w \<Rightarrow> 'k \<Rightarrow> 'w \<times> goerr option"
    and files :: "'w \<Rightarrow> fs"
    and place :: "'k \<Rightarrow> item option"
    and sound :: "'k \<Rightarrow> bool"
  assumes item_lays: "fs_ok (files w) \<Longrightarrow> sound k \<Longrightarrow> (\<And>i. place k = Some i \<Longrightarrow> fits (fs_get (files w)) i) \<Longrightarrow>
    \<exists>w1. item w k = (w1, None) \<and> fs_ok (files w1) \<and>
      fs_get (files w1) = (case place k of None \<Rightarrow> fs_get (files w) | Some i \<Rightarrow> lay (fs_get (files w)) i)"
begin

lemma each_lays:
  "fs_ok (files w) \<Longrightarrow> \<forall>k\<in>set ks. sound k \<Longrightarrow> all_fit (fs_get (files w)) (List.map_filter place ks) \<Longrightarrow>
   \<exists>w1. each item w ks = (w1, None) \<and> fs_ok (files w1) \<and> fs_get (files w1) = foldl lay (fs_get (files w)) (List.map_filter place ks)"
proof (induction ks arbitrary: w)
  case Nil
  then show ?case by simp
next
  case (Cons k ks)
  obtain w1 where w1: "item w k = (w1, None)" "fs_ok (files w1)"
    "fs_get (files w1) = (case place k of None \<Rightarrow> fs_get (files w) | Some i \<Rightarrow> lay (fs_get (files w)) i)"
    using item_lays [OF Cons.prems(1), of k] Cons.prems(2,3) by (auto split: option.splits)
  have "all_fit (fs_get (files w1)) (List.map_filter place ks)" using Cons.prems(3) w1(3) by (auto split: option.splits)
  then obtain w2 where "each item w1 ks = (w2, None)" "fs_ok (files w2)"
    "fs_get (files w2) = foldl lay (fs_get (files w1)) (List.map_filter place ks)"
    using Cons.IH [OF w1(2)] Cons.prems(2) by auto
  then show ?case using w1(1,3) by (auto split: option.splits)
qed

lemma pages_lay:
  assumes "listing fetch files p ks"
  shows "fs_ok (files w) \<Longrightarrow> \<forall>k\<in>set ks. sound k \<Longrightarrow> all_fit (fs_get (files w)) (List.map_filter place ks) \<Longrightarrow>
    \<exists>w2. pages fetch item w p = Some (w2, None) \<and> fs_get (files w2) = foldl lay (fs_get (files w)) (List.map_filter place ks)"
  using assms
proof (induction arbitrary: w rule: listing.induct)
  case (last_page p ks)
  obtain w1 where w1: "fetch w p = (w1, Inr (ks, None))" "files w1 = files w" using last_page.hyps by blast
  obtain w2 where "each item w1 ks = (w2, None)" "fs_get (files w2) = foldl lay (fs_get (files w)) (List.map_filter place ks)"
    using each_lays [of w1 ks] last_page.prems w1(2) by auto
  then show ?case using w1(1) by (subst pages.simps) simp
next
  case (page p ks q rest)
  obtain w1 where w1: "fetch w p = (w1, Inr (ks, Some q))" "files w1 = files w" using page.hyps(1) by blast
  have split: "List.map_filter place (ks @ rest) = List.map_filter place ks @ List.map_filter place rest"
    by (simp add: List.map_filter_def)
  obtain w2 where w2: "each item w1 ks = (w2, None)" "fs_ok (files w2)"
    "fs_get (files w2) = foldl lay (fs_get (files w)) (List.map_filter place ks)"
    using each_lays [of w1 ks] page.prems w1(2) split all_fit_append by auto
  then obtain w3 where "pages fetch item w2 q = Some (w3, None)"
    "fs_get (files w3) = foldl lay (fs_get (files w2)) (List.map_filter place rest)"
    using page.IH [of w2] page.prems split all_fit_append by auto
  then show ?case using w1(1) w2(1,3) split by (subst pages.simps) simp
qed

end

end
