(* ===== verification/Hg_Protocol.thy ===== *)
theory Hg_Protocol
  imports Streams Git_Url
begin

text \<open>
  The Mercurial protocol (\<^verbatim>\<open>protocols/hg/hg.go\<close>): the URLs it takes, the checks before the \<^verbatim>\<open>hg\<close>
  subprocess, its arguments and environment, and the subdirectory moved to the top.  The subprocess
  is a parameter.
\<close>

section \<open>Detection\<close>

record hg_dl =
  hg_repo_url :: string
  hg_rev :: string
  hg_subdir :: string

definition known_hg_hosts :: "string list" where
  "known_hg_hosts = [''bitbucket.org'']"

definition is_hg_url :: "url \<Rightarrow> bool" where
  "is_hg_url u \<longleftrightarrow> to_lower (url_hostname u) \<in> set known_hg_hosts"

definition hg_split_subdir :: "string \<Rightarrow> string \<times> string" where
  "hg_split_subdir path =
     (case index_str path ''//'' of
        Some i \<Rightarrow> (take i path, trim_prefix (drop (i + 2) path) ''/'')
      | None \<Rightarrow> (path, []))"

definition parse_hg_url :: "string \<Rightarrow> bool \<Rightarrow> hg_dl result" where
  "parse_hg_url raw forced =
     (case url_parse (if contains_str raw ''://'' then raw else ''https://'' @ raw) of
        None \<Rightarrow> Inl (errors_new ''parse'')
      | Some u \<Rightarrow>
          if \<not> forced \<and> \<not> is_hg_url u then Inl (errors_new ''not a Mercurial URL'')
          else case hg_split_subdir (u_path u) of
            (repo_path, subdir) \<Rightarrow>
              Inr \<lparr>hg_repo_url = url_string (u\<lparr>u_path := repo_path, u_raw_query := [], u_fragment := []\<rparr>),
                   hg_rev = query_get (url_query u) ''rev'', hg_subdir = subdir\<rparr>)"

definition hg_detect :: "string \<Rightarrow> hg_dl option" where
  "hg_detect raw = (case parse_hg_url raw False of Inl _ \<Rightarrow> None | Inr d \<Rightarrow> Some d)"

definition hg_detect_forced :: "string \<Rightarrow> hg_dl option" where
  "hg_detect_forced raw = (case parse_hg_url raw True of Inl _ \<Rightarrow> None | Inr d \<Rightarrow> Some d)"

interpretation hg: forced_detector hg_detect hg_detect_forced
  by unfold_locales
    (auto simp: hg_detect_def hg_detect_forced_def parse_hg_url_def split: if_splits option.splits sum.splits prod.splits)

section \<open>Download\<close>

text \<open>
  \<open>hv_run\<close> runs \<^verbatim>\<open>hg\<close> with arguments and an environment and yields its combined output and error;
  \<open>hv_found\<close> is \<^verbatim>\<open>exec.LookPath\<close>, \<open>hv_environ\<close> is \<^verbatim>\<open>os.Environ\<close>, and \<open>hv_cross\<close> whether moving a
  file within the temporary directory crosses devices.
\<close>

record 'n hg_env =
  hv_lookup :: resolver
  hv_found :: bool
  hv_environ :: "string list"
  hv_run :: "'n sys \<Rightarrow> string list \<Rightarrow> string list \<Rightarrow> 'n sys \<times> string \<times> goerr option"
  hv_cross :: bool

definition hg_refused :: "'n hg_env \<Rightarrow> hg_dl \<Rightarrow> transport settings \<Rightarrow> goerr option" where
  "hg_refused env d s =
     (if no_system_fallback s
      then Some (errors_new ''mercurial support is disabled when system fallback is off (it requires the hg subprocess)'')
      else case (case url_parse (hg_repo_url d) of
          None \<Rightarrow> None
        | Some u \<Rightarrow>
            if has_prefix (url_hostname u) ''-''
            then Some (Errorf ''refusing to clone from a URL whose host begins with '-': %q'' [hg_repo_url d] [])
            else check_ssrf_host s (hv_lookup env) (url_hostname u)) of
        Some e \<Rightarrow> Some e
      | None \<Rightarrow> if hv_found env then None else Some (errors_new ''hg (Mercurial) executable not found in PATH''))"

definition clone_dir :: "hg_dl \<Rightarrow> string \<Rightarrow> string" where
  "clone_dir d tmp = (if hg_subdir d \<noteq> [] then path_join [tmp, ''_clone''] else tmp)"

definition hg_args :: "hg_dl \<Rightarrow> string \<Rightarrow> string list" where
  "hg_args d dir =
     [''clone''] @ (if hg_rev d \<noteq> [] then [''--rev'', hg_rev d] else []) @ [''--'', hg_repo_url d, dir]"

fun move_entries :: "bool \<Rightarrow> string \<Rightarrow> string \<Rightarrow> fs \<Rightarrow> string list \<Rightarrow> fs \<times> goerr option" where
  "move_entries cross src tmp f [] = (f, None)"
| "move_entries cross src tmp f (c # cs) =
     (case fs_rename f cross (path_join [src, c]) (path_join [tmp, c]) of
        (g, Some e) \<Rightarrow> (g, Some (wrap_err ''moving %s: %w'' [c] e))
      | (g, None) \<Rightarrow> move_entries cross src tmp g cs)"

text \<open>The contents of the subdirectory become those of the temporary directory.\<close>

definition promote_subdir :: "bool \<Rightarrow> hg_dl \<Rightarrow> string \<Rightarrow> fs \<Rightarrow> fs \<times> goerr option" where
  "promote_subdir cross d tmp f =
     (if hg_subdir d = [] then (f, None)
      else let src = path_join [clone_dir d tmp, hg_subdir d]
        in case fs_stat f src of
             Inl e \<Rightarrow> (f, Some (wrap_err ''subdirectory %q not found in repo: %w'' [hg_subdir d] e))
           | Inr n \<Rightarrow>
               if \<not> is_dir n then (f, Some (Errorf ''subdirectory %q is not a directory'' [hg_subdir d] []))
               else case read_dir f src of
                 Inl e \<Rightarrow> (f, Some e)
               | Inr names \<Rightarrow>
                   (case move_entries cross src tmp f names of
                      (g, Some e) \<Rightarrow> (g, Some e)
                    | (g, None) \<Rightarrow> (fst (fs_remove_all g (clone_dir d tmp)), None)))"

definition hg_download :: "'n hg_env \<Rightarrow> hg_dl \<Rightarrow> transport settings \<Rightarrow> string \<Rightarrow> 'n sys \<Rightarrow> 'n sys \<times> bool result" where
  "hg_download env d s tmp w =
     (case hg_refused env d s of
        Some e \<Rightarrow> (w, Inl e)
      | None \<Rightarrow>
          (case hv_run env w (hg_args d (clone_dir d tmp)) (non_interactive (hv_environ env)) of
             (w1, out, Some e) \<Rightarrow> (w1, Inl (wrap_err ''cloning mercurial repo: %s: %w'' [out] e))
           | (w1, out, None) \<Rightarrow>
               (case promote_subdir (hv_cross env) d tmp
                       (fst (fs_remove_all (sys_fs w1) (path_join [clone_dir d tmp, ''.hg'']))) of
                  (f, e) \<Rightarrow> failed (w1\<lparr>sys_fs := f\<rparr>, e) False)))"

definition hg_protocol :: "'n hg_env \<Rightarrow> 'n protocol" where
  "hg_protocol env =
     \<lparr>pr_prefix = ''hg'', pr_priority = 80,
      pr_detect = (\<lambda>_ raw. map_option (\<lambda>d. returning (hg_download env d)) (hg_detect raw)),
      pr_forced = Some (\<lambda>_ raw. map_option (\<lambda>d. returning (hg_download env d)) (hg_detect_forced raw))\<rparr>"

section \<open>Facts\<close>

text \<open>A removal leaves a file system in order.\<close>

lemma remove_all_ok:
  assumes "fs_ok f" and "placed f p" and "p \<noteq> []"
  shows "fs_ok (fst (fs_remove_all f (abs_path p)))"
proof -
  note get = remove_all_placed [OF assms(2,3)]
  have nodes: "fs_nodes (fst (fs_remove_all f (abs_path p))) = filter (\<lambda>(q, _). \<not> prefix p q) (fs_nodes f)"
    using assms(3) resolve_placed [OF assms(2), of False] by (simp add: fs_remove_all_def)
  have "\<not> prefix p q \<Longrightarrow> \<not> prefix p (butlast q)" for q :: fpath
    using prefix_order.order_trans [OF _ prefixeq_butlast] by blast
  then show ?thesis
    using assms(1) by (auto simp: fs_ok_def get nodes distinct_map_filter split: if_splits)
qed

text \<open>
  Moving the entries \<open>cs\<close> of a directory below \<open>t\<close> up to \<open>t\<close>, where nothing has their names.
\<close>

lemma move_entries_placed:
  assumes "fs_ok f" and "s = t @ b # v" and "b \<notin> set cs" and "distinct cs" and "fs_get f t = Some (Dir m)" and "fs_get f s = Some (Dir n)"
    and "\<forall>c\<in>set cs. plain_comps [c] \<and> fs_get f (s @ [c]) \<noteq> None \<and> fs_get f (t @ [c]) = None"
  shows "\<exists>g. move_entries False (abs_path s) (abs_path t) f cs = (g, None) \<and> fs_ok g \<and>
    (\<forall>x. fs_get g x = (if \<exists>c\<in>set cs. prefix (t @ [c]) x then fs_get f (s @ drop (length t) x)
      else if \<exists>c\<in>set cs. prefix (s @ [c]) x then None else fs_get f x))"
  using assms
proof (induction cs arbitrary: f)
  case (Cons c cs)
  let ?f = "fs_move f (s @ [c]) (t @ [c])"
  have c: "plain_comps [c]" "fs_get f (s @ [c]) \<noteq> None" "fs_get f (t @ [c]) = None" "c \<noteq> b" "c \<notin> set cs"
    using Cons.prems by auto
  obtain k where k: "fs_get f (s @ [c]) = Some k" using c(2) by blast
  have pl: "placed f (t @ [c])" using ok_placed [OF Cons.prems(1,5)] Cons.prems(5) c(1) by (simp add: placed_snoc)
  have pls: "plain_comps t" "plain_comps s"
    using ok_placed [OF Cons.prems(1,5)] ok_placed [OF Cons.prems(1,6)] placed_plain by blast+
  have np: "\<not> prefix (s @ [c]) (t @ [c'])" for c' using Cons.prems(2) by (auto dest: prefix_length_le)
  have join: "path_join [abs_path s, c] = abs_path (s @ [c])" "path_join [abs_path t, c] = abs_path (t @ [c])"
    using join_abs_rel [OF pls(1) c(1)] join_abs_rel [OF pls(2) c(1)] by simp_all
  have step: "fs_rename f False (abs_path (s @ [c])) (abs_path (t @ [c])) = (?f, None)"
    using rename_placed [OF Cons.prems(1) k _ pl c(3) np, of False] by simp
  have get: "fs_get ?f x = (if prefix (t @ [c]) x then fs_get f (s @ drop (length t) x)
      else if prefix (s @ [c]) x then None else fs_get f x)" for x
    using move_get [OF Cons.prems(1) c(3) _ np, of x] by (auto simp: prefix_def)
  have apart: "\<not> prefix (t @ [c]) (s @ y)" for y using c(4) Cons.prems(2) by (auto simp: prefix_def)
  have ok: "fs_ok ?f" by (rule fs_move_ok [OF Cons.prems(1) c(3) pl _ np]) simp
  have "fs_get ?f t = Some (Dir m)" "fs_get ?f s = Some (Dir n)"
    using get [of t] get [of s] apart [of "[]"] Cons.prems(2,5,6) by (auto dest: prefix_length_le)
  moreover have "\<forall>c'\<in>set cs. plain_comps [c'] \<and> fs_get ?f (s @ [c']) \<noteq> None \<and> fs_get ?f (t @ [c']) = None"
    using Cons.prems(7) c(5) get apart np by (auto simp: prefix_def)
  ultimately obtain g where g: "move_entries False (abs_path s) (abs_path t) ?f cs = (g, None)" "fs_ok g"
    "\<forall>x. fs_get g x = (if \<exists>c\<in>set cs. prefix (t @ [c]) x then fs_get ?f (s @ drop (length t) x)
      else if \<exists>c\<in>set cs. prefix (s @ [c]) x then None else fs_get ?f x)"
    using Cons.IH [OF ok Cons.prems(2)] Cons.prems(3,4) by auto
  have "fs_get g x = (if \<exists>c\<in>set (c # cs). prefix (t @ [c]) x then fs_get f (s @ drop (length t) x)
      else if \<exists>c\<in>set (c # cs). prefix (s @ [c]) x then None else fs_get f x)" for x
  proof (cases "\<exists>c'\<in>set cs. prefix (t @ [c']) x")
    case True
    then obtain c' r where r: "c' \<in> set cs" "x = t @ c' # r" by (auto simp: prefix_def)
    have "fs_get ?f (s @ c' # r) = fs_get f (s @ c' # r)"
      using get [of "s @ c' # r"] apart c(5) r(1) by (auto simp: prefix_def)
    then show ?thesis using g(3) r by (auto simp: prefix_def)
  next
    case False
    have "\<not> prefix (s @ y) x" if "prefix (t @ [c]) x" for y using that c(4) Cons.prems(2) by (auto simp: prefix_def)
    then show ?thesis using False g(3) get [of x] by auto
  qed
  then show ?case using g(1,2) step join by auto
qed simp

section \<open>Properties\<close>

text \<open>
  C28. Mercurial runs only after the checks: with system fallback, with \<^verbatim>\<open>hg\<close> installed, and for a host
  that is no option and that the guard lets pass.  Otherwise nothing changes and the download fails.
  When it runs, the repository and the directory are its last arguments, behind the end of the
  options, and its environment is non-interactive.
\<close>

theorem hg_runs_checked:
  assumes "hg_download env d s tmp w = (w2, r)" and "w2 \<noteq> w \<or> r = Inr ok"
  shows "\<not> no_system_fallback s \<and> hv_found env \<and>
    (\<forall>u. url_parse (hg_repo_url d) = Some u \<longrightarrow>
       \<not> has_prefix (url_hostname u) ''-'' \<and> check_ssrf_host s (hv_lookup env) (url_hostname u) = None) \<and>
    (\<exists>opts. hg_args d (clone_dir d tmp) = opts @ [''--'', hg_repo_url d, clone_dir d tmp] \<and> set opts \<subseteq> {''clone'', ''--rev'', hg_rev d}) \<and>
    (\<exists>w1 out e. hv_run env w (hg_args d (clone_dir d tmp)) (non_interactive (hv_environ env)) = (w1, out, e) \<and>
       sys_net w2 = sys_net w1 \<and> (r = Inr ok \<longrightarrow> e = None))"
proof -
  have ref: "hg_refused env d s = None" using assms by (auto simp: hg_download_def split: option.splits)
  then have "\<not> no_system_fallback s" "hv_found env"
    "\<forall>u. url_parse (hg_repo_url d) = Some u \<longrightarrow>
       \<not> has_prefix (url_hostname u) ''-'' \<and> check_ssrf_host s (hv_lookup env) (url_hostname u) = None"
    by (auto simp: hg_refused_def split: option.splits if_splits)
  moreover obtain w1 out e where run: "hv_run env w (hg_args d (clone_dir d tmp)) (non_interactive (hv_environ env)) = (w1, out, e)"
    by (metis prod_cases3)
  have "sys_net w2 = sys_net w1 \<and> (r = Inr ok \<longrightarrow> e = None)"
    using assms(1) run ref by (auto simp: hg_download_def failed_def split: option.splits prod.splits)
  moreover note run
  ultimately show ?thesis by (auto simp: hg_args_def)
qed

text \<open>The moved entries, once the clone directory is gone, are what the subdirectory held.\<close>

lemma moved_up:
  assumes ok: "fs_ok f" and names: "''_clone'' \<notin> set cs" "set cs = {x. fs_get f (t @ ''_clone'' # sub @ [x]) \<noteq> None}"
    and only: "\<And>x. x \<noteq> ''_clone'' \<Longrightarrow> fs_get f (t @ [x]) = None"
    and g: "\<And>x. fs_get g x = (if \<exists>c\<in>set cs. prefix (t @ [c]) x then fs_get f ((t @ ''_clone'' # sub) @ drop (length t) x)
      else if \<exists>c\<in>set cs. prefix ((t @ ''_clone'' # sub) @ [c]) x then None else fs_get f x)"
    and h: "\<And>q. fs_get h q = (if prefix (t @ [''_clone'']) q then None else fs_get g q)"
  shows "fs_get h (t @ x # r) = fs_get f (t @ ''_clone'' # sub @ x # r)"
proof (cases "x \<in> set cs")
  case True
  then have "\<not> prefix (t @ [''_clone'']) (t @ x # r)" "fs_get g (t @ x # r) = fs_get f ((t @ ''_clone'' # sub) @ x # r)"
    using names(1) g by (auto simp: prefix_def)
  then show ?thesis using h by simp
next
  case False
  then have "fs_get f (t @ ''_clone'' # sub @ [x]) = None" using names(2) by auto
  then have none: "fs_get f (t @ ''_clone'' # sub @ x # r) = None"
    using ok_none_below [OF ok, of "t @ ''_clone'' # sub @ [x]" "t @ ''_clone'' # sub @ x # r"] by (simp add: prefix_def)
  show ?thesis
  proof (cases "x = ''_clone''")
    case True
    then have "prefix (t @ [''_clone'']) (t @ x # r)" by (simp add: prefix_def)
    then show ?thesis using none h by simp
  next
    case F: False
    then have "fs_get f (t @ x # r) = None"
      using ok_none_below [OF ok, of "t @ [x]" "t @ x # r"] only by (simp add: prefix_def)
    moreover have "fs_get g (t @ x # r) = fs_get f (t @ x # r)"
      using g False F by (auto simp: prefix_def)
    ultimately show ?thesis using none h by simp
  qed
qed

text \<open>
  Promotion in a download directory that holds the clone and nothing else: the contents of the
  subdirectory become the contents of the download directory.
\<close>

lemma promote_subdir_placed:
  assumes ok: "fs_ok f" and t: "fs_get f t = Some (Dir m)" and src: "fs_get f (t @ ''_clone'' # sub) = Some (Dir n)"
    and sub: "hg_subdir d = rel_path sub" "plain_comps sub" "sub \<noteq> []"
    and only: "\<And>x. x \<noteq> ''_clone'' \<Longrightarrow> fs_get f (t @ [x]) = None" and free: "fs_get f (t @ ''_clone'' # sub @ [''_clone'']) = None"
  shows "\<exists>h. promote_subdir False d (abs_path t) f = (h, None) \<and>
    (\<forall>r. r \<noteq> [] \<longrightarrow> fs_get h (t @ r) = fs_get f (t @ ''_clone'' # sub @ r)) \<and>
    (\<forall>q. \<not> strict_prefix t q \<longrightarrow> fs_get h q = fs_get f q)"
proof -
  let ?s = "t @ ''_clone'' # sub" and ?c = "t @ [''_clone'']"
  have pls: "placed f ?s" and plt: "placed f t" using ok_placed [OF ok] src t by blast+
  have "\<exists>k. fs_get f ?c = Some (Dir k)" using pls sub(3) by (auto simp: placed_def strict_prefix_def)
  then obtain k where c: "fs_get f ?c = Some (Dir k)" by blast
  obtain cs where cs: "read_dir f (abs_path ?s) = Inr cs" "distinct cs" "set cs = {x. fs_get f (?s @ [x]) \<noteq> None}"
    using read_dir_placed [OF pls src] ok by (auto simp: fs_ok_def)
  have nc: "''_clone'' \<notin> set cs" using cs(3) free by simp
  have each: "\<forall>x\<in>set cs. plain_comps [x] \<and> fs_get f (?s @ [x]) \<noteq> None \<and> fs_get f (t @ [x]) = None"
  proof
    fix x assume x: "x \<in> set cs"
    then obtain k where k: "fs_get f (?s @ [x]) = Some k" using cs(3) by auto
    have "plain_comps [x]" using placed_plain [OF ok_placed [OF ok k]] by (simp add: plain_comps_def)
    then show "plain_comps [x] \<and> fs_get f (?s @ [x]) \<noteq> None \<and> fs_get f (t @ [x]) = None" using k only [of x] x nc by auto
  qed
  obtain g where g: "move_entries False (abs_path ?s) (abs_path t) f cs = (g, None)" "fs_ok g"
    "\<forall>x. fs_get g x = (if \<exists>c\<in>set cs. prefix (t @ [c]) x then fs_get f (?s @ drop (length t) x)
      else if \<exists>c\<in>set cs. prefix (?s @ [c]) x then None else fs_get f x)"
    using move_entries_placed [OF ok refl nc cs(2) t src each] by blast
  have "\<not> prefix (t @ [x]) ?c" if "x \<in> set cs" for x using that nc by (auto simp: prefix_def)
  moreover have "\<not> prefix (?s @ [x]) ?c" for x by (auto dest: prefix_length_le)
  ultimately have "fs_get g ?c = Some (Dir k)" using g(3) c by auto
  then have plg: "placed g ?c" using ok_placed [OF g(2)] by blast
  let ?h = "fst (fs_remove_all g (abs_path ?c))"
  have h: "fs_get ?h q = (if prefix ?c q then None else fs_get g q)" for q using remove_all_placed [OF plg, of q] by simp
  have "fs_get ?h (t @ r) = fs_get f (t @ ''_clone'' # sub @ r)" if "r \<noteq> []" for r
    using moved_up [where cs = cs and g = g and sub = sub, OF ok nc _ only g(3) [rule_format] h] cs(3) that by (cases r) auto
  moreover have "fs_get ?h q = fs_get f q" if "\<not> strict_prefix t q" for q
  proof -
    have "\<not> prefix (t @ x # y) q" for x y using that by (auto simp: strict_prefix_def prefix_def)
    then show ?thesis using h g(3) by auto
  qed
  moreover have "promote_subdir False d (abs_path t) f = (?h, None)"
  proof -
    have "plain_comps [''_clone'']" by code_simp
    then have "path_join [abs_path t, ''_clone''] = abs_path ?c" "path_join [abs_path ?c, rel_path sub] = abs_path ?s"
      using join_abs_rel [OF placed_plain [OF plt], of "[''_clone'']"] join_abs_rel [OF placed_plain [OF plg] sub(2)] by simp_all
    moreover have "fs_stat f (abs_path ?s) = Inr (Dir n)" by (rule stat_placed [OF pls src]) simp
    ultimately show ?thesis using rel_path_not_Nil [OF sub(2,3)] sub(1) cs(1) g(1)
      by (simp add: promote_subdir_def clone_dir_def is_dir_def)
  qed
  ultimately show ?thesis by blast
qed

text \<open>
  C11. A subdirectory of a repository is delivered as it was cloned: the temporary directory then holds
  its entries, modes, contents and links included, and nothing else; outside nothing changes.
\<close>

theorem hg_subdirectory_delivered:
  assumes refused: "hg_refused env d s = None" and sub: "hg_subdir d = rel_path sub" "plain_comps sub" "sub \<noteq> []" "hd sub \<noteq> ''.hg''"
    and run: "hv_run env w (hg_args d (abs_path (t @ [''_clone'']))) (non_interactive (hv_environ env)) = (w1, out, None)"
    and ok: "fs_ok (sys_fs w1)" and t: "fs_get (sys_fs w1) t = Some (Dir m)"
    and only: "\<And>c. c \<noteq> ''_clone'' \<Longrightarrow> fs_get (sys_fs w1) (t @ [c]) = None"
    and src: "fs_get (sys_fs w1) (t @ ''_clone'' # sub) = Some (Dir n)" and free: "fs_get (sys_fs w1) (t @ ''_clone'' # sub @ [''_clone'']) = None"
    and cross: "\<not> hv_cross env"
  shows "\<exists>g. hg_download env d s (abs_path t) w = (w1\<lparr>sys_fs := g\<rparr>, Inr False) \<and>
    (\<forall>r. r \<noteq> [] \<longrightarrow> fs_get g (t @ r) = fs_get (sys_fs w1) (t @ ''_clone'' # sub @ r)) \<and>
    (\<forall>q. \<not> strict_prefix t q \<longrightarrow> fs_get g q = fs_get (sys_fs w1) q)"
proof -
  let ?f = "sys_fs w1" and ?c = "t @ [''_clone'']"
  let ?f2 = "fst (fs_remove_all ?f (abs_path (?c @ [''.hg''])))"
  have names: "plain_comps [''_clone'']" "plain_comps [''.hg'']" by code_simp+
  have plt: "placed ?f t" using ok_placed [OF ok t] .
  have c: "\<exists>k. fs_get ?f ?c = Some (Dir k)"
    using ok_placed [OF ok src] sub(3) by (auto simp: placed_def strict_prefix_def)
  have plc: "placed ?f ?c" using plt t names(1) by (auto simp: placed_snoc)
  have plh: "placed ?f (?c @ [''.hg''])" using plc c names(2) by (auto simp: placed_snoc simp del: append_assoc)
  have ok2: "fs_ok ?f2" by (rule remove_all_ok [OF ok plh]) simp
  have get2: "fs_get ?f2 q = (if prefix (?c @ [''.hg'']) q then None else fs_get ?f q)" for q
    using remove_all_placed [OF plh, of q] by simp
  have same: "fs_get ?f2 (t @ ''_clone'' # sub @ r) = fs_get ?f (t @ ''_clone'' # sub @ r)" for r
    using get2 [of "t @ ''_clone'' # sub @ r"] sub(3,4) by (cases sub) (auto simp: prefix_def)
  have "fs_get ?f2 t = Some (Dir m)" "fs_get ?f2 (t @ ''_clone'' # sub) = Some (Dir n)"
    "\<And>x. x \<noteq> ''_clone'' \<Longrightarrow> fs_get ?f2 (t @ [x]) = None"
    using get2 [of t] t same [of "[]"] src only get2 by (auto dest: prefix_length_le)
  from promote_subdir_placed [where d = d and sub = sub, OF ok2 this(1,2) sub(1-3) this(3)]
  obtain h where h: "promote_subdir False d (abs_path t) ?f2 = (h, None)"
    "\<forall>r. r \<noteq> [] \<longrightarrow> fs_get h (t @ r) = fs_get ?f2 (t @ ''_clone'' # sub @ r)" "\<forall>q. \<not> strict_prefix t q \<longrightarrow> fs_get h q = fs_get ?f2 q"
    using same [of "[''_clone'']"] free by auto
  have out_t: "fs_get h q = fs_get ?f q" if "\<not> strict_prefix t q" for q
    using h(3) get2 [of q] that by (auto simp: strict_prefix_def prefix_def)
  have "path_join [abs_path t, ''_clone''] = abs_path ?c" "path_join [abs_path ?c, ''.hg''] = abs_path (?c @ [''.hg''])"
    using join_abs_rel [OF placed_plain [OF plt] names(1)] join_abs_rel [OF placed_plain [OF plc] names(2)] by simp_all
  then have "hg_download env d s (abs_path t) w = (w1\<lparr>sys_fs := h\<rparr>, Inr False)"
    using refused run h(1) rel_path_not_Nil [OF sub(2,3)] sub(1) cross by (simp add: hg_download_def clone_dir_def)
  then show ?thesis using h(2) out_t same by auto
qed

text \<open>
  The subdirectory is not confined: with dots it leads out of the clone, and the entries of a
  directory of the host are moved into the download.
\<close>

lemma subdirectory_escapes:
  "hg_detect_forced ''https://h/r//../../home'' = Some \<lparr>hg_repo_url = ''https://h/r'', hg_rev = [], hg_subdir = ''../../home''\<rparr>"
  "fs_get (fst (promote_subdir False \<lparr>hg_repo_url = ''https://h/r'', hg_rev = [], hg_subdir = ''../../home''\<rparr> ''/t/u''
      \<lparr>fs_nodes = [([''t''], Dir 493), ([''t'', ''home''], Dir 493), ([''t'', ''home'', ''key''], Regular 384 ''secret''),
         ([''t'', ''u''], Dir 493), ([''t'', ''u'', ''_clone''], Dir 493)], fs_cwd = []\<rparr>)) [''t'', ''u'', ''key''] = Some (Regular 384 ''secret'')"
  "fs_get (fst (promote_subdir False \<lparr>hg_repo_url = ''https://h/r'', hg_rev = [], hg_subdir = ''../../home''\<rparr> ''/t/u''
      \<lparr>fs_nodes = [([''t''], Dir 493), ([''t'', ''home''], Dir 493), ([''t'', ''home'', ''key''], Regular 384 ''secret''),
         ([''t'', ''u''], Dir 493), ([''t'', ''u'', ''_clone''], Dir 493)], fs_cwd = []\<rparr>)) [''t'', ''home'', ''key''] = None"
  by code_simp+

section \<open>A concrete instance\<close>

definition demo_clone_fs :: fs where
  "demo_clone_fs =
     \<lparr>fs_nodes = [([''t''], Dir 493), ([''t'', ''_clone''], Dir 493), ([''t'', ''_clone'', ''.hg''], Dir 493),
        ([''t'', ''_clone'', ''s''], Dir 493), ([''t'', ''_clone'', ''s'', ''f''], Regular 420 ''data'')], fs_cwd = []\<rparr>"

definition demo_hg :: "unit hg_env" where
  "demo_hg =
     \<lparr>hv_lookup = (\<lambda>_. Inr [parse_ip ''8.8.8.8'']), hv_found = True, hv_environ = [],
      hv_run = (\<lambda>w args env. (w\<lparr>sys_fs := demo_clone_fs\<rparr>, [], None)), hv_cross = False\<rparr>"

definition demo_hg_dl :: hg_dl where
  "demo_hg_dl = \<lparr>hg_repo_url = ''https://bitbucket.org/u/r'', hg_rev = [], hg_subdir = ''s''\<rparr>"

lemma demo_hg_allowed: "hg_refused demo_hg (demo_hg_dl\<lparr>hg_subdir := x\<rparr>) demo_default = None"
proof -
  have h: "map_option url_hostname (url_parse ''https://bitbucket.org/u/r'') = Some ''bitbucket.org''"
    "\<not> has_prefix ''bitbucket.org'' ''-''" by code_simp+
  then obtain u where u: "url_parse ''https://bitbucket.org/u/r'' = Some u" "url_hostname u = ''bitbucket.org''" by auto
  have "check_host \<lparr>g_level = LevelInternal, g_custom = None, allow_hosts = [], allow_ips = [], allow_nets = []\<rparr>
      (\<lambda>_. Inr [parse_ip ''8.8.8.8'']) ''bitbucket.org'' = None" by code_simp
  then have "check_ssrf_host demo_default (hv_lookup demo_hg) ''bitbucket.org'' = None"
    by (simp add: check_ssrf_host_def demo_guard demo_hg_def)
  then show ?thesis using u h(2)
    by (simp add: hg_refused_def demo_hg_dl_def) (simp add: demo_default_def default_settings_def demo_hg_def)
qed

lemma demo_clone_fs_ok: "fs_ok demo_clone_fs"
proof -
  have "plain_comps [''t'', ''_clone'', ''.hg'']" "plain_comps [''t'', ''_clone'', ''s'', ''f'']" by code_simp+
  then show ?thesis by (auto simp: fs_ok_def demo_clone_fs_def fs_get_def plain_comps_def split: if_splits)
qed

theorem hg_subdirectory_delivered_witness:
  "\<exists>g. hg_download demo_hg demo_hg_dl demo_default (abs_path [''t'']) \<lparr>sys_fs = demo_clone_fs, sys_net = ()\<rparr> =
       (\<lparr>sys_fs = g, sys_net = ()\<rparr>, Inr False) \<and>
     fs_get g [''t'', ''f''] = Some (Regular 420 ''data'') \<and> fs_get g [''t'', ''_clone''] = None"
proof -
  let ?w = "\<lparr>sys_fs = demo_clone_fs, sys_net = ()\<rparr>"
  have sub: "hg_subdir demo_hg_dl = rel_path [''s'']" "plain_comps [''s'']" by (simp add: demo_hg_dl_def) code_simp
  have allowed: "hg_refused demo_hg demo_hg_dl demo_default = None"
    using demo_hg_allowed [of "''s''"] by (simp add: demo_hg_dl_def)
  have run: "hv_run demo_hg ?w args env = (?w, [], None)" for args env by (simp add: demo_hg_def)
  have only: "fs_get (sys_fs ?w) ([''t''] @ [c]) = None" if "c \<noteq> ''_clone''" for c using that by (simp add: demo_clone_fs_def fs_get_def)
  have ok: "fs_ok (sys_fs ?w)" "fs_get (sys_fs ?w) [''t''] = Some (Dir 493)"
    "fs_get (sys_fs ?w) ([''t''] @ ''_clone'' # [''s'']) = Some (Dir 493)"
    "fs_get (sys_fs ?w) ([''t''] @ ''_clone'' # [''s''] @ [''_clone'']) = None"
    using demo_clone_fs_ok by (simp_all add: demo_clone_fs_def fs_get_def)
  obtain g where g: "hg_download demo_hg demo_hg_dl demo_default (abs_path [''t'']) ?w = (?w\<lparr>sys_fs := g\<rparr>, Inr False)"
    "\<forall>r. r \<noteq> [] \<longrightarrow> fs_get g ([''t''] @ r) = fs_get demo_clone_fs ([''t''] @ ''_clone'' # [''s''] @ r)"
    using hg_subdirectory_delivered [OF allowed sub _ _ run ok(1,2) only ok(3,4)] by (auto simp: demo_hg_def)
  have "fs_get g [''t'', ''f''] = Some (Regular 420 ''data'')" "fs_get g [''t'', ''_clone''] = None"
    using g(2) [rule_format, of "[''f'']"] g(2) [rule_format, of "[''_clone'']"] by (simp_all add: demo_clone_fs_def fs_get_def)
  then show ?thesis using g(1) by auto
qed

theorem hg_runs_checked_witness:
  "hg_args demo_hg_dl ''/t'' = [''clone'', ''--'', ''https://bitbucket.org/u/r'', ''/t''] \<and>
   \<not> no_system_fallback demo_default"
proof -
  let ?w = "\<lparr>sys_fs = demo_clone_fs, sys_net = ()\<rparr>"
  obtain w2 r where h: "hg_download demo_hg (demo_hg_dl\<lparr>hg_subdir := []\<rparr>) demo_default ''/t'' ?w = (w2, r)" by fastforce
  have "r = Inr False" using h demo_hg_allowed [of "[]"] by (simp add: hg_download_def demo_hg_def promote_subdir_def split: prod.splits)
  then show ?thesis using hg_runs_checked [OF h, of False] by (simp add: hg_args_def demo_hg_dl_def)
qed

end
