(* ===== verification/Object_Stores.thy ===== *)
theory Object_Stores
  imports Streams Git_Url
begin

text \<open>
  The object stores: S3 (\<^verbatim>\<open>protocols/s3/s3.go\<close>) and Google Cloud Storage (\<^verbatim>\<open>protocols/gcs/gcs.go\<close>).  The
  URLs they take, the client with its endpoint and credentials, the download of one object and of
  all objects under a prefix.  The clients of the two SDKs are parameters: they talk to the network
  and do not touch files.
\<close>

section \<open>S3 URLs\<close>

record s3_dl =
  s3_bucket :: string
  s3_key :: string
  s3_region :: string
  s3_endpoint :: string

definition parse_custom_endpoint_url :: "url \<Rightarrow> s3_dl result" where
  "parse_custom_endpoint_url u =
     (case cut_str (trim_prefix (u_path u) ''/'') ''/'' of
        (bucket, key, _) \<Rightarrow>
          let region = query_get (url_query u) ''region''
          in if bucket = [] then Inl (errors_new ''no bucket specified'')
             else Inr \<lparr>s3_bucket = bucket, s3_key = key, s3_region = (if region = [] then ''us-east-1'' else region),
                       s3_endpoint = u_scheme u @ ''://'' @ u_host u\<rparr>)"

text \<open>The index of the first label that is \<^verbatim>\<open>s3\<close>.\<close>

fun label_index :: "string list \<Rightarrow> nat option" where
  "label_index [] = None"
| "label_index (p # ps) = (if p = ''s3'' then Some 0 else map_option Suc (label_index ps))"

definition parse_s3_url :: "string \<Rightarrow> bool \<Rightarrow> s3_dl result" where
  "parse_s3_url raw custom =
     (if has_prefix raw ''s3://'' then
        let path = trim_prefix (trim_prefix raw ''s3://'') ''/''
        in if path = [] then Inl (errors_new ''no bucket specified'')
           else (case index_str path ''/'' of
                   None \<Rightarrow> Inr \<lparr>s3_bucket = path, s3_key = [], s3_region = [], s3_endpoint = []\<rparr>
                 | Some i \<Rightarrow> Inr \<lparr>s3_bucket = take i path, s3_key = drop (i + 1) path, s3_region = [], s3_endpoint = []\<rparr>)
      else case url_parse (if contains_str raw ''://'' then raw else ''https://'' @ raw) of
        None \<Rightarrow> Inl (errors_new ''parse'')
      | Some u \<Rightarrow>
          let host = to_lower (url_hostname u); parts = split_chr CHR ''.'' host
          in if \<not> contains_str host ''amazonaws.com''
             then (if \<not> custom then Inl (errors_new ''not an S3 URL'') else parse_custom_endpoint_url u)
             else case label_index parts of
               None \<Rightarrow> Inl (errors_new ''not an S3 URL'')
             | Some i \<Rightarrow>
                 let path = trim_prefix (u_path u) ''/'';
                     (bucket, key) =
                       (if i = 0
                        then (case index_str path ''/'' of None \<Rightarrow> (path, []) | Some j \<Rightarrow> (take j path, drop (j + 1) path))
                        else (join_str ''.'' (take i parts), path));
                     region = (if i + 1 < length parts \<and> parts ! (i + 1) \<noteq> ''amazonaws'' then parts ! (i + 1) else [])
                 in if bucket = [] then Inl (errors_new ''no bucket specified'')
                    else Inr \<lparr>s3_bucket = bucket, s3_key = key, s3_region = region, s3_endpoint = []\<rparr>)"

definition s3_detect :: "string \<Rightarrow> s3_dl option" where
  "s3_detect raw = (case parse_s3_url raw False of Inl _ \<Rightarrow> None | Inr d \<Rightarrow> Some d)"

definition s3_detect_forced :: "string \<Rightarrow> s3_dl option" where
  "s3_detect_forced raw = (case parse_s3_url raw True of Inl _ \<Rightarrow> None | Inr d \<Rightarrow> Some d)"

lemma parse_s3_url_forced:
  assumes "parse_s3_url raw False = Inr d"
  shows "parse_s3_url raw True = Inr d"
proof (cases "has_prefix raw ''s3://''")
  case True
  then show ?thesis using assms unfolding parse_s3_url_def by (simp only: if_True)
next
  case False
  let ?raw = "if contains_str raw ''://'' then raw else ''https://'' @ raw"
  show ?thesis
  proof (cases "url_parse ?raw")
    case None
    then show ?thesis using assms False unfolding parse_s3_url_def by (simp only: if_False option.case)
  next
    case (Some u)
    show ?thesis
    proof (cases "contains_str (to_lower (url_hostname u)) ''amazonaws.com''")
      case True
      then show ?thesis using assms False Some unfolding parse_s3_url_def Let_def
        by (simp only: if_False option.case simp_thms if_True)
    next
      case F: False
      then show ?thesis using assms False Some unfolding parse_s3_url_def Let_def by simp
    qed
  qed
qed

interpretation s3: forced_detector s3_detect s3_detect_forced
  by unfold_locales (auto simp: s3_detect_def s3_detect_forced_def parse_s3_url_forced split: sum.splits)

section \<open>The S3 client\<close>

datatype aws_auth = DefaultChain | StaticProvider string string string | AnonymousCredentials

text \<open>
  \<open>s3v_load\<close> is \<^verbatim>\<open>LoadDefaultConfig\<close>; a client is its configuration with the endpoint set for it.
  A paginator is a position in a listing, before the first page or after one: \<open>s3v_next\<close> gets the
  next page, \<open>s3v_more\<close> tells whether there is another one.
\<close>

record ('n, 'c, 'p) s3_env =
  s3v_load :: "string \<Rightarrow> aws_auth \<Rightarrow> 'c result"
  s3v_get :: "'n \<Rightarrow> 'c \<times> string option \<Rightarrow> string \<Rightarrow> string \<Rightarrow> 'n \<times> reader result"
  s3v_start :: "'c \<times> string option \<Rightarrow> string \<Rightarrow> string \<Rightarrow> 'p"
  s3v_more :: "'p \<Rightarrow> bool"
  s3v_next :: "'n \<Rightarrow> 'p \<Rightarrow> 'n \<times> ('p \<times> string option list) result"
  s3v_disk :: disk

definition resolve_region :: "s3_dl \<Rightarrow> 't settings \<Rightarrow> string" where
  "resolve_region d s =
     (if aws_region (aws_creds s) \<noteq> [] then aws_region (aws_creds s)
      else if s3_region d \<noteq> [] then s3_region d
      else ''us-east-1'')"

definition new_s3_client :: "('n, 'c, 'p) s3_env \<Rightarrow> s3_dl \<Rightarrow> 't settings \<Rightarrow> ('c \<times> string option) result" where
  "new_s3_client env d s =
     bind_result
       (s3v_load env (resolve_region d s)
         (if access_key_id (aws_creds s) \<noteq> []
          then StaticProvider (access_key_id (aws_creds s)) (secret_access_key (aws_creds s)) (session_token (aws_creds s))
          else if no_ambient_credentials s then AnonymousCredentials else DefaultChain))
       (\<lambda>cfg. Inr (cfg, if s3_endpoint d \<noteq> [] then Some (s3_endpoint d) else None))"

section \<open>S3 downloads\<close>

definition s3_download_file ::
    "('n, 'c, 'p) s3_env \<Rightarrow> 'c \<times> string option \<Rightarrow> s3_dl \<Rightarrow> int \<Rightarrow> 'n sys \<Rightarrow> string \<Rightarrow> string \<Rightarrow> 'n sys \<times> goerr option" where
  "s3_download_file env client d limit w key dst =
     (case s3v_get env (sys_net w) client (s3_bucket d) key of
        (n, Inl e) \<Rightarrow> (w\<lparr>sys_net := n\<rparr>, Some (wrap_err ''getting object s3://%s/%s: %w'' [s3_bucket d, key] e))
      | (n, Inr body) \<Rightarrow>
          (case save_object (s3v_disk env) (wrap_err ''downloading object s3://%s/%s: %w'' [s3_bucket d, key])
                  (sys_fs w) dst body limit of
             (f, e) \<Rightarrow> (w\<lparr>sys_net := n, sys_fs := f\<rparr>, e)))"

definition s3_object ::
    "('n, 'c, 'p) s3_env \<Rightarrow> 'c \<times> string option \<Rightarrow> s3_dl \<Rightarrow> int \<Rightarrow> string \<Rightarrow> 'n sys \<Rightarrow> string option \<Rightarrow> 'n sys \<times> goerr option" where
  "s3_object env client d limit tmp w obj =
     (case obj of
        None \<Rightarrow> (w, None)
      | Some key \<Rightarrow>
          let rel = trim_prefix key (s3_key d)
          in if rel = [] \<or> has_suffix rel ''/'' then (w, None)
             else case safe_join tmp rel of
               Inl e \<Rightarrow> (w, Some (wrap_err ''object s3://%s/%s: %w'' [s3_bucket d, key] e))
             | Inr dst \<Rightarrow> s3_download_file env client d limit w key dst)"

definition s3_page :: "('n, 'c, 'p) s3_env \<Rightarrow> s3_dl \<Rightarrow> 'n sys \<Rightarrow> 'p \<Rightarrow> 'n sys \<times> (string option list \<times> 'p option) result" where
  "s3_page env d w p =
     (case s3v_next env (sys_net w) p of
        (n, Inl e) \<Rightarrow> (w\<lparr>sys_net := n\<rparr>, Inl (wrap_err ''listing objects in s3://%s/%s: %w'' [s3_bucket d, s3_key d] e))
      | (n, Inr (q, objs)) \<Rightarrow> (w\<lparr>sys_net := n\<rparr>, Inr (objs, if s3v_more env q then Some q else None)))"

definition s3_download_dir ::
    "('n, 'c, 'p) s3_env \<Rightarrow> 'c \<times> string option \<Rightarrow> s3_dl \<Rightarrow> int \<Rightarrow> string \<Rightarrow> 'n sys \<Rightarrow> ('n sys \<times> goerr option) option" where
  "s3_download_dir env client d limit tmp w =
     (let start = s3v_start env client (s3_bucket d) (s3_key d)
      in if s3v_more env start then pages (s3_page env d) (s3_object env client d limit tmp) w start
         else Some (w, None))"

definition s3_download :: "('n, 'c, 'p) s3_env \<Rightarrow> s3_dl \<Rightarrow> 'n fetcher" where
  "s3_download env d s tmp w =
     (case new_s3_client env d s of
        Inl e \<Rightarrow> Some (w, Inl (wrap_err ''creating S3 client: %w'' [] e))
      | Inr client \<Rightarrow>
          if s3_key d = [] \<or> has_suffix (s3_key d) ''/''
          then map_option (\<lambda>r. failed r False) (s3_download_dir env client d (max_bytes s) tmp w)
          else Some (failed (s3_download_file env client d (max_bytes s) w (s3_key d) (path_join [tmp, path_base (s3_key d)])) True))"

definition s3_protocol :: "('n, 'c, 'p) s3_env \<Rightarrow> 'n protocol" where
  "s3_protocol env =
     \<lparr>pr_prefix = ''s3'', pr_priority = 70,
      pr_detect = (\<lambda>_ raw. map_option (s3_download env) (s3_detect raw)),
      pr_forced = Some (\<lambda>_ raw. map_option (s3_download env) (s3_detect_forced raw))\<rparr>"

section \<open>GCS URLs\<close>

record gcs_dl =
  gcs_bucket :: string
  gcs_key :: string
  gcs_endpoint :: string

definition split_bucket_key :: "string \<Rightarrow> string \<times> string" where
  "split_bucket_key path = (case cut_str (trim_prefix path ''/'') ''/'' of (bucket, key, _) \<Rightarrow> (bucket, key))"

definition parse_gcs_url :: "string \<Rightarrow> bool \<Rightarrow> gcs_dl result" where
  "parse_gcs_url raw forced =
     (case url_parse (if contains_str raw ''://'' then raw else ''https://'' @ raw) of
        None \<Rightarrow> Inl (errors_new ''parse'')
      | Some u \<Rightarrow>
          let host = to_lower (url_hostname u)
          in case (if host = ''storage.googleapis.com'' \<or> host = ''storage.cloud.google.com''
                   then Some (split_bucket_key (u_path u), [])
                   else if has_suffix host ''.storage.googleapis.com''
                   then Some ((trim_suffix host ''.storage.googleapis.com'', trim_prefix (u_path u) ''/''), [])
                   else if forced then Some (split_bucket_key (u_path u), u_scheme u @ ''://'' @ u_host u)
                   else None) of
               None \<Rightarrow> Inl (errors_new ''not a GCS URL'')
             | Some ((bucket, key), endpoint) \<Rightarrow>
                 if bucket = [] then Inl (errors_new ''no bucket specified'')
                 else Inr \<lparr>gcs_bucket = bucket, gcs_key = key, gcs_endpoint = endpoint\<rparr>)"

definition gcs_detect :: "string \<Rightarrow> gcs_dl option" where
  "gcs_detect raw = (case parse_gcs_url raw False of Inl _ \<Rightarrow> None | Inr d \<Rightarrow> Some d)"

definition gcs_detect_forced :: "string \<Rightarrow> gcs_dl option" where
  "gcs_detect_forced raw = (case parse_gcs_url raw True of Inl _ \<Rightarrow> None | Inr d \<Rightarrow> Some d)"

interpretation gcs: forced_detector gcs_detect gcs_detect_forced
  by unfold_locales
    (auto simp: gcs_detect_def gcs_detect_forced_def parse_gcs_url_def Let_def split: if_splits option.splits sum.splits prod.splits)

section \<open>The GCS client\<close>

datatype gcs_auth = WithTokenSource string | WithoutAuthentication

text \<open>
  \<open>gv_json\<close> is the syntax check of \<^verbatim>\<open>json.Unmarshal\<close>, \<open>gv_key\<close> the token source of a service account
  key, \<open>gv_ambient\<close> the default credentials, and \<open>gv_service\<close> the client for an endpoint (empty for
  Google's own) and an authentication.
\<close>

record ('n, 'c) gcs_env =
  gv_json :: "string \<Rightarrow> goerr option"
  gv_key :: "string \<Rightarrow> string result"
  gv_ambient :: "string result"
  gv_service :: "string \<Rightarrow> gcs_auth \<Rightarrow> 'c result"
  gv_get :: "'n \<Rightarrow> 'c \<Rightarrow> string \<Rightarrow> string \<Rightarrow> 'n \<times> reader result"
  gv_list :: "'n \<Rightarrow> 'c \<Rightarrow> string \<Rightarrow> string \<Rightarrow> string \<Rightarrow> 'n \<times> (string list \<times> string) result"
  gv_disk :: disk

definition auth_option :: "('n, 'c) gcs_env \<Rightarrow> 't settings \<Rightarrow> string \<Rightarrow> gcs_auth result" where
  "auth_option env s endpoint =
     (let key = service_account_key (gcp_creds s)
      in if key \<noteq> [] then
           (case gv_json env key of
              Some e \<Rightarrow> Inl (wrap_err ''invalid service account key JSON: %w'' [] e)
            | None \<Rightarrow>
                (case gv_key env key of
                   Inl e \<Rightarrow> Inl (wrap_err ''parsing service account key: %w'' [] e)
                 | Inr ts \<Rightarrow> Inr (WithTokenSource ts)))
         else if endpoint \<noteq> [] \<or> no_ambient_credentials s then Inr WithoutAuthentication
         else (case gv_ambient env of Inl _ \<Rightarrow> Inr WithoutAuthentication | Inr ts \<Rightarrow> Inr (WithTokenSource ts)))"

definition service_endpoint :: "gcs_dl \<Rightarrow> 't settings \<Rightarrow> string" where
  "service_endpoint d s = (if gcs_endpoint d = [] then gcp_endpoint (gcp_creds s) else gcs_endpoint d)"

definition new_service :: "('n, 'c) gcs_env \<Rightarrow> gcs_dl \<Rightarrow> 't settings \<Rightarrow> 'c result" where
  "new_service env d s =
     bind_result (auth_option env s (service_endpoint d s)) (gv_service env (service_endpoint d s))"

section \<open>GCS downloads\<close>

definition gcs_download_file ::
    "('n, 'c) gcs_env \<Rightarrow> 'c \<Rightarrow> gcs_dl \<Rightarrow> int \<Rightarrow> 'n sys \<Rightarrow> string \<Rightarrow> string \<Rightarrow> 'n sys \<times> goerr option" where
  "gcs_download_file env svc d limit w key dst =
     (case gv_get env (sys_net w) svc (gcs_bucket d) key of
        (n, Inl e) \<Rightarrow> (w\<lparr>sys_net := n\<rparr>, Some (wrap_err ''getting object gs://%s/%s: %w'' [gcs_bucket d, key] e))
      | (n, Inr body) \<Rightarrow>
          (case save_object (gv_disk env) (wrap_err ''downloading object gs://%s/%s: %w'' [gcs_bucket d, key])
                  (sys_fs w) dst body limit of
             (f, e) \<Rightarrow> (w\<lparr>sys_net := n, sys_fs := f\<rparr>, e)))"

definition gcs_object ::
    "('n, 'c) gcs_env \<Rightarrow> 'c \<Rightarrow> gcs_dl \<Rightarrow> int \<Rightarrow> string \<Rightarrow> 'n sys \<Rightarrow> string \<Rightarrow> 'n sys \<times> goerr option" where
  "gcs_object env svc d limit tmp w name =
     (let rel = trim_prefix name (gcs_key d)
      in if rel = [] \<or> has_suffix rel ''/'' then (w, None)
         else case safe_join tmp rel of
           Inl e \<Rightarrow> (w, Some (wrap_err ''object gs://%s/%s: %w'' [gcs_bucket d, name] e))
         | Inr dst \<Rightarrow> gcs_download_file env svc d limit w name dst)"

definition gcs_page :: "('n, 'c) gcs_env \<Rightarrow> 'c \<Rightarrow> gcs_dl \<Rightarrow> 'n sys \<Rightarrow> string \<Rightarrow> 'n sys \<times> (string list \<times> string option) result" where
  "gcs_page env svc d w token =
     (case gv_list env (sys_net w) svc (gcs_bucket d) (gcs_key d) token of
        (n, Inl e) \<Rightarrow> (w\<lparr>sys_net := n\<rparr>, Inl (wrap_err ''listing objects in gs://%s/%s: %w'' [gcs_bucket d, gcs_key d] e))
      | (n, Inr (names, next_token)) \<Rightarrow>
          (w\<lparr>sys_net := n\<rparr>, Inr (names, if next_token = [] then None else Some next_token)))"

definition gcs_download_dir ::
    "('n, 'c) gcs_env \<Rightarrow> 'c \<Rightarrow> gcs_dl \<Rightarrow> int \<Rightarrow> string \<Rightarrow> 'n sys \<Rightarrow> ('n sys \<times> goerr option) option" where
  "gcs_download_dir env svc d limit tmp w = pages (gcs_page env svc d) (gcs_object env svc d limit tmp) w []"

definition gcs_download :: "('n, 'c) gcs_env \<Rightarrow> gcs_dl \<Rightarrow> 'n fetcher" where
  "gcs_download env d s tmp w =
     (case new_service env d s of
        Inl e \<Rightarrow> Some (w, Inl (wrap_err ''creating GCS client: %w'' [] e))
      | Inr svc \<Rightarrow>
          if gcs_key d = [] \<or> has_suffix (gcs_key d) ''/''
          then map_option (\<lambda>r. failed r False) (gcs_download_dir env svc d (max_bytes s) tmp w)
          else Some (failed (gcs_download_file env svc d (max_bytes s) w (gcs_key d) (path_join [tmp, path_base (gcs_key d)])) True))"

definition gcs_protocol :: "('n, 'c) gcs_env \<Rightarrow> 'n protocol" where
  "gcs_protocol env =
     \<lparr>pr_prefix = ''gcs'', pr_priority = 60,
      pr_detect = (\<lambda>_ raw. map_option (gcs_download env) (gcs_detect raw)),
      pr_forced = Some (\<lambda>_ raw. map_option (gcs_download env) (gcs_detect_forced raw))\<rparr>"

section \<open>Files stay below the directory\<close>

definition stays_below :: "fpath \<Rightarrow> fs \<Rightarrow> 'n sys \<Rightarrow> bool" where
  "stays_below root f w \<longleftrightarrow> plain_comps root \<and> confined root f (sys_fs w) \<and> link_free root (sys_fs w)"

lemma stays_below_net [simp]: "stays_below root f (w\<lparr>sys_net := n\<rparr>) = stays_below root f w"
  by (simp add: stays_below_def)

lemma saved_below:
  assumes "stays_below root f w" and "safe_join (abs_path root) rel = Inr dst"
    and "save_object disk x (sys_fs w) dst body limit = (g, e)"
  shows "stays_below root f (w\<lparr>sys_net := n, sys_fs := g\<rparr>)"
proof -
  have root: "plain_comps root" "link_free root (sys_fs w)" "confined root f (sys_fs w)"
    using assms(1) by (simp_all add: stays_below_def)
  obtain q where q: "dst = abs_path (root @ q)" "plain_comps (root @ q)"
    using safe_join_abs [OF assms(2) root(1)] by blast
  have "confined root (sys_fs w) g \<and> link_free root g"
    using save_object_confined [OF q(2) _ root(2)] assms(3) q(1) by simp
  then show ?thesis using root(1,3) by (auto simp: stays_below_def intro: confined_trans)
qed

lemma s3_file_below:
  assumes "stays_below root f w" and "safe_join (abs_path root) rel = Inr dst"
  shows "stays_below root f (fst (s3_download_file env client d limit w key dst))"
  using saved_below [OF assms] assms(1) by (simp add: s3_download_file_def split: prod.split sum.split)

lemma gcs_file_below:
  assumes "stays_below root f w" and "safe_join (abs_path root) rel = Inr dst"
  shows "stays_below root f (fst (gcs_download_file env svc d limit w key dst))"
  using saved_below [OF assms] assms(1) by (simp add: gcs_download_file_def split: prod.split sum.split)

interpretation s3_listing: paged_store "s3_page env d" "s3_object env client d limit (abs_path root)" "stays_below root f"
proof unfold_locales
  show "stays_below root f (fst (s3_page env d w p))" if "stays_below root f w" for w p
    using that by (simp add: s3_page_def split: prod.split sum.split)
  show "stays_below root f (fst (s3_object env client d limit (abs_path root) w obj))" if "stays_below root f w" for w obj
    using that by (auto simp: s3_object_def Let_def intro: s3_file_below split: option.split sum.split)
qed

interpretation gcs_listing: paged_store "gcs_page env svc d" "gcs_object env svc d limit (abs_path root)" "stays_below root f"
proof unfold_locales
  show "stays_below root f (fst (gcs_page env svc d w p))" if "stays_below root f w" for w p
    using that by (simp add: gcs_page_def split: prod.split sum.split)
  show "stays_below root f (fst (gcs_object env svc d limit (abs_path root) w obj))" if "stays_below root f w" for w obj
    using that by (auto simp: gcs_object_def Let_def intro: gcs_file_below split: sum.split)
qed

text \<open>A single object goes to the base name of its key, which may be a dot name.\<close>

lemma key_base:
  assumes "k \<noteq> []" and "\<not> has_suffix k ''/''"
  shows "plain_comps [path_base k] \<or> path_base k = ''.'' \<or> path_base k = ''..''"
proof -
  let ?b = "last (split_chr CHR ''/'' k)"
  have l: "last k \<noteq> CHR ''/''" using assms by (metis append_butlast_last_id has_suffix_iff)
  then have t: "trim_right (\<lambda>c. c = CHR ''/'') k = k" using assms(1) by (simp add: trim_right_id)
  have ne: "?b \<noteq> []"
  proof
    assume e: "?b = []"
    obtain xs where xs: "split_chr CHR ''/'' k = xs @ [?b]"
      using split_chr_not_Nil [of "CHR ''/''" k] append_butlast_last_id by metis
    have k: "k = join_str ''/'' (xs @ [[]])" using join_split [of "CHR ''/''" k] xs e by simp
    then show False using l assms(1) by (cases "xs = []") (simp_all add: join_str_append)
  qed
  moreover have "CHR ''/'' \<notin> set ?b" using split_chr_no_sep last_in_set [OF split_chr_not_Nil] by metis
  moreover have "path_base k = ?b" using t ne assms(1) by (simp add: path_base_def)
  ultimately show ?thesis by (auto simp: plain_comps_def proper_comp_def)
qed

lemma object_confined:
  assumes "placed f root" and "fs_get f root = Some (Dir m)" and "link_free root f"
    and "k \<noteq> []" and "\<not> has_suffix k ''/''" and "save_object disk x f (path_join [abs_path root, path_base k]) body limit = (g, e)"
  shows "confined root f g"
proof -
  note root = placed_plain [OF assms(1)]
  consider "plain_comps [path_base k]" | "path_base k = ''.''" | "path_base k = ''..''" using key_base [OF assms(4,5)] by blast
  then show ?thesis
  proof cases
    case 1
    then have "path_join [abs_path root, path_base k] = abs_path (root @ [path_base k])"
      using join_abs_rel [OF root 1] by simp
    then show ?thesis using save_object_confined [of "root @ [path_base k]" root f] 1 root assms(3,6) by simp
  next
    case 2
    have "path_join [abs_path root, ''.''] = abs_path root" by (rule join_dot [OF root])
    then show ?thesis using save_object_confined [OF root _ assms(3)] assms(6) 2 by simp
  next
    case 3
    obtain m1 where up: "placed f (butlast root)" "fs_get f (butlast root) = Some (Dir m1)" using parent_dir [OF assms(1,2)] .
    obtain m2 where up2: "placed f (butlast (butlast root))" "fs_get f (butlast (butlast root)) = Some (Dir m2)"
      using parent_dir [OF up] .
    have "mkdir_all f (path_dir (path_join [abs_path root, ''..''])) 493 = (f, None)"
      using mkdir_all_existing [OF up2] path_dir_abs [OF placed_plain [OF up(1)]] by (simp add: join_dotdot [OF root])
    then show ?thesis using assms(6) 3 create_dotdot [OF assms(1,2)] save_stream_error by (simp add: save_object_def)
  qed
qed

section \<open>Addressing\<close>

lemma parse_https_plain:
  assumes "list_all is_scp_host_char h" and "list_all is_path_char p"
  shows "url_parse (''https://'' @ h @ ''/'' @ p) = Some (plain_url ''https'' None h p)"
proof -
  have "list_all is_auth_char h" using assms(1) by (auto simp: list_all_iff is_auth_char_def)
  then show ?thesis using parse_plain [of "''https''" h None h p] assms by (simp add: parse_authority_plain)
qed

lemma plain_url_host:
  "list_all is_scp_host_char h \<Longrightarrow> url_hostname (plain_url sch user h p) = h"
  using hostname_plain(1) [of "plain_url sch user h p"] by (simp add: plain_url_def)

lemma contains_mid: "contains_str (a @ x @ b) x"
  unfolding contains_str_iff by blast

lemma label_index_append: "''s3'' \<notin> set xs \<Longrightarrow> label_index (xs @ ''s3'' # ys) = Some (length xs)"
  by (induction xs) auto

text \<open>What an AWS host and path stand for: the region of the endpoint and the two styles.\<close>

lemma parse_s3_host:
  assumes "list_all is_scp_host_char h" and "to_lower h = h" and "list_all is_path_char p"
    and "split_chr CHR ''.'' h = xs @ ''s3'' # ys" and "''s3'' \<notin> set xs" and "contains_str h ''amazonaws.com''"
  shows "parse_s3_url (''https://'' @ h @ ''/'' @ p) c =
     (let (bucket, key) =
        (if xs = [] then (case index_str p ''/'' of None \<Rightarrow> (p, []) | Some j \<Rightarrow> (take j p, drop (j + 1) p))
         else (join_str ''.'' xs, p));
        region = (if ys \<noteq> [] \<and> hd ys \<noteq> ''amazonaws'' then hd ys else [])
      in if bucket = [] then Inl (errors_new ''no bucket specified'')
         else Inr \<lparr>s3_bucket = bucket, s3_key = key, s3_region = region, s3_endpoint = []\<rparr>)"
proof -
  have a: "contains_str (''https://'' @ h @ ''/'' @ p) ''://''"
    using contains_mid [of "''https''" "''://''" "h @ ''/'' @ p"] by simp
  have b: "\<not> has_prefix (''https://'' @ h @ ''/'' @ p) ''s3://''" by (simp add: has_prefix_iff)
  have i: "label_index (split_chr CHR ''.'' h) = Some (length xs)" using label_index_append [OF assms(5)] assms(4) by simp
  have path: "trim_prefix (u_path (plain_url ''https'' None h p)) ''/'' = p"
    using trim_prefix_append [of "''/''" p] by (simp add: plain_url_def)
  have r: "(if length xs + 1 < length (split_chr CHR ''.'' h) \<and> split_chr CHR ''.'' h ! (length xs + 1) \<noteq> ''amazonaws''
      then split_chr CHR ''.'' h ! (length xs + 1) else []) = (if ys \<noteq> [] \<and> hd ys \<noteq> ''amazonaws'' then hd ys else [])"
    unfolding assms(4) by (cases ys) (simp_all add: nth_append)
  show ?thesis
    unfolding parse_s3_url_def
    by (simp only: a b if_True if_False parse_https_plain [OF assms(1,3)] option.case plain_url_host [OF assms(1)] assms(2,6)
        Let_def i path r simp_thms) (simp add: assms(4))
qed

section \<open>Properties\<close>

text \<open>
  C10. Downloading from S3, an object or everything under a prefix, changes nothing outside the
  temporary directory, whatever the keys of the listing and the pages are.
\<close>

theorem s3_download_confined:
  assumes "placed (sys_fs w) root" and "fs_get (sys_fs w) root = Some (Dir m)" and "link_free root (sys_fs w)"
    and "s3_download env d s (abs_path root) w = Some (w2, r)"
  shows "confined root (sys_fs w) (sys_fs w2)"
proof -
  have start: "stays_below root (sys_fs w) w" using placed_plain [OF assms(1)] assms(3) by (simp add: stays_below_def)
  show ?thesis
  proof (cases "new_s3_client env d s")
    case (Inr client)
    show ?thesis
    proof (cases "s3_key d = [] \<or> has_suffix (s3_key d) ''/''")
      case True
      then obtain e where "s3_download_dir env client d (max_bytes s) (abs_path root) w = Some (w2, e)"
        using assms(4) Inr by (auto simp: s3_download_def failed_def split: option.splits)
      then have "w2 = w \<or> stays_below root (sys_fs w) w2"
        using s3_listing.pages_keep [OF _ start] by (fastforce simp: s3_download_dir_def Let_def split: if_splits)
      then show ?thesis by (auto simp: stays_below_def)
    next
      case False
      obtain w3 e where w3: "s3_download_file env client d (max_bytes s) w (s3_key d) (path_join [abs_path root, path_base (s3_key d)]) = (w3, e)"
        by fastforce
      then have "confined root (sys_fs w) (sys_fs w3)"
        using object_confined [OF assms(1-3), of "s3_key d"] False
        by (auto simp: s3_download_file_def split: prod.splits sum.splits)
      then show ?thesis using assms(4) Inr False w3 by (auto simp: s3_download_def failed_def split: option.splits)
    qed
  qed (use assms(4) in \<open>simp add: s3_download_def\<close>)
qed

text \<open>The same holds for Google Cloud Storage.\<close>

theorem gcs_download_confined:
  assumes "placed (sys_fs w) root" and "fs_get (sys_fs w) root = Some (Dir m)" and "link_free root (sys_fs w)"
    and "gcs_download env d s (abs_path root) w = Some (w2, r)"
  shows "confined root (sys_fs w) (sys_fs w2)"
proof -
  have start: "stays_below root (sys_fs w) w" using placed_plain [OF assms(1)] assms(3) by (simp add: stays_below_def)
  show ?thesis
  proof (cases "new_service env d s")
    case (Inr svc)
    show ?thesis
    proof (cases "gcs_key d = [] \<or> has_suffix (gcs_key d) ''/''")
      case True
      then obtain e where "gcs_download_dir env svc d (max_bytes s) (abs_path root) w = Some (w2, e)"
        using assms(4) Inr by (auto simp: gcs_download_def failed_def split: option.splits)
      then have "stays_below root (sys_fs w) w2"
        using gcs_listing.pages_keep [OF _ start] by (fastforce simp: gcs_download_dir_def)
      then show ?thesis by (simp add: stays_below_def)
    next
      case False
      obtain w3 e where w3: "gcs_download_file env svc d (max_bytes s) w (gcs_key d) (path_join [abs_path root, path_base (gcs_key d)]) = (w3, e)"
        by fastforce
      then have "confined root (sys_fs w) (sys_fs w3)"
        using object_confined [OF assms(1-3), of "gcs_key d"] False
        by (auto simp: gcs_download_file_def split: prod.splits sum.splits)
      then show ?thesis using assms(4) Inr False w3 by (auto simp: gcs_download_def failed_def split: option.splits)
    qed
  qed (use assms(4) in \<open>simp add: gcs_download_def\<close>)
qed

text \<open>
  What the service holds, as it is documented: a listing in pages, each but the last with the token
  of the next, that ends with no token; and for every name its content.
\<close>

inductive gcs_lists :: "('n, 'c) gcs_env \<Rightarrow> 'c \<Rightarrow> gcs_dl \<Rightarrow> string \<Rightarrow> string list \<Rightarrow> bool" for env svc d where
  last_page: "(\<And>n. \<exists>n'. gv_list env n svc (gcs_bucket d) (gcs_key d) token = (n', Inr (names, []))) \<Longrightarrow>
    gcs_lists env svc d token names"
| page: "(\<And>n. \<exists>n'. gv_list env n svc (gcs_bucket d) (gcs_key d) token = (n', Inr (names, following))) \<Longrightarrow>
    following \<noteq> [] \<Longrightarrow> gcs_lists env svc d following rest \<Longrightarrow> gcs_lists env svc d token (names @ rest)"

lemma gcs_lists_listing: "gcs_lists env svc d token names \<Longrightarrow> listing (gcs_page env svc d) sys_fs token names"
proof (induction rule: gcs_lists.induct)
  case (last_page token names)
  have "\<exists>w1. gcs_page env svc d w token = (w1, Inr (names, None)) \<and> sys_fs w1 = sys_fs w" for w
    using last_page [of "sys_net w"] by (auto simp: gcs_page_def)
  then show ?case by (rule listing.last_page)
next
  case (page token names following rest)
  have "\<exists>w1. gcs_page env svc d w token = (w1, Inr (names, Some following)) \<and> sys_fs w1 = sys_fs w" for w
    using page(1) [of "sys_net w"] page(2) by (auto simp: gcs_page_def)
  then show ?case by (rule listing.page) (rule page.IH)
qed

text \<open>
  The file an object stands for: at its name below the prefix; the prefix itself and what ends
  with a slash stand for none.
\<close>

definition gcs_item :: "gcs_dl \<Rightarrow> (string \<Rightarrow> string) \<Rightarrow> fpath \<Rightarrow> string \<Rightarrow> item option" where
  "gcs_item d content root name =
     (let rel = trim_prefix name (gcs_key d)
      in if rel = [] \<or> has_suffix rel ''/'' then None else Some (File_At (target_of root rel) 438 (content name)))"

definition gcs_sound :: "('n, 'c) gcs_env \<Rightarrow> 'c \<Rightarrow> gcs_dl \<Rightarrow> int \<Rightarrow> (string \<Rightarrow> string) \<Rightarrow> fpath \<Rightarrow> string \<Rightarrow> bool" where
  "gcs_sound env svc d limit content root name \<longleftrightarrow>
     plain_comps root \<and> root \<noteq> [] \<and> prefix root (target_of root (trim_prefix name (gcs_key d))) \<and>
     (\<forall>n. \<exists>n'. gv_get env n svc (gcs_bucket d) name = (n', Inr (file_reader (content name)))) \<and>
     (\<forall>q. gv_disk env q = None) \<and> (limit \<le> 0 \<or> int (length (content name)) \<le> limit \<and> limit < max_int64)"

interpretation gcs_objects: laying_store "gcs_page env svc d" "gcs_object env svc d limit (abs_path root)" sys_fs
  "gcs_item d content root" "gcs_sound env svc d limit content root"
proof unfold_locales
  fix w :: "'a sys" and name
  assume ok: "fs_ok (sys_fs w)" and sound: "gcs_sound env svc d limit content root name"
    and fit: "\<And>i. gcs_item d content root name = Some i \<Longrightarrow> fits (fs_get (sys_fs w)) i"
  let ?rel = "trim_prefix name (gcs_key d)"
  let ?q = "target_of root ?rel"
  show "\<exists>w1. gcs_object env svc d limit (abs_path root) w name = (w1, None) \<and> fs_ok (sys_fs w1) \<and>
      fs_get (sys_fs w1) =
        (case gcs_item d content root name of None \<Rightarrow> fs_get (sys_fs w) | Some i \<Rightarrow> lay (fs_get (sys_fs w)) i)"
  proof (cases "?rel = [] \<or> has_suffix ?rel ''/''")
    case True
    then show ?thesis using ok by (auto simp: gcs_object_def gcs_item_def Let_def)
  next
    case False
    have join: "safe_join (abs_path root) ?rel = Inr (abs_path ?q)"
      using sound by (intro safe_join_inside) (auto simp: gcs_sound_def)
    obtain n' where get: "gv_get env (sys_net w) svc (gcs_bucket d) name = (n', Inr (file_reader (content name)))"
      using sound unfolding gcs_sound_def by blast
    let ?copying = "wrap_err ''downloading object gs://%s/%s: %w'' [gcs_bucket d, name]"
    obtain g where g: "save_object (gv_disk env) ?copying (sys_fs w) (abs_path ?q) (file_reader (content name)) limit = (g, None)"
      "fs_ok g" "fs_get g = lay (fs_get (sys_fs w)) (File_At ?q 438 (content name))"
      using save_object_lays [OF ok, of ?q "file_reader (content name)" "gv_disk env" limit ?copying] fit sound False
      by (auto simp: gcs_sound_def gcs_item_def Let_def)
    show ?thesis
      by (rule exI [of _ "w\<lparr>sys_net := n', sys_fs := g\<rparr>"])
        (use False join get g in \<open>simp add: gcs_object_def gcs_item_def gcs_download_file_def Let_def del: lay.simps\<close>)
  qed
qed

text \<open>
  C39. Everything under a prefix is downloaded.  From a service that lists names in finitely many
  pages and has a content for each, with names that lead below the destination and do not
  stand in each other's way, and contents within the limit (or no limit), the download ends without
  an error, and the disk is as it was with the objects of all pages laid out below the destination:
  each file at its name without the prefix, with its whole content, and the directories above it.
  Names that end with a slash, the prefix itself among them, are no files.
\<close>

theorem gcs_prefix_delivered:
  assumes "new_service env d s = Inr svc" and "gcs_key d = [] \<or> has_suffix (gcs_key d) ''/''"
    and "gcs_lists env svc d [] names"
    and "plain_comps root" and "root \<noteq> []" and "fs_ok (sys_fs w)"
    and "\<And>name. name \<in> set names \<Longrightarrow> prefix root (target_of root (trim_prefix name (gcs_key d)))"
    and "\<And>name n. name \<in> set names \<Longrightarrow> \<exists>n'. gv_get env n svc (gcs_bucket d) name = (n', Inr (file_reader (content name)))"
    and "\<And>name. name \<in> set names \<Longrightarrow> max_bytes s \<le> 0 \<or> int (length (content name)) \<le> max_bytes s \<and> max_bytes s < max_int64"
    and "\<And>q. gv_disk env q = None"
    and "all_fit (fs_get (sys_fs w)) (List.map_filter (gcs_item d content root) names)"
  shows "\<exists>w2. gcs_download env d s (abs_path root) w = Some (w2, Inr False) \<and>
    fs_get (sys_fs w2) = foldl lay (fs_get (sys_fs w)) (List.map_filter (gcs_item d content root) names)"
proof -
  have "\<forall>name\<in>set names. gcs_sound env svc d (max_bytes s) content root name"
    using assms(4,5,7-10) by (auto simp: gcs_sound_def)
  then obtain w2 where "gcs_download_dir env svc d (max_bytes s) (abs_path root) w = Some (w2, None)"
    "fs_get (sys_fs w2) = foldl lay (fs_get (sys_fs w)) (List.map_filter (gcs_item d content root) names)"
    using gcs_objects.pages_lay [OF gcs_lists_listing [OF assms(3)] assms(6) _ assms(11)] unfolding gcs_download_dir_def by blast
  then show ?thesis using assms(1,2) by (simp add: gcs_download_def failed_def)
qed

text \<open>
  C37. The three ways to address an object in S3 come to the same: the scheme, the path below the
  endpoint, and the bucket as a subdomain, with the region only where the host names one.
\<close>

theorem s3_forms_agree:
  assumes "b \<noteq> []" and "list_all is_scp_host_char b" and "to_lower b = b" and "''s3'' \<notin> set (split_chr CHR ''.'' b)"
    and "list_all is_path_char k"
  shows "s3_detect (''s3://'' @ b @ ''/'' @ k) = Some \<lparr>s3_bucket = b, s3_key = k, s3_region = [], s3_endpoint = []\<rparr> \<and>
    s3_detect (''https://s3.amazonaws.com/'' @ b @ ''/'' @ k) = s3_detect (''s3://'' @ b @ ''/'' @ k) \<and>
    s3_detect (''https://'' @ b @ ''.s3.amazonaws.com/'' @ k) = s3_detect (''s3://'' @ b @ ''/'' @ k)"
proof -
  let ?d = "\<lparr>s3_bucket = b, s3_key = k, s3_region = [], s3_endpoint = []\<rparr>"
  have slash: "CHR ''/'' \<notin> set b" using path_chars_not [OF host_chars_path [OF assms(2)]] assms(2) by (auto simp: list_all_iff char_class_simps)
  have i: "index_str (b @ ''/'' @ k) ''/'' = Some (length b)" using index_chr_first [OF slash, of k] by simp
  have "trim_prefix (''s3://'' @ b @ ''/'' @ k) ''s3://'' = b @ ''/'' @ k" by (rule trim_prefix_append)
  moreover have "trim_prefix (b @ ''/'' @ k) ''/'' = b @ ''/'' @ k"
    using assms(1) slash by (cases b) (auto simp: trim_prefix_def)
  moreover have "has_prefix (''s3://'' @ b @ ''/'' @ k) ''s3://''" by (rule has_prefix_append)
  ultimately have "parse_s3_url (''s3://'' @ b @ ''/'' @ k) False = Inr ?d"
    unfolding parse_s3_url_def by (simp only: if_True Let_def i option.case) simp
  then have 1: "s3_detect (''s3://'' @ b @ ''/'' @ k) = Some ?d" by (simp add: s3_detect_def)
  have aws: "split_chr CHR ''.'' ''s3.amazonaws.com'' = [] @ ''s3'' # [''amazonaws'', ''com'']"
    "list_all is_scp_host_char ''s3.amazonaws.com''" "to_lower ''s3.amazonaws.com'' = ''s3.amazonaws.com''"
    "contains_str ''s3.amazonaws.com'' ''amazonaws.com''" "split_chr CHR ''.'' ''amazonaws.com'' = [''amazonaws'', ''com'']"
    by code_simp+
  have "list_all is_path_char (b @ ''/'' @ k)"
    using assms(5) host_chars_path [OF assms(2)] by (simp add: is_path_char_def)
  from parse_s3_host [OF aws(2,3) this aws(1) _ aws(4), of False] i assms(1)
  have "parse_s3_url (''https://s3.amazonaws.com/'' @ b @ ''/'' @ k) False = Inr ?d" by simp
  then have 2: "s3_detect (''https://s3.amazonaws.com/'' @ b @ ''/'' @ k) = Some ?d" by (simp add: s3_detect_def)
  let ?h = "b @ ''.s3.amazonaws.com''"
  have h: "list_all is_scp_host_char ?h" "to_lower ?h = ?h"
    using assms(2,3) aws(2,3) by (auto simp: to_lower_def is_scp_host_char_def lower_char_def is_upper_def)
  have s: "split_chr CHR ''.'' ?h = split_chr CHR ''.'' b @ ''s3'' # [''amazonaws'', ''com'']"
    using split_chr_append_sep [of "CHR ''.''" b "''s3.amazonaws.com''"] aws(1) by simp
  have c: "contains_str ?h ''amazonaws.com''" using contains_mid [of "b @ ''.s3.''" "''amazonaws.com''" "[]"] by simp
  from parse_s3_host [OF h assms(5) s assms(4) c, of False] assms(1)
  have "parse_s3_url (''https://'' @ b @ ''.s3.amazonaws.com/'' @ k) False = Inr ?d"
    using join_split [of "CHR ''.''" b] by simp
  then have 3: "s3_detect (''https://'' @ b @ ''.s3.amazonaws.com/'' @ k) = Some ?d" by (simp add: s3_detect_def)
  show ?thesis using 1 2 3 by simp
qed

section \<open>What the code does beyond its purpose\<close>

text \<open>
  With its prefix, a URL names the host that is connected to, and no guard judges it: neither
  \<^verbatim>\<open>newClient\<close> nor \<^verbatim>\<open>newService\<close> asks \<^verbatim>\<open>ssrf\<close>.
\<close>

lemma forced_endpoint_unchecked:
  "s3_detect_forced ''http://169.254.169.254/latest/meta-data'' =
     Some \<lparr>s3_bucket = ''latest'', s3_key = ''meta-data'', s3_region = ''us-east-1'', s3_endpoint = ''http://169.254.169.254''\<rparr>"
  "gcs_detect_forced ''http://169.254.169.254/latest/meta-data'' =
     Some \<lparr>gcs_bucket = ''latest'', gcs_key = ''meta-data'', gcs_endpoint = ''http://169.254.169.254''\<rparr>"
  by code_simp+

text \<open>A configured service account key authenticates to whatever endpoint the URL names.\<close>

lemma forced_endpoint_gets_token:
  assumes "service_account_key (gcp_creds s) \<noteq> []" and "gv_json env (service_account_key (gcp_creds s)) = None"
    and "gv_key env (service_account_key (gcp_creds s)) = Inr ts" and "gcs_endpoint d \<noteq> []"
  shows "new_service env d s = gv_service env (gcs_endpoint d) (WithTokenSource ts)"
  using assms by (simp add: new_service_def auth_option_def service_endpoint_def)

text \<open>A bucket with a label \<^verbatim>\<open>s3\<close> is cut at it, and a dual-stack endpoint is taken for a region.\<close>

lemma s3_label_misread:
  "s3_detect ''https://my.s3.data.s3.amazonaws.com/k'' =
     Some \<lparr>s3_bucket = ''my'', s3_key = ''k'', s3_region = ''data'', s3_endpoint = []\<rparr>"
  "s3_detect ''https://s3.dualstack.us-west-2.amazonaws.com/b/k'' =
     Some \<lparr>s3_bucket = ''b'', s3_key = ''k'', s3_region = ''dualstack'', s3_endpoint = []\<rparr>"
  "s3_detect ''s3:////k'' = Some \<lparr>s3_bucket = [], s3_key = ''k'', s3_region = [], s3_endpoint = []\<rparr>"
  by code_simp+

section \<open>Concrete instances\<close>

text \<open>A bucket of which a page lists an object and one with a key that climbs.\<close>

definition demo_s3 :: "(unit, unit, nat) s3_env" where
  "demo_s3 =
     \<lparr>s3v_load = (\<lambda>_ _. Inr ()), s3v_get = (\<lambda>n _ _ _. (n, Inr (file_reader ''x''))), s3v_start = (\<lambda>_ _ _. 0),
      s3v_more = (\<lambda>p. p = 0), s3v_next = (\<lambda>n p. (n, Inr (1, [None, Some ''p/f'', Some ''p/../x'']))), s3v_disk = (\<lambda>_. None)\<rparr>"

definition demo_gcs :: "(unit, unit) gcs_env" where
  "demo_gcs =
     \<lparr>gv_json = (\<lambda>_. None), gv_key = (\<lambda>_. Inr []), gv_ambient = Inl (errors_new ''none''), gv_service = (\<lambda>_ _. Inr ()),
      gv_get = (\<lambda>n _ _ _. (n, Inr (file_reader ''x''))),
      gv_list = (\<lambda>n _ _ _ _. (n, Inr ([''p/f'', ''p/../x''], []))), gv_disk = (\<lambda>_. None)\<rparr>"

definition demo_bucket_fs :: fs where
  "demo_bucket_fs = \<lparr>fs_nodes = [([''t''], Dir 493)], fs_cwd = []\<rparr>"

abbreviation bucket_sys :: "fs \<Rightarrow> unit sys" where
  "bucket_sys f \<equiv> \<lparr>sys_fs = f, sys_net = ()\<rparr>"

lemma demo_bucket_ok: "placed demo_bucket_fs [''t'']" "fs_get demo_bucket_fs [''t''] = Some (Dir 493)" "link_free [''t''] demo_bucket_fs"
proof -
  have "plain_comps [''t'']" by code_simp
  then show "placed demo_bucket_fs [''t'']" using placed_snoc [of demo_bucket_fs "[]" "''t''"] by (simp add: fs_get_def)
qed (auto simp: demo_bucket_fs_def fs_get_def links_only_def)

lemma demo_paths:
  "safe_join ''/t'' ''f'' = Inr ''/t/f''" "\<exists>e. safe_join ''/t'' ''../x'' = Inl e"
  "trim_prefix ''p/f'' ''p/'' = ''f''" "trim_prefix ''p/../x'' ''p/'' = ''../x''" "has_suffix ''p/'' ''/''"
  "\<not> has_suffix ''f'' ''/''" "\<not> has_suffix ''../x'' ''/''" "abs_path [''t''] = ''/t''"
  "mkdir_all demo_bucket_fs (path_dir ''/t/f'') 493 = (demo_bucket_fs, None)"
  "open_create demo_bucket_fs ''/t/f'' 438 = (fs_set demo_bucket_fs [''t'', ''f''] (Regular 438 []), Inr [''t'', ''f''])"
proof -
  have "(case safe_join ''/t'' ''../x'' of Inl _ \<Rightarrow> True | Inr _ \<Rightarrow> False)" by code_simp
  then show "\<exists>e. safe_join ''/t'' ''../x'' = Inl e" by (auto split: sum.splits)
qed code_simp+

lemma demo_saved:
  "save_object (\<lambda>_. None) x demo_bucket_fs ''/t/f'' (file_reader ''x'') default_max_bytes =
     (fs_set demo_bucket_fs [''t'', ''f''] (Regular 438 ''x''), None)"
proof -
  have "limit_copy None (file_reader ''x'') default_max_bytes = (''x'', None)" by code_simp
  then show ?thesis using demo_paths(9,10) by (simp add: save_object_def save_stream_def write_created)
qed

theorem s3_download_confined_witness:
  "\<exists>w2 e. s3_download demo_s3 \<lparr>s3_bucket = ''b'', s3_key = ''p/'', s3_region = [], s3_endpoint = []\<rparr> (default_settings ''/tmp'')
       (abs_path [''t'']) (bucket_sys demo_bucket_fs) = Some (w2, Inl e) \<and>
     fs_get (sys_fs w2) [''t'', ''f''] = Some (Regular 438 ''x'') \<and> confined [''t''] demo_bucket_fs (sys_fs w2)"
proof -
  let ?d = "\<lparr>s3_bucket = ''b'', s3_key = ''p/'', s3_region = [], s3_endpoint = []\<rparr>"
  let ?w2 = "bucket_sys (fs_set demo_bucket_fs [''t'', ''f''] (Regular 438 ''x''))"
  obtain j where j: "safe_join ''/t'' ''../x'' = Inl j" using demo_paths(2) by blast
  have "\<exists>e. s3_download demo_s3 ?d (default_settings ''/tmp'') ''/t'' (bucket_sys demo_bucket_fs) = Some (?w2, Inl e)"
    using demo_paths(1,3-7) j demo_saved
    by (simp add: s3_download_def new_s3_client_def demo_s3_def s3_download_dir_def pages.simps s3_page_def s3_object_def
        s3_download_file_def default_settings_def failed_def)
  then obtain e where e: "s3_download demo_s3 ?d (default_settings ''/tmp'') (abs_path [''t'']) (bucket_sys demo_bucket_fs) = Some (?w2, Inl e)"
    using demo_paths(8) by auto
  from s3_download_confined [OF _ _ _ e] e show ?thesis using demo_bucket_ok by (auto simp: fs_get_set)
qed

theorem gcs_download_confined_witness:
  "\<exists>w2 e. gcs_download demo_gcs \<lparr>gcs_bucket = ''b'', gcs_key = ''p/'', gcs_endpoint = []\<rparr> (default_settings ''/tmp'')
       (abs_path [''t'']) (bucket_sys demo_bucket_fs) = Some (w2, Inl e) \<and>
     fs_get (sys_fs w2) [''t'', ''f''] = Some (Regular 438 ''x'') \<and> confined [''t''] demo_bucket_fs (sys_fs w2)"
proof -
  let ?d = "\<lparr>gcs_bucket = ''b'', gcs_key = ''p/'', gcs_endpoint = []\<rparr>"
  let ?w2 = "bucket_sys (fs_set demo_bucket_fs [''t'', ''f''] (Regular 438 ''x''))"
  obtain j where j: "safe_join ''/t'' ''../x'' = Inl j" using demo_paths(2) by blast
  have "\<exists>e. gcs_download demo_gcs ?d (default_settings ''/tmp'') ''/t'' (bucket_sys demo_bucket_fs) = Some (?w2, Inl e)"
    using demo_paths(1,3-7) j demo_saved
    by (simp add: gcs_download_def new_service_def auth_option_def service_endpoint_def demo_gcs_def gcs_download_dir_def pages.simps
        gcs_page_def gcs_object_def gcs_download_file_def default_settings_def failed_def)
  then obtain e where e: "gcs_download demo_gcs ?d (default_settings ''/tmp'') (abs_path [''t'']) (bucket_sys demo_bucket_fs) = Some (?w2, Inl e)"
    using demo_paths(8) by auto
  from gcs_download_confined [OF _ _ _ e] e show ?thesis using demo_bucket_ok by (auto simp: fs_get_set)
qed

text \<open>A bucket of two pages, with a placeholder for a directory.\<close>

definition demo_paged :: "(unit, unit) gcs_env" where
  "demo_paged = demo_gcs\<lparr>gv_list := (\<lambda>n _ _ _ token.
     (n, Inr (if token = [] then ([''p/'', ''p/f''], ''2'') else ([''p/s/'', ''p/s/g''], []))))\<rparr>"

theorem gcs_prefix_delivered_witness:
  "\<exists>w2. gcs_download demo_paged \<lparr>gcs_bucket = ''b'', gcs_key = ''p/'', gcs_endpoint = []\<rparr> (default_settings ''/tmp'')
       (abs_path [''t'']) (bucket_sys demo_bucket_fs) = Some (w2, Inr False) \<and>
     fs_get (sys_fs w2) [''t'', ''f''] = Some (Regular 438 ''x'') \<and> fs_get (sys_fs w2) [''t'', ''s'', ''g''] = Some (Regular 438 ''x'') \<and>
     fs_get (sys_fs w2) [''t'', ''s''] = Some (Dir 493)"
proof -
  let ?d = "\<lparr>gcs_bucket = ''b'', gcs_key = ''p/'', gcs_endpoint = []\<rparr>" and ?w = "bucket_sys demo_bucket_fs"
  let ?names = "[''p/'', ''p/f'', ''p/s/'', ''p/s/g'']" and ?s = "default_settings ''/tmp'' :: transport settings"
  have "gcs_lists demo_paged () ?d ''2'' [''p/s/'', ''p/s/g'']"
    by (rule gcs_lists.last_page) (simp add: demo_paged_def)
  then have "gcs_lists demo_paged () ?d [] ([''p/'', ''p/f''] @ [''p/s/'', ''p/s/g''])"
    by (intro gcs_lists.page [where following = "''2''"]) (simp_all add: demo_paged_def)
  then have lists: "gcs_lists demo_paged () ?d [] ?names" by simp
  have svc: "new_service demo_paged ?d ?s = Inr ()"
    by (simp add: new_service_def auth_option_def service_endpoint_def demo_paged_def demo_gcs_def default_settings_def)
  have facts: "plain_comps [''t'']" "gcs_key ?d = [] \<or> has_suffix (gcs_key ?d) ''/''"
    "\<forall>name\<in>set ?names. prefix [''t''] (target_of [''t''] (trim_prefix name (gcs_key ?d)))"
    "all_fit (fs_get (sys_fs ?w)) (List.map_filter (gcs_item ?d (\<lambda>_. ''x'') [''t'']) ?names)"
    "map (foldl lay (fs_get (sys_fs ?w)) (List.map_filter (gcs_item ?d (\<lambda>_. ''x'') [''t'']) ?names))
      [[''t'', ''f''], [''t'', ''s'', ''g''], [''t'', ''s'']] = [Some (Regular 438 ''x''), Some (Regular 438 ''x''), Some (Dir 493)]"
    by code_simp+
  have ok: "fs_ok (sys_fs ?w)"
    using facts(1) by (auto simp: fs_ok_def demo_bucket_fs_def fs_get_def split: if_splits)
  have size: "0 < max_bytes ?s" "1 \<le> max_bytes ?s" "max_bytes ?s < max_int64"
    by (simp_all add: default_settings_def default_max_bytes_def max_int64_def)
  obtain w2 where "gcs_download demo_paged ?d ?s (abs_path [''t'']) ?w = Some (w2, Inr False)"
    "fs_get (sys_fs w2) = foldl lay (fs_get (sys_fs ?w)) (List.map_filter (gcs_item ?d (\<lambda>_. ''x'') [''t'']) ?names)"
    using gcs_prefix_delivered [OF svc facts(2) lists facts(1) _ ok _ _ _ _ facts(4)] facts(3) size
    by (auto simp: demo_paged_def demo_gcs_def)
  then show ?thesis using facts(5) by auto
qed

theorem s3_forms_agree_witness:
  "s3_detect ''https://data.s3.amazonaws.com/a/f'' = s3_detect ''s3://data/a/f''"
proof -
  have "list_all is_scp_host_char ''data''" "to_lower ''data'' = ''data''" "''s3'' \<notin> set (split_chr CHR ''.'' ''data'')"
    "list_all is_path_char ''a/f''" by code_simp+
  from s3_forms_agree [OF _ this] show ?thesis by simp
qed

end
