(* ===== verification/Oci_Protocol.thy ===== *)
theory Oci_Protocol
  imports Streams Git_Url
begin

text \<open>
  The OCI protocol (\<^verbatim>\<open>protocols/oci/oci.go\<close>): the references it takes, the client with its transport
  and credentials, and what is done with the files pulled.  \<^verbatim>\<open>oras\<close> is a parameter.
\<close>

section \<open>References\<close>

record oci_dl =
  od_ref :: string
  od_registry :: string

definition parse_oci_url :: "string \<Rightarrow> bool \<Rightarrow> oci_dl result" where
  "parse_oci_url raw forced =
     (if \<not> forced \<and> \<not> has_prefix raw ''oci://'' then Inl (errors_new ''not an OCI URL'')
      else if forced \<and> contains_str raw ''://'' \<and> \<not> has_prefix raw ''oci://'' then Inl (errors_new ''not an OCI URL'')
      else case url_parse (''https://'' @ trim_prefix raw ''oci://'') of
        None \<Rightarrow> Inl (errors_new ''parse'')
      | Some u \<Rightarrow>
          let repo = trim_prefix (u_path u) ''/''
          in if u_host u = [] then Inl (errors_new ''no registry host specified'')
             else if repo = [] then Inl (errors_new ''no repository specified'')
             else Inr \<lparr>od_ref = u_host u @ ''/'' @ repo, od_registry = u_host u\<rparr>)"

definition oci_detect :: "string \<Rightarrow> oci_dl option" where
  "oci_detect raw = (case parse_oci_url raw False of Inl _ \<Rightarrow> None | Inr d \<Rightarrow> Some d)"

definition oci_detect_forced :: "string \<Rightarrow> oci_dl option" where
  "oci_detect_forced raw = (case parse_oci_url raw True of Inl _ \<Rightarrow> None | Inr d \<Rightarrow> Some d)"

interpretation oci: forced_detector oci_detect oci_detect_forced
  by unfold_locales (auto simp: oci_detect_def oci_detect_forced_def parse_oci_url_def split: if_splits sum.splits)

text \<open>The repository without registry, tag and digest.\<close>

definition oci_repo_path :: "string \<Rightarrow> string \<Rightarrow> string" where
  "oci_repo_path ref registry =
     takeWhile (\<lambda>c. c \<noteq> CHR '':'' \<and> c \<noteq> CHR ''@'') (trim_prefix (trim_prefix ref registry) ''/'')"

section \<open>The client\<close>

datatype oci_client = DefaultClient | AuthClient round_tripper "(string \<times> string) option"

text \<open>
  \<open>ov_repository\<close> is the check of \<^verbatim>\<open>remote.NewRepository\<close>, \<open>ov_store\<close> opens the file store at a
  directory, and \<open>ov_copy\<close> is \<^verbatim>\<open>oras.Copy\<close> with a client, plain HTTP or not, a reference and the
  directory of the store: it yields the media type of what was copied.
\<close>

record 'n oci_env =
  ov_net :: net_env
  ov_check :: check_env
  ov_netrc_path :: string
  ov_repository :: "string \<Rightarrow> goerr option"
  ov_store :: "'n sys \<Rightarrow> string \<Rightarrow> 'n sys \<times> goerr option"
  ov_copy :: "'n sys \<Rightarrow> oci_client \<Rightarrow> bool \<Rightarrow> string \<Rightarrow> string \<Rightarrow> 'n sys \<times> string result"

definition registry_credential :: "'n oci_env \<Rightarrow> 't settings \<Rightarrow> fs \<Rightarrow> oci_dl \<Rightarrow> (string \<times> string) option" where
  "registry_credential env s f d =
     (case (case match_oci_credential s (od_registry d) of
              None \<Rightarrow> None
            | Some c \<Rightarrow> if oci_username c \<noteq> [] \<or> oci_password c \<noteq> [] then Some (oci_username c, oci_password c) else None) of
        Some c \<Rightarrow> Some c
      | None \<Rightarrow>
          (case request_credential s ''oci'' (od_registry d) (oci_repo_path (od_ref d) (od_registry d)) of
             Some c \<Rightarrow> Some c
           | None \<Rightarrow>
               (case (if use_netrc s then netrc_of (ov_netrc_path env) f (od_registry d) else Inr None) of
                  Inr (Some m) \<Rightarrow> if m_login m \<noteq> [] \<or> m_password m \<noteq> [] then Some (m_login m, m_password m) else None
                | _ \<Rightarrow> None)))"

text \<open>Without a transport of its own, the client retries over \<^verbatim>\<open>http.DefaultTransport\<close>.\<close>

definition oci_client_for :: "'n oci_env \<Rightarrow> transport settings \<Rightarrow> fs \<Rightarrow> oci_dl \<Rightarrow> oci_client result" where
  "oci_client_for env s f d =
     bind_result (round_tripper_for_host (ov_net env) (ov_check env) s (od_registry d)) (\<lambda>tr.
       let cred = registry_credential env s f d
       in Inr (if tr \<noteq> NilRoundTripper \<or> cred \<noteq> None then AuthClient tr cred else DefaultClient))"

section \<open>Download\<close>

definition oci_metadata :: "string list" where
  "oci_metadata = [''oci-layout'', ''index.json'']"

text \<open>Errors of the clean-up are ignored.\<close>

definition cleanup_oras_metadata :: "fs \<Rightarrow> string \<Rightarrow> fs" where
  "cleanup_oras_metadata f dir =
     (let g = foldl (\<lambda>f name. fst (fs_remove f (path_join [dir, name]))) f oci_metadata;
          blobs = path_join [dir, ''blobs'']
      in if read_dir g blobs = Inr [] then fst (fs_remove g blobs) else g)"

definition manifest_types :: "string set" where
  "manifest_types = {''application/vnd.oci.image.manifest.v1+json'', ''application/vnd.oci.image.index.v1+json''}"

text \<open>The entry's own type counts: a link to a directory is no directory.\<close>

definition only_file :: "fs \<Rightarrow> string \<Rightarrow> bool" where
  "only_file f tmp =
     (case read_dir f tmp of
        Inl _ \<Rightarrow> False
      | Inr names \<Rightarrow>
          length names = 1 \<and>
          (case fs_lstat f (path_join [tmp, names ! 0]) of Inl _ \<Rightarrow> True | Inr n \<Rightarrow> \<not> is_dir n))"

definition oci_download :: "'n oci_env \<Rightarrow> oci_dl \<Rightarrow> transport settings \<Rightarrow> string \<Rightarrow> 'n sys \<Rightarrow> 'n sys \<times> bool result" where
  "oci_download env d s tmp w =
     (case ov_repository env (od_ref d) of
        Some e \<Rightarrow> (w, Inl (wrap_err ''creating OCI repository: %w'' [] e))
      | None \<Rightarrow>
          (case oci_client_for env s (sys_fs w) d of
             Inl e \<Rightarrow> (w, Inl (wrap_err ''configuring OCI transport: %w'' [] e))
           | Inr client \<Rightarrow>
               (case ov_store env w tmp of
                  (w1, Some e) \<Rightarrow> (w1, Inl (wrap_err ''creating file store: %w'' [] e))
                | (w1, None) \<Rightarrow>
                    (case ov_copy env w1 client (oci_plain_http s) (od_ref d) tmp of
                       (w2, Inl e) \<Rightarrow> (w2, Inl (wrap_err ''pulling OCI artifact %s: %w'' [od_ref d] e))
                     | (w2, Inr media) \<Rightarrow>
                         (w2\<lparr>sys_fs := cleanup_oras_metadata (sys_fs w2) tmp\<rparr>,
                          Inr (media \<notin> manifest_types \<or> only_file (sys_fs w2) tmp))))))"

definition oci_protocol :: "'n oci_env \<Rightarrow> 'n protocol" where
  "oci_protocol env =
     \<lparr>pr_prefix = ''oci'', pr_priority = 50,
      pr_detect = (\<lambda>_ raw. map_option (\<lambda>d. returning (oci_download env d)) (oci_detect raw)),
      pr_forced = Some (\<lambda>_ raw. map_option (\<lambda>d. returning (oci_download env d)) (oci_detect_forced raw))\<rparr>"

section \<open>Properties\<close>

text \<open>
  C30. With the SSRF guard on, the registry is reached through the guarded transport of its host,
  credentials or not, and never through the client \<^verbatim>\<open>oras\<close> would use by itself.
\<close>

theorem oci_client_guarded:
  assumes "enabled (ssrf_guard s)" and "oci_client_for env s f d = Inr c"
  shows "\<exists>rt. c = AuthClient rt (registry_credential env s f d) \<and> rt \<noteq> NilRoundTripper \<and>
    round_tripper_for_host (ov_net env) (ov_check env) s (od_registry d) = Inr rt"
proof -
  obtain rt where rt: "round_tripper_for_host (ov_net env) (ov_check env) s (od_registry d) = Inr rt"
    using assms(2) by (auto simp: oci_client_for_def bind_result_def split: sum.splits)
  then obtain t where t: "transport_for_host (ov_net env) s (od_registry d) = Inr t" "rt = with_env_proxy (ov_check env) s t (od_registry d)"
    by (auto simp: round_tripper_for_host_def bind_result_def split: sum.splits)
  moreover have "t \<noteq> None" using transport_for_host_enabled [OF assms(1), of "ov_net env" "od_registry d"] t(1) by metis
  ultimately have "rt \<noteq> NilRoundTripper" by (auto simp: with_env_proxy_def split: option.splits)
  then show ?thesis using assms(2) rt by (auto simp: oci_client_for_def Let_def)
qed

text \<open>What the clean-up does to a directory with a single file.\<close>

lemma remove_file:
  assumes "placed f p" and "p \<noteq> []" and "fs_get f p = Some (Regular m data)"
  shows "fs_remove f (abs_path p) = (fs_del f p, None)"
  using assms by (simp add: fs_remove_def resolve_placed)

lemma placed_del: "placed f (t @ [c]) \<Longrightarrow> placed (fs_del f (t @ [x])) (t @ [c])"
proof -
  assume "placed f (t @ [c])"
  moreover have "fs_get (fs_del f (t @ [x])) q = fs_get f q" if "strict_prefix q (t @ [c])" for q
  proof -
    have "length q \<le> length t" using that by (auto simp: strict_prefix_def prefix_snoc dest: prefix_length_le)
    then have "q \<noteq> t @ [x]" by auto
    then show ?thesis by (simp add: fs_get_del)
  qed
  ultimately show ?thesis using placed_cong [of "t @ [c]" "fs_del f (t @ [x])" f] by simp
qed

lemma cleanup_single:
  assumes "placed f t" and "fs_get f t = Some (Dir m)" and "fs_get f (t @ [name]) = Some (Regular k data)"
    and "\<And>c. c \<noteq> name \<Longrightarrow> fs_get f (t @ [c]) = None"
  shows "cleanup_oras_metadata f (abs_path t) = (if name \<in> set oci_metadata then fs_del f (t @ [name]) else f)"
proof -
  have names: "plain_comps [''oci-layout'']" "plain_comps [''index.json'']" "plain_comps [''blobs'']" by code_simp+
  have join: "path_join [abs_path t, c] = abs_path (t @ [c])" "placed f (t @ [c])" if "plain_comps [c]" for c
    using join_abs_rel [OF placed_plain [OF assms(1)] that] that assms(1,2) by (simp_all add: placed_snoc)
  let ?rm = "\<lambda>f c. fst (fs_remove f (path_join [abs_path t, c]))"
  let ?del = "fs_del f (t @ [name])"
  have keep: "?rm f c = f" if "plain_comps [c]" "c \<noteq> name" for c
    using remove_placed_none [OF join(2) [OF that(1)]] assms(4) [OF that(2)] join(1) [OF that(1)] by simp
  have del: "?rm f name = ?del" if "plain_comps [name]"
    using remove_file [OF join(2) [OF that] _ assms(3)] join(1) [OF that] by simp
  have keep_del: "?rm ?del c = ?del" if "plain_comps [c]" "c \<noteq> name" for c
  proof -
    have "placed ?del (t @ [c])" "fs_get ?del (t @ [c]) = None"
      using placed_del [OF join(2) [OF that(1)]] assms(4) [OF that(2)] by (auto simp: fs_get_del)
    then show ?thesis using remove_placed_none join(1) [OF that(1)] by simp
  qed
  have fold: "foldl (\<lambda>f c. ?rm f c) f oci_metadata = (if name \<in> set oci_metadata then ?del else f)"
    using keep [OF names(1)] keep [OF names(2)] del keep_del names by (auto simp: oci_metadata_def)
  have "read_dir g (path_join [abs_path t, ''blobs'']) \<noteq> Inr []" if "g = f \<or> g = ?del" for g
  proof -
    have p: "placed g (t @ [''blobs''])" using that join(2) [OF names(3)] placed_del by auto
    have "fs_get g (t @ [''blobs'']) = None \<or> (\<exists>k d. fs_get g (t @ [''blobs'']) = Some (Regular k d))"
      using that assms(3) assms(4) [of "''blobs''"] by (cases "name = ''blobs''") (auto simp: fs_get_del)
    then show ?thesis using join(1) [OF names(3)] by (auto simp: read_dir_def resolve_placed [OF p])
  qed
  then show ?thesis unfolding cleanup_oras_metadata_def Let_def fold by auto
qed

text \<open>
  C29. An artifact that leaves a single file is reported as one, whatever its media type, and the file
  stays unless it has the name of a metadata file: then the clean-up deletes what was downloaded.
\<close>

theorem oci_single_file:
  assumes "ov_repository env (od_ref d) = None" and "oci_client_for env s (sys_fs w) d = Inr client"
    and "ov_store env w (abs_path t) = (w1, None)" and "ov_copy env w1 client (oci_plain_http s) (od_ref d) (abs_path t) = (w2, Inr media)"
    and "fs_ok (sys_fs w2)" and "fs_get (sys_fs w2) t = Some (Dir m)" and "fs_get (sys_fs w2) (t @ [name]) = Some (Regular k data)"
    and "\<And>c. c \<noteq> name \<Longrightarrow> fs_get (sys_fs w2) (t @ [c]) = None"
  shows "\<exists>g. oci_download env d s (abs_path t) w = (w2\<lparr>sys_fs := g\<rparr>, Inr True) \<and>
    (\<forall>q. fs_get g q = (if name \<in> set oci_metadata \<and> q = t @ [name] then None else fs_get (sys_fs w2) q))"
proof -
  let ?f = "sys_fs w2"
  have t: "placed ?f t" by (rule ok_placed [OF assms(5,6)])
  have pf: "placed ?f (t @ [name])" by (rule ok_placed [OF assms(5,7)])
  obtain cs where cs: "read_dir ?f (abs_path t) = Inr cs" "distinct cs" "set cs = {c. fs_get ?f (t @ [c]) \<noteq> None}"
    using read_dir_placed [OF t assms(6)] assms(5) by (auto simp: fs_ok_def)
  have "set cs = {name}"
  proof
    show "set cs \<subseteq> {name}" using cs(3) assms(8) by blast
    show "{name} \<subseteq> set cs" using cs(3) assms(7) by simp
  qed
  moreover from this obtain xs where xs: "cs = name # xs" by (cases cs) auto
  ultimately have "cs = [name]" using cs(2) by (cases xs) auto
  then have "only_file ?f (abs_path t)"
    using cs(1) lstat_placed [OF pf assms(7)] join_abs_rel [OF placed_plain [OF t], of "[name]"] placed_plain [OF pf]
    by (simp add: only_file_def is_dir_def)
  then have "oci_download env d s (abs_path t) w = (w2\<lparr>sys_fs := cleanup_oras_metadata ?f (abs_path t)\<rparr>, Inr True)"
    using assms(1-4) by (simp add: oci_download_def)
  then show ?thesis using cleanup_single [OF t assms(6-8)]
    by (intro exI [of _ "cleanup_oras_metadata ?f (abs_path t)"]) (auto simp: fs_get_del)
qed

section \<open>What the code does beyond its purpose\<close>

text \<open>
  The registry's port stays in the name that is looked up: the entry of a netrc file for the host
  is not found, while \<^verbatim>\<open>http.go\<close> looks for the host alone.
\<close>

lemma netrc_asked_with_port:
  "oci_detect ''oci://registry.example.com:5000/repo:v1'' =
     Some \<lparr>od_ref = ''registry.example.com:5000/repo:v1'', od_registry = ''registry.example.com:5000''\<rparr>"
  "netrc_parse ''machine registry.example.com login u password p'' ''registry.example.com:5000'' = None"
  by code_simp+

section \<open>Concrete instances\<close>

definition demo_pulled :: "string \<Rightarrow> fs" where
  "demo_pulled name = \<lparr>fs_nodes = [([''t''], Dir 493), ([''t'', name], Regular 420 ''data'')], fs_cwd = []\<rparr>"

definition demo_oras :: "string \<Rightarrow> unit oci_env" where
  "demo_oras name =
     \<lparr>ov_net = demo_env, ov_check = \<lparr>ce_idna = \<lparr>lookup_to_ascii = Inr, puny_to_ascii = Inr\<rparr>, ce_lookup = (\<lambda>_. Inr []), ce_done = False\<rparr>,
      ov_netrc_path = [], ov_repository = (\<lambda>_. None), ov_store = (\<lambda>w _. (w, None)),
      ov_copy = (\<lambda>w _ _ _ _. (w\<lparr>sys_fs := demo_pulled name\<rparr>, Inr ''application/vnd.oci.image.manifest.v1+json''))\<rparr>"

definition demo_oci_dl :: oci_dl where
  "demo_oci_dl = \<lparr>od_ref = ''r.io/a:v1'', od_registry = ''r.io''\<rparr>"

lemma demo_oci_client: "\<exists>c. oci_client_for (demo_oras name) demo_default f demo_oci_dl = Inr c"
  by (simp add: oci_client_for_def demo_oras_def round_tripper_for_host_def demo_transport_for_host Let_def)

theorem oci_client_guarded_witness:
  "\<exists>rt. oci_client_for (demo_oras []) demo_default (demo_pulled []) demo_oci_dl =
      Inr (AuthClient rt (registry_credential (demo_oras []) demo_default (demo_pulled []) demo_oci_dl)) \<and> rt \<noteq> NilRoundTripper"
proof -
  obtain c where c: "oci_client_for (demo_oras []) demo_default (demo_pulled []) demo_oci_dl = Inr c" using demo_oci_client by blast
  have "enabled (ssrf_guard demo_default)" by (simp add: demo_guard enabled_def)
  from oci_client_guarded [OF this c] c show ?thesis by auto
qed

theorem oci_single_file_witness:
  "(\<exists>g. oci_download (demo_oras ''f'') demo_oci_dl demo_default (abs_path [''t'']) \<lparr>sys_fs = demo_pulled ''f'', sys_net = ()\<rparr> =
      (\<lparr>sys_fs = g, sys_net = ()\<rparr>, Inr True) \<and> fs_get g [''t'', ''f''] = Some (Regular 420 ''data'')) \<and>
   (\<exists>g. oci_download (demo_oras ''index.json'') demo_oci_dl demo_default (abs_path [''t'']) \<lparr>sys_fs = demo_pulled ''f'', sys_net = ()\<rparr> =
      (\<lparr>sys_fs = g, sys_net = ()\<rparr>, Inr True) \<and> fs_get g [''t'', ''index.json''] = None)"
proof -
  have run: "\<exists>g. oci_download (demo_oras name) demo_oci_dl demo_default (abs_path [''t'']) \<lparr>sys_fs = demo_pulled ''f'', sys_net = ()\<rparr> =
      (\<lparr>sys_fs = g, sys_net = ()\<rparr>, Inr True) \<and>
      fs_get g [''t'', name] = (if name \<in> set oci_metadata then None else Some (Regular 420 ''data''))" if "plain_comps [''t'', name]" for name
  proof -
    let ?w = "\<lparr>sys_fs = demo_pulled ''f'', sys_net = ()\<rparr>" and ?w2 = "\<lparr>sys_fs = demo_pulled name, sys_net = ()\<rparr>"
    obtain c where c: "oci_client_for (demo_oras name) demo_default (sys_fs ?w) demo_oci_dl = Inr c" using demo_oci_client by blast
    have e: "ov_repository (demo_oras name) (od_ref demo_oci_dl) = None" "ov_store (demo_oras name) ?w (abs_path [''t'']) = (?w, None)"
      "ov_copy (demo_oras name) ?w c (oci_plain_http demo_default) (od_ref demo_oci_dl) (abs_path [''t'']) =
         (?w2, Inr ''application/vnd.oci.image.manifest.v1+json'')" by (simp_all add: demo_oras_def)
    have f: "fs_ok (sys_fs ?w2)" "fs_get (sys_fs ?w2) [''t''] = Some (Dir 493)"
      "fs_get (sys_fs ?w2) ([''t''] @ [name]) = Some (Regular 420 ''data'')"
      using that by (auto simp: demo_pulled_def fs_ok_def fs_get_def plain_comps_def split: if_splits)
    have only: "fs_get (sys_fs ?w2) ([''t''] @ [x]) = None" if "x \<noteq> name" for x using that by (simp add: demo_pulled_def fs_get_def)
    show ?thesis using oci_single_file [OF e(1) c e(2,3) f only] f(3) by auto
  qed
  have "plain_comps [''t'', ''f'']" "plain_comps [''t'', ''index.json'']" by code_simp+
  from run [OF this(1)] run [OF this(2)] show ?thesis by (auto simp: oci_metadata_def)
qed

end
