(* ===== verification/Http_Protocol.thy ===== *)
theory Http_Protocol
  imports Streams Git_Archive
begin

text \<open>
  The HTTP protocol (\<^verbatim>\<open>protocols/http/http.go\<close>): the URLs it takes, the name the download gets, the
  credentials of the request, the probe, and the response written to the temporary directory.  The
  exchange itself (\<^verbatim>\<open>http.Client.Do\<close>) is a parameter.
\<close>

section \<open>Detection\<close>

record http_dl =
  hd_url :: string
  hd_archive :: string

definition parse_http_url :: "string \<Rightarrow> http_dl result" where
  "parse_http_url raw =
     (if has_prefix raw ''/'' \<or> has_prefix raw ''./'' \<or> has_prefix raw ''../'' then Inl (errors_new ''not an HTTP URL'')
      else case url_parse (if contains_str raw ''://'' then raw else ''https://'' @ raw) of
        None \<Rightarrow> Inl (errors_new ''parse'')
      | Some u \<Rightarrow>
          if u_scheme u \<noteq> ''http'' \<and> u_scheme u \<noteq> ''https'' then Inl (errors_new ''not an HTTP URL'')
          else if u_host u = [] then Inl (errors_new ''no host specified'')
          else let q = url_query u
               in if query_has q ''archive''
                  then Inr \<lparr>hd_url = url_string (u\<lparr>u_raw_query := query_encode (query_del q ''archive'')\<rparr>),
                            hd_archive = query_get q ''archive''\<rparr>
                  else Inr \<lparr>hd_url = url_string u, hd_archive = []\<rparr>)"

definition http_detect :: "string \<Rightarrow> http_dl option" where
  "http_detect raw = (case parse_http_url raw of Inl _ \<Rightarrow> None | Inr d \<Rightarrow> Some d)"

section \<open>The name of the file\<close>

definition max_file_name :: nat where
  "max_file_name = 255"

definition file_name :: "http_dl \<Rightarrow> string" where
  "file_name d =
     (if hd_archive d \<noteq> []
      then (if parse_bool (hd_archive d) \<noteq> None then ''download'' else ''archive.'' @ hd_archive d)
      else case url_parse (hd_url d) of
        None \<Rightarrow> ''download''
      | Some u \<Rightarrow>
          let name = path_base (u_path u)
          in if name = [] \<or> name = ''.'' \<or> name = ''/'' then ''download''
             else if max_file_name < length name then drop (length name - max_file_name) name
             else name)"

section \<open>The request\<close>

text \<open>
  \<open>he_netrc_path\<close> is the path \<^verbatim>\<open>netrc.DefaultPath\<close> yields, \<open>he_reach\<close> and \<open>he_targets\<close> are what a host
  resolves to and what can be connected to, and \<open>he_do\<close> is the client's exchange through a round
  tripper.
\<close>

record 'n http_env =
  he_net :: net_env
  he_check :: check_env
  he_reach :: "string \<Rightarrow> bool"
  he_targets :: "string \<Rightarrow> string list"
  he_netrc_path :: string
  he_do :: "'n \<Rightarrow> round_tripper \<Rightarrow> url \<Rightarrow> authorization \<Rightarrow> 'n \<times> http_response result"
  he_disk :: disk

definition http_port :: "url \<Rightarrow> string" where
  "http_port u = (if url_port u \<noteq> [] then url_port u else if u_scheme u = ''https'' then ''443'' else ''80'')"

text \<open>\<^verbatim>\<open>http.NewRequest\<close> parses the URL and drops an empty port.\<close>

definition remove_empty_port :: "string \<Rightarrow> string" where
  "remove_empty_port host =
     (case last_index_chr host CHR '':'' of
        None \<Rightarrow> host
      | Some i \<Rightarrow>
          if (case last_index_chr host CHR '']'' of None \<Rightarrow> True | Some j \<Rightarrow> j < i) then trim_suffix host '':'' else host)"

definition new_request :: "string \<Rightarrow> url result" where
  "new_request raw =
     (case url_parse raw of
        None \<Rightarrow> Inl (errors_new ''parse'')
      | Some u \<Rightarrow> Inr (u\<lparr>u_host := remove_empty_port (u_host u)\<rparr>))"

text \<open>
  The client sends the user of the URL as basic credentials; only without one are the configured
  sources asked, in their order.
\<close>

definition http_authorization :: "'n http_env \<Rightarrow> transport settings \<Rightarrow> fs \<Rightarrow> string \<Rightarrow> url \<Rightarrow> authorization" where
  "http_authorization env s f raw u =
     (case u_user u of
        Some ui \<Rightarrow> BasicAuthorization (ui_username ui) (case ui_password ui of None \<Rightarrow> [] | Some p \<Rightarrow> p)
      | None \<Rightarrow>
          (case match_https_credential s raw of
             Some c \<Rightarrow> BasicAuthorization (hc_username c) (hc_password c)
           | None \<Rightarrow>
               (case request_credential s (u_scheme u) (url_hostname u) (u_path u) of
                  Some (n, p) \<Rightarrow> BasicAuthorization n p
                | None \<Rightarrow>
                    (case (if use_netrc s then netrc_of (he_netrc_path env) f (url_hostname u) else Inr None) of
                       Inr (Some m) \<Rightarrow> if m_login m \<noteq> [] then BasicAuthorization (m_login m) (m_password m) else NoAuthorization
                     | _ \<Rightarrow> NoAuthorization))))"

section \<open>Download\<close>

text \<open>What is done with the answer of the server.\<close>

definition response_body :: "http_response \<Rightarrow> reader" where
  "response_body resp = (case hr_body resp of None \<Rightarrow> file_reader [] | Some b \<Rightarrow> b)"

definition receive_file ::
    "disk \<Rightarrow> 't settings \<Rightarrow> http_dl \<Rightarrow> string \<Rightarrow> 'n sys \<Rightarrow> http_response result \<Rightarrow> 'n sys \<times> bool result" where
  "receive_file disk s d tmp w r =
     (case r of
        Inl e \<Rightarrow> (w, Inl (wrap_err ''downloading %s: %w'' [hd_url d] e))
      | Inr resp \<Rightarrow>
          if hr_status resp < 200 \<or> 300 \<le> hr_status resp
          then (w, Inl (Errorf ''downloading %s: HTTP %d'' [hd_url d, dec_string (hr_status resp)] []))
          else case save_stream disk (wrap_err ''creating file: %w'' []) (wrap_err ''downloading %s: %w'' [hd_url d])
                      (sys_fs w) (path_join [tmp, file_name d]) (response_body resp) (max_bytes s) of
                 (f, e) \<Rightarrow> failed (w\<lparr>sys_fs := f\<rparr>, e) True)"

definition http_download ::
    "'n http_env \<Rightarrow> http_dl \<Rightarrow> transport settings \<Rightarrow> string \<Rightarrow> 'n sys \<Rightarrow> 'n sys \<times> bool result" where
  "http_download env d s tmp w =
     (case new_request (hd_url d) of
        Inl e \<Rightarrow> (w, Inl (wrap_err ''creating request: %w'' [] e))
      | Inr u \<Rightarrow>
          let authz = http_authorization env s (sys_fs w) (hd_url d) u; host = url_hostname u
          in case probe_connect_for (he_net env) s (he_reach env) (he_targets env host) (u_scheme u) host (http_port u) of
               Some e \<Rightarrow> (w, Inl e)
             | None \<Rightarrow>
                 (case round_tripper_for_host (he_net env) (he_check env) s host of
                    Inl e \<Rightarrow> (w, Inl (wrap_err ''configuring HTTP transport: %w'' [] e))
                  | Inr rt \<Rightarrow>
                      (case he_do env (sys_net w) rt u authz of
                         (n, r) \<Rightarrow> receive_file (he_disk env) s d tmp (w\<lparr>sys_net := n\<rparr>) r)))"

definition http_protocol :: "'n http_env \<Rightarrow> 'n protocol" where
  "http_protocol env =
     \<lparr>pr_prefix = ''http'', pr_priority = 20,
      pr_detect = (\<lambda>_ raw. map_option (\<lambda>d. returning (http_download env d)) (http_detect raw)),
      pr_forced = None\<rparr>"

section \<open>Facts\<close>

text \<open>A name without a slash that is no dot name is a plain element.\<close>

lemma file_name_plain:
  assumes "CHR ''/'' \<notin> set (hd_archive d)"
  shows "plain_comps [file_name d] \<or> file_name d = ''..''"
proof -
  have plain: "plain_comps [x] \<or> x = ''..''" if "CHR ''/'' \<notin> set x" "x \<noteq> []" "x \<noteq> ''.''" for x
    using that by (auto simp: plain_comps_def proper_comp_def)
  have "plain_comps [''download'']" by code_simp
  moreover have "plain_comps [''archive.'' @ hd_archive d]"
    using assms by (auto simp: plain_comps_def proper_comp_def)
  moreover have "plain_comps [x] \<or> x = ''..''" if "x = (if max_file_name < length b then drop (length b - max_file_name) b else b)"
      "b = path_base s" "b \<notin> {[], ''.'', ''/''}" for x b s
  proof (rule plain)
    have "CHR ''/'' \<notin> set b" using path_base_name that by blast
    then show "CHR ''/'' \<notin> set x" using that(1) by (auto dest: in_set_dropD split: if_splits)
    have "length x = 255" if "max_file_name < length b" using that \<open>x = _\<close> by (simp add: max_file_name_def)
    moreover have "x = b" if "\<not> max_file_name < length b" using that \<open>x = _\<close> by simp
    ultimately show "x \<noteq> []" "x \<noteq> ''.''" using that(3) by (cases "max_file_name < length b"; auto)+
  qed
  ultimately show ?thesis by (auto simp: file_name_def Let_def split: option.split)
qed

section \<open>Properties\<close>

text \<open>What a download leaves, and what it has received when it succeeds.\<close>

lemma http_download_saved:
  assumes "placed (sys_fs w) t" and "fs_get (sys_fs w) t = Some (Dir m)" and "\<And>c. fs_get (sys_fs w) (t @ [c]) = None"
    and "CHR ''/'' \<notin> set (hd_archive d)" and "max_bytes s < max_int64"
    and "http_download env d s (abs_path t) w = (w2, r)"
  shows "(\<forall>p. p \<noteq> t @ [file_name d] \<longrightarrow> fs_get (sys_fs w2) p = fs_get (sys_fs w) p) \<and>
    (\<forall>ok. r = Inr ok \<longrightarrow> ok \<and>
      (\<exists>u rt n resp. new_request (hd_url d) = Inr u \<and>
        round_tripper_for_host (he_net env) (he_check env) s (url_hostname u) = Inr rt \<and>
        he_do env (sys_net w) rt u (http_authorization env s (sys_fs w) (hd_url d) u) = (n, Inr resp) \<and>
        200 \<le> hr_status resp \<and> hr_status resp < 300 \<and> rd_end (response_body resp) = None \<and>
        fs_get (sys_fs w2) (t @ [file_name d]) = Some (Regular 438 (rd_data (response_body resp))) \<and>
        (0 < max_bytes s \<longrightarrow> int (length (rd_data (response_body resp))) \<le> max_bytes s)))"
proof -
  let ?p = "t @ [file_name d]"
  have save: "(\<forall>p. p \<noteq> ?p \<longrightarrow> fs_get g p = fs_get (sys_fs w) p) \<and>
      (e = None \<longrightarrow> fs_get g ?p = Some (Regular 438 (rd_data b)) \<and> rd_end b = None \<and>
        (0 < max_bytes s \<longrightarrow> int (length (rd_data b)) \<le> max_bytes s))"
    if "save_stream (he_disk env) x y (sys_fs w) (path_join [abs_path t, file_name d]) b (max_bytes s) = (g, e)" for x y b g e
  proof (cases "plain_comps [file_name d]")
    case True
    have "path_join [abs_path t, file_name d] = abs_path ?p"
      using join_abs_rel [OF placed_plain [OF assms(1)] True] by simp
    moreover have "placed (sys_fs w) ?p" using assms(1,2) True by (simp add: placed_snoc)
    ultimately have s: "placed (sys_fs w) ?p" "?p \<noteq> []"
      "save_stream (he_disk env) x y (sys_fs w) (abs_path ?p) b (max_bytes s) = (g, e)" using that by simp_all
    note save_stream_fresh [OF s(1,2) assms(3) s(3)]
    then show ?thesis using assms(5) by simp
  next
    case False
    then have "file_name d = ''..''" using file_name_plain [OF assms(4)] by simp
    then show ?thesis using save_stream_error [OF create_dotdot [OF assms(1,2)]] that by auto
  qed
  have "fs_get (sys_fs w2) p = fs_get (sys_fs w) p" if "p \<noteq> ?p" for p
    using assms(6) that save
    by (auto simp: http_download_def receive_file_def Let_def failed_def split: sum.splits option.splits prod.splits if_splits)
  moreover have "ok \<and> (\<exists>u rt n resp. new_request (hd_url d) = Inr u \<and>
        round_tripper_for_host (he_net env) (he_check env) s (url_hostname u) = Inr rt \<and>
        he_do env (sys_net w) rt u (http_authorization env s (sys_fs w) (hd_url d) u) = (n, Inr resp) \<and>
        200 \<le> hr_status resp \<and> hr_status resp < 300 \<and> rd_end (response_body resp) = None \<and>
        fs_get (sys_fs w2) ?p = Some (Regular 438 (rd_data (response_body resp))) \<and>
        (0 < max_bytes s \<longrightarrow> int (length (rd_data (response_body resp))) \<le> max_bytes s))" if "r = Inr ok" for ok
    using assms(6) that save
    by (auto simp: http_download_def receive_file_def Let_def failed_def split: sum.splits option.splits prod.splits if_splits)
  ultimately show ?thesis by blast
qed

text \<open>The same for a name of any kind: the file its path leads to, and no other.\<close>

lemma http_download_anywhere:
  assumes "max_bytes s < max_int64" and "http_download env d s tmp w = (w2, r)"
  shows "resolve (sys_fs w) True (path_join [tmp, file_name d]) \<noteq> Inr q \<Longrightarrow> fs_get (sys_fs w2) q = fs_get (sys_fs w) q"
    and "r = Inr ok \<Longrightarrow> ok \<and>
      (\<exists>u rt n resp p. new_request (hd_url d) = Inr u \<and>
        round_tripper_for_host (he_net env) (he_check env) s (url_hostname u) = Inr rt \<and>
        he_do env (sys_net w) rt u (http_authorization env s (sys_fs w) (hd_url d) u) = (n, Inr resp) \<and>
        200 \<le> hr_status resp \<and> hr_status resp < 300 \<and> rd_end (response_body resp) = None \<and>
        resolve (sys_fs w) True (path_join [tmp, file_name d]) = Inr p \<and>
        fs_get (sys_fs w2) p = Some (Regular (saved_mode (sys_fs w) p) (rd_data (response_body resp))) \<and>
        (0 < max_bytes s \<longrightarrow> int (length (rd_data (response_body resp))) \<le> max_bytes s))"
proof -
  note saves = save_stream_saves [where f = "sys_fs w" and s = "path_join [tmp, file_name d]" and limit = "max_bytes s"]
  show "fs_get (sys_fs w2) q = fs_get (sys_fs w) q" if "resolve (sys_fs w) True (path_join [tmp, file_name d]) \<noteq> Inr q"
    using assms(2) saves(1) [OF _ that]
    by (auto simp: http_download_def receive_file_def Let_def failed_def split: sum.splits option.splits prod.splits if_splits)
  show "ok \<and>
      (\<exists>u rt n resp p. new_request (hd_url d) = Inr u \<and>
        round_tripper_for_host (he_net env) (he_check env) s (url_hostname u) = Inr rt \<and>
        he_do env (sys_net w) rt u (http_authorization env s (sys_fs w) (hd_url d) u) = (n, Inr resp) \<and>
        200 \<le> hr_status resp \<and> hr_status resp < 300 \<and> rd_end (response_body resp) = None \<and>
        resolve (sys_fs w) True (path_join [tmp, file_name d]) = Inr p \<and>
        fs_get (sys_fs w2) p = Some (Regular (saved_mode (sys_fs w) p) (rd_data (response_body resp))) \<and>
        (0 < max_bytes s \<longrightarrow> int (length (rd_data (response_body resp))) \<le> max_bytes s))" if "r = Inr ok"
    using assms(2) that
    by (auto simp: http_download_def receive_file_def Let_def failed_def split: sum.splits option.splits prod.splits if_splits
        dest!: saves(2) [OF _ refl assms(1)])
qed

text \<open>
  C9. An HTTP download into an empty directory changes one file at most, whatever its URL and
  settings.  When it succeeds, that file is the one that the name of the download leads to from the
  directory, and it is the whole body of a response with a status of success, to the request for
  the URL with the credentials chosen for it through the transport of its host, and it keeps within
  the limit; a file that was there keeps its mode.  It is a file of the directory itself unless the
  value of \<^verbatim>\<open>archive\<close> holds a slash, which nothing checks.
\<close>

theorem http_download_exact:
  assumes "placed (sys_fs w) t" and "fs_get (sys_fs w) t = Some (Dir m)" and "\<And>c. fs_get (sys_fs w) (t @ [c]) = None"
    and "max_bytes s < max_int64" and "http_download env d s (abs_path t) w = (w2, r)"
  shows "\<exists>p. (\<forall>q. q \<noteq> p \<longrightarrow> fs_get (sys_fs w2) q = fs_get (sys_fs w) q) \<and>
    (CHR ''/'' \<notin> set (hd_archive d) \<longrightarrow> p = t @ [file_name d]) \<and>
    (\<forall>ok. r = Inr ok \<longrightarrow> ok \<and>
      (\<exists>u rt n resp. new_request (hd_url d) = Inr u \<and>
        round_tripper_for_host (he_net env) (he_check env) s (url_hostname u) = Inr rt \<and>
        he_do env (sys_net w) rt u (http_authorization env s (sys_fs w) (hd_url d) u) = (n, Inr resp) \<and>
        200 \<le> hr_status resp \<and> hr_status resp < 300 \<and> rd_end (response_body resp) = None \<and>
        resolve (sys_fs w) True (path_join [abs_path t, file_name d]) = Inr p \<and>
        fs_get (sys_fs w2) p = Some (Regular (saved_mode (sys_fs w) p) (rd_data (response_body resp))) \<and>
        (0 < max_bytes s \<longrightarrow> int (length (rd_data (response_body resp))) \<le> max_bytes s)))"
    (is "\<exists>p. ?only p \<and> (_ \<longrightarrow> _) \<and> ?got p")
proof -
  let ?at = "resolve (sys_fs w) True (path_join [abs_path t, file_name d])"
  note anywhere = http_download_anywhere [OF assms(4,5)]
  have only: "?only p" if "\<And>q. ?at = Inr q \<Longrightarrow> q = p" for p using anywhere(1) that by blast
  have got: "?got p" if at: "\<And>ok. r = Inr ok \<Longrightarrow> ?at = Inr p" for p
  proof (intro allI impI)
    fix ok assume r: "r = Inr ok"
    show "ok \<and> (\<exists>u rt n resp. new_request (hd_url d) = Inr u \<and>
        round_tripper_for_host (he_net env) (he_check env) s (url_hostname u) = Inr rt \<and>
        he_do env (sys_net w) rt u (http_authorization env s (sys_fs w) (hd_url d) u) = (n, Inr resp) \<and>
        200 \<le> hr_status resp \<and> hr_status resp < 300 \<and> rd_end (response_body resp) = None \<and>
        ?at = Inr p \<and> fs_get (sys_fs w2) p = Some (Regular (saved_mode (sys_fs w) p) (rd_data (response_body resp))) \<and>
        (0 < max_bytes s \<longrightarrow> int (length (rd_data (response_body resp))) \<le> max_bytes s))"
      using anywhere(2) [OF r] at [OF r] by simp
  qed
  show ?thesis
  proof (cases "CHR ''/'' \<in> set (hd_archive d)")
    case True
    show ?thesis
    proof (cases ?at)
      case (Inl x)
      then have "r \<noteq> Inr ok" for ok using anywhere(2) [of ok] by auto
      then have "?only [] \<and> ?got []" using only [of "[]"] got [of "[]"] Inl by simp
      then show ?thesis using True by blast
    next
      case (Inr p)
      have "?only p" by (rule only) (simp add: Inr)
      moreover have "?got p" by (rule got) (rule Inr)
      ultimately show ?thesis using True by blast
    qed
  next
    case False
    let ?p = "t @ [file_name d]"
    note saved = http_download_saved [OF assms(1-3) False assms(4,5)]
    have "?at = Inr ?p" if "r = Inr ok" for ok
    proof (rule ccontr)
      assume "?at \<noteq> Inr ?p"
      then have "fs_get (sys_fs w2) ?p = None" using anywhere(1) [of ?p] assms(3) by simp
      then show False using conjunct2 [OF saved, rule_format, OF that] by simp
    qed
    then have "?got ?p" by (rule got)
    moreover have "?only ?p" using saved by simp
    ultimately show ?thesis by blast
  qed
qed

text \<open>
  The value of \<^verbatim>\<open>archive\<close> goes into the name unchecked: with dots and slashes it leads out of the
  temporary directory, and the body is written where the URL says.
\<close>

lemma archive_parameter_escapes:
  "parse_http_url ''https://h/f?archive=x/../../../o/p'' = Inr \<lparr>hd_url = ''https://h/f'', hd_archive = ''x/../../../o/p''\<rparr>"
  "path_join [''/t/grabber/u'', file_name \<lparr>hd_url = ''https://h/f'', hd_archive = ''x/../../../o/p''\<rparr>] = ''/t/o/p''"
  by code_simp+

lemma archive_body_written_outside:
  assumes "placed (sys_fs w) [''t'', ''o'', ''p'']" and "fs_get (sys_fs w) [''t'', ''o'', ''p''] = None"
    and "200 \<le> hr_status resp" and "hr_status resp < 300" and "rd_end (response_body resp) = None" and "max_bytes s \<le> 0"
  shows "\<exists>w2. receive_file (\<lambda>_. None) s \<lparr>hd_url = ''https://h/f'', hd_archive = ''x/../../../o/p''\<rparr> ''/t/grabber/u'' w (Inr resp) = (w2, Inr True) \<and>
    fs_get (sys_fs w2) [''t'', ''o'', ''p''] = Some (Regular 438 (rd_data (response_body resp)))"
proof -
  let ?p = "[''t'', ''o'', ''p'']"
  have "abs_path ?p = ''/t/o/p''" by code_simp
  then have "open_create (sys_fs w) ''/t/o/p'' 438 = (fs_set (sys_fs w) ?p (Regular 438 []), Inr ?p)"
    using create_placed [OF assms(1,2)] by simp
  then show ?thesis
    using assms(3-6)
    by (simp add: receive_file_def archive_parameter_escapes(2) save_stream_def limit_copy_def io_copy_def write_created fs_get_set)
qed

section \<open>A concrete instance\<close>

definition demo_http :: "unit http_env" where
  "demo_http =
     \<lparr>he_net = demo_env, he_check = \<lparr>ce_idna = \<lparr>lookup_to_ascii = Inr, puny_to_ascii = Inr\<rparr>, ce_lookup = (\<lambda>_. Inr []), ce_done = False\<rparr>,
      he_reach = (\<lambda>_. True), he_targets = (\<lambda>_. []), he_netrc_path = [],
      he_do = (\<lambda>n rt u a. (n, Inr \<lparr>hr_status = 200, hr_content_type = [], hr_body = Some (file_reader ''data''), hr_length = 4\<rparr>)),
      he_disk = (\<lambda>_. None)\<rparr>"

text \<open>The value of \<^verbatim>\<open>archive\<close> takes this one out of \<^verbatim>\<open>/t\<close>.\<close>

theorem http_download_exact_witness:
  "\<exists>w2. http_download demo_http \<lparr>hd_url = ''http://h/a/f.zip'', hd_archive = ''x/../../o''\<rparr> demo_default (abs_path [''t''])
       \<lparr>sys_fs = \<lparr>fs_nodes = [([''t''], Dir 493)], fs_cwd = []\<rparr>, sys_net = ()\<rparr> = (w2, Inr True) \<and>
     fs_get (sys_fs w2) [''o''] = Some (Regular 438 ''data'') \<and> fs_get (sys_fs w2) [''t''] = Some (Dir 493)"
proof -
  let ?d = "\<lparr>hd_url = ''http://h/a/f.zip'', hd_archive = ''x/../../o''\<rparr>"
  let ?f = "\<lparr>fs_nodes = [([''t''], Dir 493)], fs_cwd = []\<rparr>"
  let ?w = "\<lparr>sys_fs = ?f, sys_net = ()\<rparr>"
  have name: "file_name ?d = ''archive.x/../../o''" "path_join [''/t'', ''archive.x/../../o''] = ''/o''" "abs_path [''t''] = ''/t''"
    "resolve ?f True ''/o'' = Inr [''o'']" "saved_mode ?f [''o''] = 438"
    "open_create ?f ''/o'' 438 = (fs_set ?f [''o''] (Regular 438 []), Inr [''o''])"
    "limit_copy None (file_reader ''data'') default_max_bytes = (''data'', None)" by code_simp+
  obtain u where u: "new_request (hd_url ?d) = Inr u"
  proof -
    have "(case new_request (hd_url ?d) of Inl _ \<Rightarrow> False | Inr _ \<Rightarrow> True)" by code_simp
    then show ?thesis using that by (auto split: sum.splits)
  qed
  have pr: "probe_connect_for env demo_default reach ts a b c = None" for env reach ts a b c
    by (simp add: probe_connect_for_def demo_default_def default_settings_def)
  have "\<exists>w2. http_download demo_http ?d demo_default (abs_path [''t'']) ?w = (w2, Inr True)"
    using name u
    by (simp add: http_download_def pr demo_http_def round_tripper_for_host_def demo_transport_for_host receive_file_def
        response_body_def save_stream_def Let_def) (simp add: demo_default_def default_settings_def)
  then obtain w2 where r: "http_download demo_http ?d demo_default (abs_path [''t'']) ?w = (w2, Inr True)" by blast
  have "plain_comps [''t'']" by code_simp
  then have t: "placed (sys_fs ?w) [''t'']" "fs_get (sys_fs ?w) [''t''] = Some (Dir 493)" "\<And>c. fs_get (sys_fs ?w) ([''t''] @ [c]) = None"
    using placed_snoc [of ?f "[]" "''t''"] by (auto simp: fs_get_def)
  have "max_bytes demo_default < max_int64"
    by (simp add: demo_default_def default_settings_def default_max_bytes_def max_int64_def)
  from http_download_exact [OF t this r] name(1-5)
  have "fs_get (sys_fs w2) [''o''] = Some (Regular 438 ''data'') \<and> fs_get (sys_fs w2) [''t''] = fs_get ?f [''t'']"
    by (auto simp: demo_http_def response_body_def)
  then show ?thesis using r t(2) by auto
qed

end
