(* ===== verification/File_Protocol.thy ===== *)
theory File_Protocol
  imports Protocols Copy_Tree
begin

text \<open>
  The local-file protocol (\<^verbatim>\<open>protocols/file/file.go\<close>): the paths it recognises, the restriction to
  allowed directories with its own resolution of symbolic links, and the copy.  Its copying of
  directories is in theory Copy_Tree.
\<close>

section \<open>Detection\<close>

record file_dl =
  fd_path :: string

text \<open>\<open>wd\<close> is \<^verbatim>\<open>os.Getwd()\<close>.\<close>

definition parse_file_url :: "string result \<Rightarrow> string \<Rightarrow> file_dl result" where
  "parse_file_url wd raw =
     (if has_prefix raw ''file://'' then
        (case url_parse raw of
           None \<Rightarrow> Inl (errors_new ''parse'')
         | Some u \<Rightarrow> if u_path u = [] then Inl (errors_new ''no path specified'') else Inr \<lparr>fd_path = u_path u\<rparr>)
      else if is_abs raw then Inr \<lparr>fd_path = raw\<rparr>
      else if has_prefix raw ''./'' \<or> has_prefix raw ''../'' then
        (case wd of
           Inl e \<Rightarrow> Inl (wrap_err ''get working directory: %w'' [] e)
         | Inr d \<Rightarrow> Inr \<lparr>fd_path = path_join [d, raw]\<rparr>)
      else Inl (errors_new ''not a file URL''))"

definition file_detect :: "string result \<Rightarrow> string \<Rightarrow> file_dl option" where
  "file_detect wd raw = (case parse_file_url wd raw of Inl _ \<Rightarrow> None | Inr d \<Rightarrow> Some d)"

section \<open>Resolving symbolic links\<close>

text \<open>
  \<^verbatim>\<open>filepath.EvalSymlinks\<close> of an absolute path: every element must exist, and at most 255 links
  are followed.
\<close>

function eval_walk :: "fs \<Rightarrow> nat \<Rightarrow> fpath \<Rightarrow> string list \<Rightarrow> fpath result" where
  "eval_walk f n cur [] = Inr cur"
| "eval_walk f n cur (c # cs) =
     (if c = ''..'' then eval_walk f n (butlast cur) cs
      else case fs_get f (cur @ [c]) of
        None \<Rightarrow> Inl enoent
      | Some (Dir m) \<Rightarrow> eval_walk f n (cur @ [c]) cs
      | Some (Regular m d) \<Rightarrow> if cs = [] then Inr (cur @ [c]) else Inl enotdir
      | Some (Link t) \<Rightarrow>
          if n = 0 then Inl (errors_new ''EvalSymlinks: too many links'')
          else eval_walk f (n - 1) (if is_abs t then [] else cur) (raw_comps t @ cs))"
  by pat_completeness auto
termination
  by (relation "measures [\<lambda>(f, n, cur, cs). n, \<lambda>(f, n, cur, cs). length cs]") auto

definition eval_symlinks :: "fs \<Rightarrow> string \<Rightarrow> string result" where
  "eval_symlinks f s = bind_result (eval_walk f 255 [] (raw_comps s)) (\<lambda>p. Inr (abs_path p))"

text \<open>
  The climb to the first ancestor that can be resolved; \<open>k\<close> bounds the number of elements of the
  path.
\<close>

fun climb :: "nat \<Rightarrow> fs \<Rightarrow> string \<Rightarrow> string \<Rightarrow> string list \<Rightarrow> string" where
  "climb 0 f full dir rest = full"
| "climb (Suc k) f full dir rest =
     (if path_dir dir = dir then full
      else case eval_symlinks f (path_dir dir) of
        Inr r \<Rightarrow> path_join (r # path_base dir # rest)
      | Inl _ \<Rightarrow> climb k f full (path_dir dir) (path_base dir # rest))"

definition abs_of :: "string result \<Rightarrow> string \<Rightarrow> string result" where
  "abs_of wd s = (if is_abs s then Inr (path_clean s) else bind_result wd (\<lambda>d. Inr (path_join [d, s])))"

definition resolve_path :: "string result \<Rightarrow> fs \<Rightarrow> string \<Rightarrow> string result" where
  "resolve_path wd f path =
     bind_result (abs_of wd path) (\<lambda>full.
       case eval_symlinks f full of
         Inr r \<Rightarrow> Inr r
       | Inl _ \<Rightarrow> Inr (climb (length full) f full full []))"

fun allowed_loop :: "string result \<Rightarrow> fs \<Rightarrow> string \<Rightarrow> string list \<Rightarrow> bool" where
  "allowed_loop wd f resolved [] = False"
| "allowed_loop wd f resolved (dir # dirs) =
     (case resolve_path wd f dir of
        Inl _ \<Rightarrow> allowed_loop wd f resolved dirs
      | Inr root \<Rightarrow>
          if resolved = root \<or> has_prefix resolved (root @ ''/'') then True
          else allowed_loop wd f resolved dirs)"

definition check_allowed :: "string result \<Rightarrow> fs \<Rightarrow> string \<Rightarrow> string list \<Rightarrow> goerr option" where
  "check_allowed wd f path allowed =
     (if allowed = [] then None
      else case resolve_path wd f path of
        Inl e \<Rightarrow> Some (wrap_err ''resolving %s: %w'' [path] e)
      | Inr resolved \<Rightarrow>
          if allowed_loop wd f resolved allowed then None
          else Some (Errorf ''path %s is not within an allowed local directory'' [path] []))"

section \<open>Download\<close>

definition file_download ::
    "string result \<Rightarrow> nat \<Rightarrow> (fpath \<Rightarrow> writer) \<Rightarrow> file_dl \<Rightarrow> 't settings \<Rightarrow> string \<Rightarrow> fs \<Rightarrow> (fs \<times> bool result) option" where
  "file_download wd k disk d s tmp f =
     (case check_allowed wd f (fd_path d) (allowed_local_dirs s) of
        Some e \<Rightarrow> Some (f, Inl e)
      | None \<Rightarrow>
          (case fs_stat f (fd_path d) of
             Inl e \<Rightarrow> Some (f, Inl (wrap_err ''stat %s: %w'' [fd_path d] e))
           | Inr n \<Rightarrow>
               if is_dir n
               then map_option (\<lambda>(g, e). (g, case e of Some e \<Rightarrow> Inl e | None \<Rightarrow> Inr False))
                      (copy_local_dir k disk f (fd_path d) tmp)
               else (case copy_local_file disk f (fd_path d) (path_join [tmp, path_base (fd_path d)]) of
                       (g, Some e) \<Rightarrow> Some (g, Inl e)
                     | (g, None) \<Rightarrow> Some (g, Inr True))))"

definition file_protocol :: "string result \<Rightarrow> nat \<Rightarrow> (fpath \<Rightarrow> writer) \<Rightarrow> 'n protocol" where
  "file_protocol wd k disk =
     \<lparr>pr_prefix = ''file'', pr_priority = 10,
      pr_detect = (\<lambda>_ raw. map_option (\<lambda>d s tmp w. map_option (\<lambda>(f, r). (w\<lparr>sys_fs := f\<rparr>, r))
         (file_download wd k disk d s tmp (sys_fs w))) (file_detect wd raw)),
      pr_forced = None\<rparr>"

section \<open>Facts\<close>

text \<open>Where the kernel finds a node, so does \<^verbatim>\<open>EvalSymlinks\<close>, at the same place.\<close>

lemma eval_walk_kernel:
  "walk f True m cur cs = Inr p \<Longrightarrow> fs_get f p \<noteq> None \<Longrightarrow> m \<le> n \<Longrightarrow> eval_walk f n cur cs = Inr p"
proof (induction f True m cur cs arbitrary: n rule: walk.induct)
  case (2 f m cur c cs)
  show ?case
  proof (cases "c = ''..''")
    case True
    then show ?thesis using 2(1) 2(4-6) by simp
  next
    case c: False
    show ?thesis
    proof (cases "fs_get f (cur @ [c])")
      case None
      then show ?thesis using c 2(4,5) by (auto split: if_splits)
    next
      case (Some x)
      show ?thesis
      proof (cases x)
        case (Dir k)
        then show ?thesis using 2(2) [OF c Some Dir] 2(4-6) c Some by simp
      next
        case (Regular k d)
        then show ?thesis using 2(4) c Some by (auto split: if_splits)
      next
        case (Link t)
        have m: "m \<noteq> 0" using 2(4) c Some Link by (auto split: if_splits)
        then have "walk f True (m - 1) (if is_abs t then [] else cur) (raw_comps t @ cs) = Inr p"
          using 2(4) c Some Link by simp
        then have "eval_walk f (n - 1) (if is_abs t then [] else cur) (raw_comps t @ cs) = Inr p"
          using 2(3) [OF c Some Link] m 2(5,6) by auto
        then show ?thesis using c Some Link m 2(6) by simp
      qed
    qed
  qed
qed simp

lemma eval_walk_node:
  "eval_walk f n cur cs = Inr p \<Longrightarrow> fs_ok f \<Longrightarrow> fs_get f cur \<noteq> None \<Longrightarrow> fs_get f p \<noteq> None"
proof (induction f n cur cs rule: eval_walk.induct)
  case (2 f n cur c cs)
  have up: "fs_get f (butlast cur) \<noteq> None"
    using 2(6) ok_none_below [OF 2(5) prefixeq_butlast [of cur]] by (cases "fs_get f (butlast cur)") auto
  have root: "fs_get f [] \<noteq> None" by (simp add: fs_get_def)
  show ?case
    using 2 up root
    by (cases "fs_get f (cur @ [c])"; cases "c = ''..''") (auto split: fnode.splits if_splits)
qed simp

lemma eval_symlinks_clean:
  assumes "eval_symlinks f x = Inr r" and "fs_ok f"
  obtains p where "r = abs_path p" "plain_comps p"
proof -
  obtain p where p: "eval_walk f 255 [] (raw_comps x) = Inr p" "r = abs_path p"
    using assms(1) by (auto simp: eval_symlinks_def bind_result_Inr_iff)
  have "fs_get f p \<noteq> None" by (rule eval_walk_node [OF p(1) assms(2)]) (simp add: fs_get_def)
  then have "plain_comps p" using ok_placed [OF assms(2)] placed_plain by auto
  then show ?thesis using p(2) that by blast
qed

lemma join_clean: "is_abs r \<Longrightarrow> is_abs (path_join (r # es)) \<and> path_clean (path_join (r # es)) = path_join (r # es)"
proof -
  assume r: "is_abs r"
  then have "r \<noteq> []" by (auto simp: is_abs_def)
  then have "path_join (r # es) = path_clean (join_str ''/'' (r # es))" by (simp add: path_join_def)
  moreover have "is_abs (join_str ''/'' (r # es))" using r \<open>r \<noteq> []\<close> by (cases es) (auto simp: is_abs_append)
  ultimately show ?thesis by simp
qed

lemma climb_clean:
  "fs_ok f \<Longrightarrow> is_abs full \<and> path_clean full = full \<Longrightarrow>
   is_abs (climb k f full dir rest) \<and> path_clean (climb k f full dir rest) = climb k f full dir rest"
proof (induction k arbitrary: dir rest)
  case (Suc k)
  show ?case
  proof (cases "eval_symlinks f (path_dir dir)")
    case (Inr r)
    obtain p where "r = abs_path p" by (rule eval_symlinks_clean [OF Inr Suc.prems(1)])
    then have "is_abs r" by simp
    then show ?thesis using Suc.prems(2) Inr join_clean by simp
  qed (use Suc in simp)
qed simp

lemma resolve_path_clean:
  assumes "resolve_path wd f x = Inr root" and "fs_ok f" and "\<And>d. wd = Inr d \<Longrightarrow> is_abs d"
  obtains rc where "root = abs_path rc" "plain_comps rc"
proof -
  obtain full where full: "abs_of wd x = Inr full"
    and r: "(case eval_symlinks f full of Inr r \<Rightarrow> Inr r | Inl _ \<Rightarrow> Inr (climb (length full) f full full [])) = (Inr root :: string result)"
    using assms(1) by (auto simp: resolve_path_def bind_result_Inr_iff)
  have "is_abs full \<and> path_clean full = full"
    using full assms(3) join_clean by (auto simp: abs_of_def bind_result_Inr_iff split: if_splits)
  note c = climb_clean [OF assms(2) this, of "length full" full "[]"]
  show ?thesis
  proof (cases "eval_symlinks f full")
    case (Inl e)
    then have "root = climb (length full) f full full []" using r by simp
    then show ?thesis using c clean_abs [of root] by (intro that [of "path_comps root"]) simp_all
  next
    case (Inr a)
    then have "eval_symlinks f full = Inr root" using r by simp
    then show ?thesis by (rule eval_symlinks_clean [OF _ assms(2)]) (rule that)
  qed
qed

lemma allowed_loop_True:
  "allowed_loop wd f resolved dirs \<Longrightarrow> \<exists>dir\<in>set dirs. \<exists>root. resolve_path wd f dir = Inr root \<and>
     (resolved = root \<or> has_prefix resolved (root @ ''/''))"
  by (induction dirs) (auto split: sum.splits if_splits)

lemma abs_prefix:
  assumes "plain_comps p" and "plain_comps rc" and "abs_path p = abs_path rc \<or> has_prefix (abs_path p) (abs_path rc @ ''/'')"
  shows "prefix rc p"
proof (cases "abs_path p = abs_path rc")
  case True
  have "p = path_comps (abs_path p)" by (rule path_comps_abs [OF assms(1), symmetric])
  also have "\<dots> = path_comps (abs_path rc)" using True by (rule arg_cong)
  also have "\<dots> = rc" by (rule path_comps_abs [OF assms(2)])
  finally show ?thesis by simp
next
  case False
  show ?thesis
  proof (cases "rc = []")
    case ne: False
    have "has_prefix (join_str ''/'' p) (join_str ''/'' rc @ ''/'')"
      using False assms(3) by (simp add: unsplit_def has_prefix_Cons)
    then show ?thesis
      using prefix_slash_iff [OF plain_normal [OF assms(1)] plain_normal [OF assms(2)] ne] by auto
  qed simp
qed

text \<open>Cleaning a path without \<^verbatim>\<open>..\<close> leaves its elements, and so what it names.\<close>

lemma raw_comps_clean:
  assumes "is_abs x" and "''..'' \<notin> set (raw_comps x)"
  shows "raw_comps (path_clean x) = raw_comps x"
proof -
  have "clean_comps a st cs = st @ filter (\<lambda>c. c \<noteq> [] \<and> c \<noteq> ''.'') cs" if "''..'' \<notin> set cs" for a st cs
    using that by (induction cs arbitrary: st) (auto simp: clean_comps_def clean_step_def)
  moreover have "''..'' \<notin> set (split_chr CHR ''/'' x)" using assms(2) by (auto simp: raw_comps_def)
  ultimately have "path_comps x = raw_comps x" by (simp add: path_comps_def raw_comps_def)
  moreover have "raw_comps (path_clean x) = path_comps x"
    using clean_abs [OF assms(1)] by (simp add: raw_comps_abs)
  ultimately show ?thesis by simp
qed

lemma clean_names_same:
  assumes "is_abs x" and "''..'' \<notin> set (raw_comps x)"
  shows "resolve f fl (path_clean x) = resolve f fl x"
proof -
  have "x \<noteq> []" "path_clean x \<noteq> []" using assms(1) by (auto simp: is_abs_def path_clean_not_Nil)
  then show ?thesis using assms raw_comps_clean [OF assms] by (simp add: resolve_def)
qed

text \<open>Where the kernel finds something at a clean path, \<open>resolve_path\<close> ends there.\<close>

lemma resolve_path_kernel:
  assumes "is_abs x" and "resolve f True (path_clean x) = Inr p" and "fs_get f p \<noteq> None"
  shows "resolve_path wd f x = Inr (abs_path p)"
proof -
  have "walk f True symloop_max [] (raw_comps (path_clean x)) = Inr p"
    using assms(1,2) by (auto simp: resolve_def split: if_splits)
  then have "eval_walk f 255 [] (raw_comps (path_clean x)) = Inr p"
    by (rule eval_walk_kernel) (simp_all add: assms(3) symloop_max_def)
  then show ?thesis using assms(1) by (simp add: resolve_path_def abs_of_def eval_symlinks_def)
qed

lemma check_allowed_None:
  assumes "check_allowed wd f x dirs = None" and "dirs \<noteq> []" and "fs_ok f" and "\<And>dir. wd = Inr dir \<Longrightarrow> is_abs dir"
  obtains dir root p where "dir \<in> set dirs" "resolve_path wd f dir = Inr (abs_path root)"
    "resolve_path wd f x = Inr (abs_path p)" "plain_comps p" "prefix root p"
proof -
  obtain r where r: "resolve_path wd f x = Inr r" "allowed_loop wd f r dirs"
    using assms(1,2) by (auto simp: check_allowed_def split: sum.splits if_splits)
  obtain p where p: "r = abs_path p" "plain_comps p" by (rule resolve_path_clean [OF r(1) assms(3,4)])
  obtain dir root where dir: "dir \<in> set dirs" "resolve_path wd f dir = Inr root"
    "abs_path p = root \<or> has_prefix (abs_path p) (root @ ''/'')" using allowed_loop_True [OF r(2)] p by blast
  obtain rc where rc: "root = abs_path rc" "plain_comps rc" by (rule resolve_path_clean [OF dir(2) assms(3,4)])
  have "prefix rc p" using abs_prefix [OF p(2) rc(2)] dir(3) rc(1) by simp
  then show ?thesis using that dir(1,2) r(1) p rc(1) by blast
qed

section \<open>Properties\<close>

text \<open>
  C13. A restriction to allowed directories, for every absolute path: the download is refused, with an
  error and nothing copied, unless the cleaned path lies, all symbolic links followed, within a
  directory of the list, all of whose links are followed too.  If the path has no \<^verbatim>\<open>..\<close> in it, or
  cleaning it does not change what it names for another reason, then it is that place that is read;
  a \<^verbatim>\<open>..\<close> after a link is the one way around the restriction, as \<open>dotdot_after_link_escapes\<close> shows.
\<close>

theorem allowed_directories_respected:
  assumes "file_download wd k disk d s tmp f = Some (g, r)"
    and "allowed_local_dirs s \<noteq> []" and "is_abs (fd_path d)" and "fs_ok f" and "\<And>dir. wd = Inr dir \<Longrightarrow> is_abs dir"
  shows "(g = f \<and> (\<exists>e. r = Inl e)) \<or>
    (\<exists>dir root p. dir \<in> set (allowed_local_dirs s) \<and> resolve_path wd f dir = Inr (abs_path root) \<and>
       resolve_path wd f (fd_path d) = Inr (abs_path p) \<and> prefix root p \<and>
       (''..'' \<notin> set (raw_comps (fd_path d)) \<or> resolve f True (path_clean (fd_path d)) = resolve f True (fd_path d) \<longrightarrow>
          resolve f True (fd_path d) = Inr p \<and> fs_get f p \<noteq> None))"
proof (cases "check_allowed wd f (fd_path d) (allowed_local_dirs s)")
  case (Some e)
  then show ?thesis using assms(1) by (auto simp: file_download_def)
next
  case None
  obtain dir root p where dir: "dir \<in> set (allowed_local_dirs s)" "resolve_path wd f dir = Inr (abs_path root)"
    "resolve_path wd f (fd_path d) = Inr (abs_path p)" "plain_comps p" "prefix root p"
    using check_allowed_None [OF None assms(2,4,5)] by blast
  show ?thesis
  proof (cases "fs_stat f (fd_path d)")
    case (Inl e)
    then show ?thesis using assms(1) None by (auto simp: file_download_def)
  next
    case (Inr n)
    then obtain q where q: "resolve f True (fd_path d) = Inr q" "fs_get f q = Some n"
      by (auto simp: fs_stat_def bind_result_Inr_iff split: option.splits)
    have "q = p" if "resolve f True (path_clean (fd_path d)) = resolve f True (fd_path d)"
    proof -
      have "resolve_path wd f (fd_path d) = Inr (abs_path q)" by (rule resolve_path_kernel) (simp_all add: assms(3) that q)
      then have "path_comps (abs_path q) = path_comps (abs_path p)" using dir(3) by simp
      then show ?thesis using path_comps_abs dir(4) placed_plain [OF ok_placed [OF assms(4) q(2)]] by simp
    qed
    then show ?thesis using dir q clean_names_same [OF assms(3)] by blast
  qed
qed

text \<open>
  A local directory is downloaded whole into the empty temporary directory: everything in it,
  symbolic links as links, and nothing else changes.
\<close>

theorem file_directory_copied:
  assumes "fs_ok f" and "fs_get f p = Some (Dir m)" and "fs_get f t = Some (Dir m')" and "\<And>c. fs_get f (t @ [c]) = None"
    and "\<not> prefix p t" and "\<not> prefix t p" and "\<And>q. disk q = None" and "fs_depth f < k"
    and "allowed_local_dirs s = []" and "fd_path d = abs_path p"
  shows "\<exists>g. file_download wd k disk d s (abs_path t) f = Some (g, Inr False) \<and>
    (\<forall>r. r \<noteq> [] \<longrightarrow> fs_get g (t @ r) = fs_get f (p @ r)) \<and> (\<forall>q. \<not> strict_prefix t q \<longrightarrow> fs_get g q = fs_get f q)"
proof -
  obtain g where g: "copy_local_dir k disk f (abs_path p) (abs_path t) = Some (g, None)"
    "\<forall>r. r \<noteq> [] \<longrightarrow> fs_get g (t @ r) = fs_get f (p @ r)" "\<forall>q. \<not> strict_prefix t q \<longrightarrow> fs_get g q = fs_get f q"
    using copy_tree_into [OF assms(1-6) copies_files_both(2) [of disk] assms(7,8)] unfolding copy_local_dir_def by blast
  have "fs_stat f (abs_path p) = Inr (Dir m)"
    using ok_placed [OF assms(1,2)] assms(2) by (simp add: stat_placed)
  then show ?thesis using g assms(9,10) by (simp add: file_download_def check_allowed_def is_dir_def)
qed

text \<open>
  The restriction can be left through \<^verbatim>\<open>..\<close>: the check cleans the path before it follows links,
  the copy does not, so with a link to a directory anywhere below an allowed one the parent of its
  target can be read.
\<close>

theorem dotdot_after_link_escapes:
  "\<exists>g. file_download (Inl einval) 9 (\<lambda>_. None) \<lparr>fd_path = ''/data/l/../secret''\<rparr>
      ((default_settings ''/tmp'' :: unit settings)\<lparr>allowed_local_dirs := [''/data'']\<rparr>) ''/t''
      \<lparr>fs_nodes = [([''data''], Dir 493), ([''data'', ''l''], Link ''/o/d''), ([''o''], Dir 493), ([''o'', ''d''], Dir 493),
         ([''o'', ''secret''], Regular 384 ''key''), ([''t''], Dir 493)], fs_cwd = []\<rparr> = Some (g, Inr True) \<and>
    fs_get g [''t'', ''secret''] = Some (Regular 384 ''key'')"
proof -
  let ?f = "\<lparr>fs_nodes = [([''data''], Dir 493), ([''data'', ''l''], Link ''/o/d''), ([''o''], Dir 493), ([''o'', ''d''], Dir 493),
         ([''o'', ''secret''], Regular 384 ''key''), ([''t''], Dir 493)], fs_cwd = []\<rparr>"
  have "check_allowed (Inl einval) ?f ''/data/l/../secret'' [''/data''] = None"
    "fs_stat ?f ''/data/l/../secret'' = Inr (Regular 384 ''key'')"
    "copy_local_file (\<lambda>_. None) ?f ''/data/l/../secret'' (path_join [''/t'', path_base ''/data/l/../secret'']) =
       (fs_set ?f [''t'', ''secret''] (Regular 384 ''key''), None)"
    by code_simp+
  then show ?thesis by (simp add: file_download_def is_dir_def fs_get_set)
qed

text \<open>The root directory as an allowed directory allows nothing but itself.\<close>

lemma allowed_root_allows_nothing:
  "check_allowed (Inl einval) \<lparr>fs_nodes = [([''f''], Regular 420 ''x'')], fs_cwd = []\<rparr> ''/f'' [''/''] \<noteq> None"
  by code_simp

text \<open>
  A source that is a symbolic link to a directory is not copied: the walk sees the link itself, and
  the temporary directory is replaced by a copy of it.
\<close>

lemma linked_directory_not_copied:
  "copy_local_dir 9 (\<lambda>_. None)
     \<lparr>fs_nodes = [([''d''], Dir 493), ([''d'', ''f''], Regular 420 ''x''), ([''l''], Link ''d''), ([''t''], Dir 493), ([''t'', ''u''], Dir 493)], fs_cwd = []\<rparr>
     ''/l'' ''/t/u'' =
   Some (\<lparr>fs_nodes = [([''t'', ''u''], Link ''d''), ([''d''], Dir 493), ([''d'', ''f''], Regular 420 ''x''), ([''l''], Link ''d''), ([''t''], Dir 493)], fs_cwd = []\<rparr>, None)"
  by code_simp

section \<open>Concrete instances\<close>

definition demo_local :: fs where
  "demo_local = \<lparr>fs_nodes = [([''data''], Dir 493), ([''data'', ''f''], Regular 420 ''x''), ([''t''], Dir 493)], fs_cwd = []\<rparr>"

lemma demo_local_ok: "fs_ok demo_local"
proof -
  have "plain_comps [''data'', ''f'']" "plain_comps [''t'']" by code_simp+
  then show ?thesis by (auto simp: fs_ok_def demo_local_def fs_get_def plain_comps_def split: if_splits)
qed

theorem allowed_directories_respected_witness:
  "\<exists>dir root p. dir \<in> {''/data''} \<and> resolve_path (Inl einval) demo_local dir = Inr (abs_path root) \<and>
     resolve demo_local True ''/data//./f'' = Inr p \<and> fs_get demo_local p \<noteq> None \<and> prefix root p"
proof -
  let ?s = "(default_settings ''/tmp'' :: unit settings)\<lparr>allowed_local_dirs := [''/data'']\<rparr>"
  have "check_allowed (Inl einval) demo_local ''/data//./f'' [''/data''] = None"
    "fs_stat demo_local ''/data//./f'' = Inr (Regular 420 ''x'')"
    "copy_local_file (\<lambda>_. None) demo_local ''/data//./f'' (path_join [''/t'', path_base ''/data//./f'']) =
       (fs_set demo_local [''t'', ''f''] (Regular 420 ''x''), None)"
    by code_simp+
  then have r: "file_download (Inl einval) 9 (\<lambda>_. None) \<lparr>fd_path = ''/data//./f''\<rparr> ?s ''/t'' demo_local =
      Some (fs_set demo_local [''t'', ''f''] (Regular 420 ''x''), Inr True)"
    by (simp add: file_download_def is_dir_def)
  have "is_abs ''/data//./f''" "''..'' \<notin> set (raw_comps ''/data//./f'')" by code_simp+
  then show ?thesis using allowed_directories_respected [OF r _ _ demo_local_ok] by auto
qed

theorem file_directory_copied_witness:
  "\<exists>g. file_download (Inl einval) 3 (\<lambda>_. None) \<lparr>fd_path = ''/data''\<rparr> (default_settings ''/tmp'' :: unit settings) ''/t'' demo_local =
      Some (g, Inr False) \<and> fs_get g [''t'', ''f''] = Some (Regular 420 ''x'')"
proof -
  have paths: "abs_path [''data''] = ''/data''" "abs_path [''t''] = ''/t''" by code_simp+
  have "fs_get demo_local [''data''] = Some (Dir 493)" "fs_get demo_local [''t''] = Some (Dir 493)"
    "fs_get demo_local ([''t''] @ [c]) = None" "fs_depth demo_local < 3" for c
    by (simp_all add: demo_local_def fs_get_def fs_depth_def)
  note r = file_directory_copied [OF demo_local_ok this(1-3), of "\<lambda>_. None" 3 "default_settings ''/tmp'' :: unit settings" "\<lparr>fd_path = ''/data''\<rparr>" "Inl einval"]
  obtain g where g: "file_download (Inl einval) 3 (\<lambda>_. None) \<lparr>fd_path = ''/data''\<rparr> (default_settings ''/tmp'' :: unit settings) ''/t'' demo_local =
      Some (g, Inr False)" "\<forall>r. r \<noteq> [] \<longrightarrow> fs_get g ([''t''] @ r) = fs_get demo_local ([''data''] @ r)"
    using r \<open>fs_depth demo_local < 3\<close> by (auto simp: paths default_settings_def)
  then show ?thesis using g(2) [rule_format, of "[''f'']"] by (simp add: demo_local_def fs_get_def)
qed

end
