(* ===== verification/Options.thy ===== *)
theory Options
  imports Settings
begin

text \<open>
  \<^verbatim>\<open>options.go\<close> and the \<^verbatim>\<open>New\<close> of \<^verbatim>\<open>grabber.go\<close>: the functional options, one definition each, and
  the grabber they build.  An option is a function on grabbers; \<open>'t\<close> is the type of the base
  transport and \<open>'p\<close> that of protocols.  Go's nil slices and callbacks are \<open>None\<close>.
\<close>

section \<open>Grabbers and options\<close>

record ('t, 'p) grabber =
  g_settings :: "'t settings"
  g_protocols :: "'p list"

type_synonym ('t, 'p) option_fn = "('t, 'p) grabber \<Rightarrow> ('t, 'p) grabber"

text \<open>\<open>tmp\<close> is \<^verbatim>\<open>os.TempDir()\<close> and \<open>all\<close> the package's list of protocols.\<close>

definition new_grabber :: "string \<Rightarrow> 'p list \<Rightarrow> ('t, 'p) option_fn list \<Rightarrow> ('t, 'p) grabber" where
  "new_grabber tmp all options =
     foldl (\<lambda>g opt. opt g) \<lparr>g_settings = default_settings tmp, g_protocols = all\<rparr> options"

section \<open>The options\<close>

definition update_settings :: "('t settings \<Rightarrow> 't settings) \<Rightarrow> ('t, 'p) option_fn" where
  "update_settings f g = g\<lparr>g_settings := f (g_settings g)\<rparr>"

definition with_connect_probe_timeout :: "int \<Rightarrow> ('t, 'p) option_fn" where
  "with_connect_probe_timeout d =
     update_settings (\<lambda>s. s\<lparr>connect_probe_timeout := d\<rparr>)"

definition with_http_transport :: "'t option \<Rightarrow> ('t, 'p) option_fn" where
  "with_http_transport tr =
     update_settings (\<lambda>s. s\<lparr>http_transport := tr\<rparr>)"

definition with_tls_ca_cert :: "string \<Rightarrow> ('t, 'p) option_fn" where
  "with_tls_ca_cert pem =
     update_settings (\<lambda>s. s\<lparr>tls_ca_certs := tls_ca_certs s @ [pem]\<rparr>)"

definition with_client_certificate :: "string \<Rightarrow> string \<Rightarrow> ('t, 'p) option_fn" where
  "with_client_certificate cert key =
     update_settings (\<lambda>s. s\<lparr>client_certificates := client_certificates s @ [\<lparr>cc_host = [], cc_cert = cert, cc_key = key\<rparr>]\<rparr>)"

definition with_client_certificate_for_host :: "string \<Rightarrow> string \<Rightarrow> string \<Rightarrow> ('t, 'p) option_fn" where
  "with_client_certificate_for_host host cert key =
     update_settings (\<lambda>s. s\<lparr>client_certificates := client_certificates s @ [\<lparr>cc_host = host, cc_cert = cert, cc_key = key\<rparr>]\<rparr>)"

definition with_http_proxy :: "url option \<Rightarrow> string \<Rightarrow> string \<Rightarrow> ('t, 'p) option_fn" where
  "with_http_proxy u username password =
     update_settings (\<lambda>s. s\<lparr>proxies := proxies s @ [\<lparr>px_host = [], px_url = u, px_username = username, px_password = password\<rparr>]\<rparr>)"

definition with_http_proxy_for_host :: "string \<Rightarrow> url option \<Rightarrow> string \<Rightarrow> string \<Rightarrow> ('t, 'p) option_fn" where
  "with_http_proxy_for_host host u username password =
     update_settings (\<lambda>s. s\<lparr>proxies := proxies s @ [\<lparr>px_host = host, px_url = u, px_username = username, px_password = password\<rparr>]\<rparr>)"

definition with_ssrf_protection :: "level \<Rightarrow> ('t, 'p) option_fn" where
  "with_ssrf_protection lvl =
     update_settings (\<lambda>s. s\<lparr>ssrf_level := lvl\<rparr>)"

definition with_custom_ssrf_protection :: "(ip \<Rightarrow> bool) option \<Rightarrow> ('t, 'p) option_fn" where
  "with_custom_ssrf_protection f =
     update_settings (\<lambda>s. s\<lparr>ssrf_level := LevelCustom, ssrf_custom := f\<rparr>)"

definition with_http_credential_request_function :: "credential_request option \<Rightarrow> ('t, 'p) option_fn" where
  "with_http_credential_request_function f =
     update_settings (\<lambda>s. s\<lparr>http_credential_request := f\<rparr>)"

definition with_ssrf_allow_hosts :: "string list \<Rightarrow> ('t, 'p) option_fn" where
  "with_ssrf_allow_hosts hosts =
     update_settings (\<lambda>s. s\<lparr>ssrf_allow := ssrf_allow s @ hosts\<rparr>)"

definition with_netrc :: "bool \<Rightarrow> ('t, 'p) option_fn" where
  "with_netrc on =
     update_settings (\<lambda>s. s\<lparr>use_netrc := on\<rparr>)"

definition with_temporary_directory :: "string \<Rightarrow> ('t, 'p) option_fn" where
  "with_temporary_directory dir =
     update_settings (\<lambda>s. if dir \<noteq> [] then s\<lparr>temporary_directory := dir\<rparr> else s)"

definition with_auto_extract :: "bool \<Rightarrow> ('t, 'p) option_fn" where
  "with_auto_extract on =
     update_settings (\<lambda>s. s\<lparr>enable_auto_extract := on\<rparr>)"

definition with_max_download_bytes :: "int \<Rightarrow> ('t, 'p) option_fn" where
  "with_max_download_bytes n =
     update_settings (\<lambda>s. s\<lparr>max_bytes := n\<rparr>)"

definition with_allowed_local_directories :: "string list \<Rightarrow> ('t, 'p) option_fn" where
  "with_allowed_local_directories dirs =
     update_settings (\<lambda>s. s\<lparr>allowed_local_dirs := allowed_local_dirs s @ dirs\<rparr>)"

definition with_protocols :: "'p list \<Rightarrow> ('t, 'p) option_fn" where
  "with_protocols ps g = g\<lparr>g_protocols := ps\<rparr>"

definition with_aws_credentials :: "string \<Rightarrow> string \<Rightarrow> string \<Rightarrow> string \<Rightarrow> ('t, 'p) option_fn" where
  "with_aws_credentials k sk st r =
     update_settings (\<lambda>s. s\<lparr>aws_creds := \<lparr>access_key_id = k, secret_access_key = sk, session_token = st, aws_region = r\<rparr>\<rparr>)"

definition with_gcp_credentials :: "string \<Rightarrow> ('t, 'p) option_fn" where
  "with_gcp_credentials k =
     update_settings (\<lambda>s. s\<lparr>gcp_creds := \<lparr>service_account_key = k, gcp_endpoint = []\<rparr>\<rparr>)"

definition with_oci_credentials :: "string \<Rightarrow> string \<Rightarrow> ('t, 'p) option_fn" where
  "with_oci_credentials u p =
     update_settings (\<lambda>s. s\<lparr>oci_credentials := oci_credentials s @ [\<lparr>oci_registry = [], oci_username = u, oci_password = p\<rparr>]\<rparr>)"

definition with_oci_credential_for_registry :: "string \<Rightarrow> string \<Rightarrow> string \<Rightarrow> ('t, 'p) option_fn" where
  "with_oci_credential_for_registry registry u p =
     update_settings (\<lambda>s. s\<lparr>oci_credentials := oci_credentials s @ [\<lparr>oci_registry = registry, oci_username = u, oci_password = p\<rparr>]\<rparr>)"

definition with_oci_plain_http :: "('t, 'p) option_fn" where
  "with_oci_plain_http =
     update_settings (\<lambda>s. s\<lparr>oci_plain_http := True\<rparr>)"

definition with_https_credential :: "string \<Rightarrow> string \<Rightarrow> string \<Rightarrow> ('t, 'p) option_fn" where
  "with_https_credential host u p =
     update_settings (\<lambda>s. s\<lparr>https_credentials := https_credentials s @ [\<lparr>hc_host = host, hc_username = u, hc_password = p, hc_path = []\<rparr>]\<rparr>)"

definition with_https_credential_for_path :: "string \<Rightarrow> string \<Rightarrow> string \<Rightarrow> string \<Rightarrow> ('t, 'p) option_fn" where
  "with_https_credential_for_path host path u p =
     update_settings (\<lambda>s. s\<lparr>https_credentials := https_credentials s @ [\<lparr>hc_host = host, hc_username = u, hc_password = p, hc_path = path\<rparr>]\<rparr>)"

definition with_git_ssh_to_https :: "('t, 'p) option_fn" where
  "with_git_ssh_to_https =
     update_settings (\<lambda>s. s\<lparr>git := (git s)\<lparr>ssh_to_https_enabled := True\<rparr>\<rparr>)"

definition with_git_recurse_submodules :: "bool \<Rightarrow> ('t, 'p) option_fn" where
  "with_git_recurse_submodules on =
     update_settings (\<lambda>s. s\<lparr>git := (git s)\<lparr>recurse_submodules := on\<rparr>\<rparr>)"

definition with_git_ssh_key :: "string option \<Rightarrow> ('t, 'p) option_fn" where
  "with_git_ssh_key key =
     update_settings (\<lambda>s. s\<lparr>git := (git s)\<lparr>ssh_keys := ssh_keys (git s) @ [\<lparr>ssh_host = [], ssh_key = key\<rparr>]\<rparr>\<rparr>)"

definition with_git_ssh_key_for_host :: "string \<Rightarrow> string option \<Rightarrow> ('t, 'p) option_fn" where
  "with_git_ssh_key_for_host host key =
     update_settings (\<lambda>s. s\<lparr>git := (git s)\<lparr>ssh_keys := ssh_keys (git s) @ [\<lparr>ssh_host = host, ssh_key = key\<rparr>]\<rparr>\<rparr>)"

definition with_git_depth :: "int \<Rightarrow> ('t, 'p) option_fn" where
  "with_git_depth d =
     update_settings (\<lambda>s. s\<lparr>git := (git s)\<lparr>git_depth := d\<rparr>\<rparr>)"

definition with_git_insecure_skip_host_key_verify :: "('t, 'p) option_fn" where
  "with_git_insecure_skip_host_key_verify =
     update_settings (\<lambda>s. s\<lparr>git := (git s)\<lparr>insecure_skip_host_key_verify := True\<rparr>\<rparr>)"

definition with_git_known_hosts :: "string option \<Rightarrow> ('t, 'p) option_fn" where
  "with_git_known_hosts kh =
     update_settings (\<lambda>s. s\<lparr>git := (git s)\<lparr>known_hosts := kh\<rparr>\<rparr>)"

definition with_no_system_fallback :: "('t, 'p) option_fn" where
  "with_no_system_fallback =
     update_settings (\<lambda>s. s\<lparr>no_system_fallback := True\<rparr>)"

definition without_ambient_credentials :: "('t, 'p) option_fn" where
  "without_ambient_credentials =
     update_settings (\<lambda>s. s\<lparr>no_ambient_credentials := True\<rparr>)"

section \<open>The guard stays on\<close>

text \<open>An option that does not touch the SSRF level.\<close>

definition keeps_level :: "('t, 'p) option_fn \<Rightarrow> bool" where
  "keeps_level f \<longleftrightarrow> (\<forall>g. ssrf_level (g_settings (f g)) = ssrf_level (g_settings g))"

lemma options_keep_level:
  "keeps_level (with_connect_probe_timeout v1)"
  "keeps_level (with_http_transport v2)"
  "keeps_level (with_tls_ca_cert v3)"
  "keeps_level (with_client_certificate v4 v5)"
  "keeps_level (with_client_certificate_for_host v6 v7 v8)"
  "keeps_level (with_http_proxy v9 v10 v11)"
  "keeps_level (with_http_proxy_for_host v12 v13 v14 v15)"
  "keeps_level (with_http_credential_request_function v16)"
  "keeps_level (with_ssrf_allow_hosts v17)"
  "keeps_level (with_netrc v18)"
  "keeps_level (with_temporary_directory v19)"
  "keeps_level (with_auto_extract v20)"
  "keeps_level (with_max_download_bytes v21)"
  "keeps_level (with_allowed_local_directories v22)"
  "keeps_level (with_protocols v23)"
  "keeps_level (with_aws_credentials v24 v25 v26 v27)"
  "keeps_level (with_gcp_credentials v28)"
  "keeps_level (with_oci_credentials v29 v30)"
  "keeps_level (with_oci_credential_for_registry v31 v32 v33)"
  "keeps_level with_oci_plain_http"
  "keeps_level (with_https_credential v34 v35 v36)"
  "keeps_level (with_https_credential_for_path v37 v38 v39 v40)"
  "keeps_level with_git_ssh_to_https"
  "keeps_level (with_git_recurse_submodules v41)"
  "keeps_level (with_git_ssh_key v42)"
  "keeps_level (with_git_ssh_key_for_host v43 v44)"
  "keeps_level (with_git_depth v45)"
  "keeps_level with_git_insecure_skip_host_key_verify"
  "keeps_level (with_git_known_hosts v46)"
  "keeps_level with_no_system_fallback"
  "keeps_level without_ambient_credentials"
  by (simp_all add: keeps_level_def update_settings_def
      with_connect_probe_timeout_def with_http_transport_def with_tls_ca_cert_def
      with_client_certificate_def with_client_certificate_for_host_def with_http_proxy_def
      with_http_proxy_for_host_def with_http_credential_request_function_def
      with_ssrf_allow_hosts_def with_netrc_def with_temporary_directory_def
      with_auto_extract_def with_max_download_bytes_def with_allowed_local_directories_def
      with_protocols_def with_aws_credentials_def with_gcp_credentials_def
      with_oci_credentials_def with_oci_credential_for_registry_def with_oci_plain_http_def
      with_https_credential_def with_https_credential_for_path_def with_git_ssh_to_https_def
      with_git_recurse_submodules_def with_git_ssh_key_def with_git_ssh_key_for_host_def
      with_git_depth_def with_git_insecure_skip_host_key_verify_def with_git_known_hosts_def
      with_no_system_fallback_def without_ambient_credentials_def)

lemma keeps_level_fold:
  "\<forall>f\<in>set fs. keeps_level f \<Longrightarrow>
   ssrf_level (g_settings (foldl (\<lambda>g opt. opt g) g fs)) = ssrf_level (g_settings g)"
  by (induction fs arbitrary: g) (auto simp: keeps_level_def)

text \<open>
  The SSRF guard is on by default and stays on at the internal level whatever options a caller
  uses, unless one of them is an SSRF level option.
\<close>

theorem guard_on_by_default:
  assumes "\<forall>f\<in>set options. keeps_level f"
  shows "g_level (ssrf_guard (g_settings (new_grabber tmp all options))) = LevelInternal \<and>
     enabled (ssrf_guard (g_settings (new_grabber tmp all options)))"
proof -
  have "ssrf_level (g_settings (new_grabber tmp all options)) = LevelDefault"
    unfolding new_grabber_def keeps_level_fold [OF assms] by (simp add: default_settings_def)
  then show ?thesis by (simp add: ssrf_guard_def enabled_def)
qed

theorem guard_on_by_default_witness:
  "enabled (ssrf_guard (g_settings
     (new_grabber ''/tmp'' ([] :: unit list) [with_auto_extract False, with_netrc True] :: (unit, unit) grabber)))"
  using guard_on_by_default [of "[with_auto_extract False, with_netrc True] :: (unit, unit) option_fn list" "''/tmp''" "[] :: unit list"]
  by (simp add: options_keep_level)

text \<open>
  Repeatable options accumulate in the order they are given, the others replace: after
  several credentials, keys, certificates, proxies and allow-list entries the settings hold all
  of them, and the allow list reaches the guard.
\<close>

theorem repeatable_options_accumulate:
  "https_credentials (g_settings (foldl (\<lambda>g opt. opt g) g (map (\<lambda>(h, p, u, w). with_https_credential_for_path h p u w) cs))) =
     https_credentials (g_settings g) @ map (\<lambda>(h, p, u, w). \<lparr>hc_host = h, hc_username = u, hc_password = w, hc_path = p\<rparr>) cs \<and>
   ssh_keys (git (g_settings (foldl (\<lambda>g opt. opt g) g (map (\<lambda>(h, k). with_git_ssh_key_for_host h k) ks)))) =
     ssh_keys (git (g_settings g)) @ map (\<lambda>(h, k). \<lparr>ssh_host = h, ssh_key = k\<rparr>) ks \<and>
   proxies (g_settings (foldl (\<lambda>g opt. opt g) g (map (\<lambda>(h, x, u, w). with_http_proxy_for_host h x u w) ps))) =
     proxies (g_settings g) @ map (\<lambda>(h, x, u, w). \<lparr>px_host = h, px_url = x, px_username = u, px_password = w\<rparr>) ps \<and>
   ssrf_allow (g_settings (foldl (\<lambda>g opt. opt g) g (map with_ssrf_allow_hosts hs))) =
     ssrf_allow (g_settings g) @ concat hs"
proof (intro conjI)
  show "https_credentials (g_settings (foldl (\<lambda>g opt. opt g) g (map (\<lambda>(h, p, u, w). with_https_credential_for_path h p u w) cs))) =
     https_credentials (g_settings g) @ map (\<lambda>(h, p, u, w). \<lparr>hc_host = h, hc_username = u, hc_password = w, hc_path = p\<rparr>) cs"
    by (induction cs arbitrary: g) (auto simp: with_https_credential_for_path_def update_settings_def)
  show "ssh_keys (git (g_settings (foldl (\<lambda>g opt. opt g) g (map (\<lambda>(h, k). with_git_ssh_key_for_host h k) ks)))) =
     ssh_keys (git (g_settings g)) @ map (\<lambda>(h, k). \<lparr>ssh_host = h, ssh_key = k\<rparr>) ks"
    by (induction ks arbitrary: g) (auto simp: with_git_ssh_key_for_host_def update_settings_def)
  show "proxies (g_settings (foldl (\<lambda>g opt. opt g) g (map (\<lambda>(h, x, u, w). with_http_proxy_for_host h x u w) ps))) =
     proxies (g_settings g) @ map (\<lambda>(h, x, u, w). \<lparr>px_host = h, px_url = x, px_username = u, px_password = w\<rparr>) ps"
    by (induction ps arbitrary: g) (auto simp: with_http_proxy_for_host_def update_settings_def)
  show "ssrf_allow (g_settings (foldl (\<lambda>g opt. opt g) g (map with_ssrf_allow_hosts hs))) =
     ssrf_allow (g_settings g) @ concat hs"
    by (induction hs arbitrary: g) (auto simp: with_ssrf_allow_hosts_def update_settings_def)
qed

end
