(* ===== verification/Grab.thy ===== *)
theory Grab
  imports Protocols Copy_Tree Extract Options
begin

text \<open>
  The pipeline of \<^verbatim>\<open>grabber.go\<close>: which protocol handles a URL, the checksum that the URL or the
  caller names, the download into a temporary directory, the verification, the extraction of a
  single archive and the delivery to the destination.
\<close>

section \<open>Which protocol\<close>

text \<open>The order of \<^verbatim>\<open>allProtocols\<close> after \<^verbatim>\<open>init\<close>.\<close>

definition protocol_less :: "'n protocol \<Rightarrow> 'n protocol \<Rightarrow> bool" where
  "protocol_less p q =
     (if pr_priority p = pr_priority q then str_le (pr_prefix p) (pr_prefix q) \<and> pr_prefix p \<noteq> pr_prefix q
      else pr_priority q < pr_priority p)"

fun insert_protocol :: "'n protocol \<Rightarrow> 'n protocol list \<Rightarrow> 'n protocol list" where
  "insert_protocol p [] = [p]"
| "insert_protocol p (q # qs) = (if protocol_less q p then q # insert_protocol p qs else p # q # qs)"

definition sort_protocols :: "'n protocol list \<Rightarrow> 'n protocol list" where
  "sort_protocols ps = foldr insert_protocol ps []"

fun first_detected :: "'n sys \<Rightarrow> string \<Rightarrow> 'n protocol list \<Rightarrow> 'n fetcher option" where
  "first_detected w url [] = None"
| "first_detected w url (p # ps) =
     (case pr_detect p w url of Some d \<Rightarrow> Some d | None \<Rightarrow> first_detected w url ps)"

definition forced_detect :: "'n protocol \<Rightarrow> 'n sys \<Rightarrow> string \<Rightarrow> 'n fetcher option" where
  "forced_detect p = (case pr_forced p of Some d \<Rightarrow> d | None \<Rightarrow> pr_detect p)"

definition detect_url :: "'n protocol list \<Rightarrow> 'n sys \<Rightarrow> string \<Rightarrow> 'n fetcher result" where
  "detect_url ps w url =
     (let auto = (case first_detected w url ps of Some d \<Rightarrow> Inr d | None \<Rightarrow> Inl (Sentinel ErrUnsupportedURL))
      in case cut_str url ''::'' of
           (pre, remainder, ok) \<Rightarrow>
             (case (if ok then List.find (\<lambda>p. pr_prefix p = pre) ps else None) of
                None \<Rightarrow> auto
              | Some p \<Rightarrow>
                  (case forced_detect p w remainder of
                     Some d \<Rightarrow> Inr d
                   | None \<Rightarrow> Inl (Errorf ''protocol %q detected but could not handle URL: %w'' [pre] [Sentinel ErrUnsupportedURL]))))"

definition download :: "('t, 'n protocol) grabber \<Rightarrow> transport settings \<Rightarrow> string \<Rightarrow> string \<Rightarrow> 'n sys \<Rightarrow> ('n sys \<times> bool result) option" where
  "download g s url tmp w =
     (case detect_url (g_protocols g) w url of
        Inl e \<Rightarrow> Some (w, Inl e)
      | Inr d \<Rightarrow> d s tmp w)"

section \<open>Checksums\<close>

record checksum_spec =
  cs_algorithm :: string
  cs_expected :: string

definition no_checksum :: checksum_spec where
  "no_checksum = \<lparr>cs_algorithm = [], cs_expected = []\<rparr>"

definition split_checksum :: "string \<Rightarrow> checksum_spec" where
  "split_checksum v =
     (case cut_str v '':'' of
        (algo, expected, ok) \<Rightarrow>
          if ok then \<lparr>cs_algorithm = algo, cs_expected = expected\<rparr>
          else \<lparr>cs_algorithm = ''sha256'', cs_expected = v\<rparr>)"

definition extract_checksum :: "string \<Rightarrow> string \<times> checksum_spec" where
  "extract_checksum raw =
     (let (pre, to_parse) = (case cut_str raw ''::'' of (p, r, ok) \<Rightarrow> if ok then (p @ ''::'', r) else ([], raw))
      in if \<not> contains_str to_parse ''checksum='' then (raw, no_checksum)
         else case url_parse to_parse of
           None \<Rightarrow> (raw, no_checksum)
         | Some u \<Rightarrow>
             let q = url_query u; v = query_get q ''checksum''; c = split_checksum v
             in if v = [] \<or> cs_algorithm c = [] \<or> cs_expected c = [] then (raw, no_checksum)
                else (pre @ url_string (u\<lparr>u_raw_query := query_encode (query_del q ''checksum'')\<rparr>), c))"

text \<open>\<open>digest\<close> are the hash functions of Go's \<^verbatim>\<open>crypto\<close> packages, by name.\<close>

definition hash_for :: "(string \<Rightarrow> string \<Rightarrow> string) \<Rightarrow> string \<Rightarrow> (string \<Rightarrow> string) result" where
  "hash_for digest algorithm =
     (if to_lower algorithm \<in> {''md5'', ''sha1'', ''sha256'', ''sha512''} then Inr (digest (to_lower algorithm))
      else Inl (Errorf ''unsupported checksum algorithm: %q'' [algorithm] []))"

definition hex_encode :: "string \<Rightarrow> string" where
  "hex_encode data = concat (map (\<lambda>c. [lower_char (upper_hex (byte c div 16)), lower_char (upper_hex (byte c mod 16))]) data)"

definition only_entry :: "fs \<Rightarrow> string \<Rightarrow> string result" where
  "only_entry f tmp =
     (case read_dir f tmp of
        Inl e \<Rightarrow> Inl (wrap_err ''reading temp directory: %w'' [] e)
      | Inr names \<Rightarrow>
          if length names \<noteq> 1
          then Inl (Errorf ''expected exactly one file in temp directory, found %d'' [dec_string (int (length names))] [])
          else Inr (path_join [tmp, names ! 0]))"

definition verify_checksum :: "(string \<Rightarrow> string \<Rightarrow> string) \<Rightarrow> fs \<Rightarrow> string \<Rightarrow> checksum_spec \<Rightarrow> goerr option" where
  "verify_checksum digest f tmp c =
     (case only_entry f tmp of
        Inl e \<Rightarrow> Some e
      | Inr path \<Rightarrow>
          (case hash_for digest (cs_algorithm c) of
             Inl e \<Rightarrow> Some e
           | Inr h \<Rightarrow>
               (case open_read f path of
                  Inl e \<Rightarrow> Some (wrap_err ''opening file for checksum: %w'' [] e)
                | Inr p \<Rightarrow>
                    let r = opened_reader f p
                    in case rd_end r of
                         Some e \<Rightarrow> Some (wrap_err ''reading file for checksum: %w'' [] e)
                       | None \<Rightarrow>
                           if \<not> equal_fold (hex_encode (h (rd_data r))) (cs_expected c)
                           then Some (Errorf ''checksum mismatch: expected %s:%s, got %s:%s''
                                  [cs_algorithm c, cs_expected c, cs_algorithm c, hex_encode (h (rd_data r))] [])
                           else None)))"

section \<open>Extraction and delivery\<close>

text \<open>
  What the pipeline takes from outside: the name of the temporary directory, the hash functions,
  the decompressors, how writing to a file ends, whether the destination is on another file
  system, and the bound on the depth of a copy.
\<close>

record grab_env =
  gb_uuid :: string
  gb_digest :: "string \<Rightarrow> string \<Rightarrow> string"
  gb_codecs :: codecs
  gb_disk :: disk
  gb_cross :: bool
  gb_depth :: nat

text \<open>The directory to deliver: the temporary one, or what was extracted from the file in it.\<close>

definition auto_extract :: "grab_env \<Rightarrow> int \<Rightarrow> fs \<Rightarrow> string \<Rightarrow> fs \<times> string result" where
  "auto_extract env limit f tmp =
     (case only_entry f tmp of
        Inl e \<Rightarrow> (f, Inl e)
      | Inr archive \<Rightarrow>
          (case extract_with_limit (gb_codecs env) (gb_disk env) f archive (path_join [tmp, ''_extracted'']) limit of
             (g, _, Some e) \<Rightarrow> (g, Inl (wrap_err ''extracting archive: %w'' [] e))
           | (g, False, None) \<Rightarrow> (g, Inr tmp)
           | (g, True, None) \<Rightarrow>
               (case fs_remove g archive of
                  (h, Some e) \<Rightarrow> (h, Inl (wrap_err ''removing archive after extraction: %w'' [] e))
                | (h, None) \<Rightarrow> (h, Inr (path_join [tmp, ''_extracted''])))))"

definition deliver :: "grab_env \<Rightarrow> fs \<Rightarrow> string \<Rightarrow> string \<Rightarrow> (fs \<times> goerr option) option" where
  "deliver env f tmp dst =
     (case fs_stat f dst of
        Inl e \<Rightarrow>
          if errors_is e ErrNotExist then
            (case fs_rename f (gb_cross env) tmp dst of
               (g, None) \<Rightarrow> Some (g, None)
             | (g, Some _) \<Rightarrow> copy_dir (gb_depth env) (gb_disk env) g tmp dst)
          else copy_dir (gb_depth env) (gb_disk env) f tmp dst
      | Inr _ \<Rightarrow> copy_dir (gb_depth env) (gb_disk env) f tmp dst)"

section \<open>The pipeline\<close>

definition with_fs :: "'n sys \<Rightarrow> fs \<Rightarrow> 'n sys" where
  "with_fs w f = w\<lparr>sys_fs := f\<rparr>"

text \<open>What follows the download.\<close>

definition finish_grab :: "grab_env \<Rightarrow> transport settings \<Rightarrow> checksum_spec \<Rightarrow> string \<Rightarrow> string \<Rightarrow> bool \<Rightarrow> fs \<Rightarrow> (fs \<times> goerr option) option" where
  "finish_grab env s c tmp dst is_file f =
     (case (if cs_algorithm c = [] then None
            else if \<not> is_file then Some (errors_new ''checksum verification is only supported for single-file downloads'')
            else map_option (wrap_err ''checksum verification failed: %w'' []) (verify_checksum (gb_digest env) f tmp c)) of
        Some e \<Rightarrow> Some (f, Some e)
      | None \<Rightarrow>
          (case (if is_file \<and> enable_auto_extract s then auto_extract env (max_bytes s) f tmp else (f, Inr tmp)) of
             (g, Inl e) \<Rightarrow> Some (g, Some e)
           | (g, Inr dir) \<Rightarrow> deliver env g dir dst))"

text \<open>
  \<^verbatim>\<open>grab\<close>: once it exists, the temporary directory is removed however the call ends, by its own
  name, not by that of the directory delivered.
\<close>

definition grab ::
    "grab_env \<Rightarrow> (transport, 'n protocol) grabber \<Rightarrow> string \<Rightarrow> string \<Rightarrow> checksum_spec \<Rightarrow> 'n sys \<Rightarrow> ('n sys \<times> goerr option) option" where
  "grab env g raw dst explicit w =
     (let tmp = path_join [temporary_directory (g_settings g), ''grabber'', gb_uuid env];
          (url, from_url) = extract_checksum raw;
          c = (if cs_algorithm explicit = [] then from_url else explicit)
      in case mkdir_all (sys_fs w) tmp 493 of
           (f, Some e) \<Rightarrow> Some (with_fs w f, Some (wrap_err ''creating temp directory: %w'' [] e))
         | (f, None) \<Rightarrow>
             map_option (\<lambda>(w1, e). (with_fs w1 (fst (fs_remove_all (sys_fs w1) tmp)), e))
               (case download g (g_settings g) url tmp (with_fs w f) of
                  None \<Rightarrow> None
                | Some (w1, Inl e) \<Rightarrow> Some (w1, Some (wrap_err ''failed to download content: %w'' [] e))
                | Some (w1, Inr is_file) \<Rightarrow>
                    map_option (\<lambda>(h, e). (with_fs w1 h, e))
                      (finish_grab env (g_settings g) c tmp dst is_file (sys_fs w1))))"

definition grab_url ::
    "grab_env \<Rightarrow> (transport, 'n protocol) grabber \<Rightarrow> string \<Rightarrow> string \<Rightarrow> 'n sys \<Rightarrow> ('n sys \<times> goerr option) option" where
  "grab_url env g raw dst w = grab env g raw dst no_checksum w"

definition grab_with_sha256_checksum ::
    "grab_env \<Rightarrow> (transport, 'n protocol) grabber \<Rightarrow> string \<Rightarrow> string \<Rightarrow> string \<Rightarrow> 'n sys \<Rightarrow> ('n sys \<times> goerr option) option" where
  "grab_with_sha256_checksum env g raw dst expected w =
     grab env g raw dst \<lparr>cs_algorithm = ''sha256'', cs_expected = expected\<rparr> w"

section \<open>Facts\<close>

lemma set_insert_protocol: "set (insert_protocol p ps) = insert p (set ps)"
  by (induction ps) auto

lemma set_sort_protocols: "set (sort_protocols ps) = set ps"
  by (induction ps) (auto simp: sort_protocols_def set_insert_protocol)

abbreviation by_priority :: "'n protocol list \<Rightarrow> bool" where
  "by_priority \<equiv> sorted_wrt (\<lambda>p q. pr_priority q \<le> pr_priority p)"

lemma insert_by_priority: "by_priority ps \<Longrightarrow> by_priority (insert_protocol p ps)"
  by (induction ps) (auto simp: set_insert_protocol protocol_less_def split: if_splits)

lemma sort_by_priority: "by_priority (sort_protocols ps)"
  by (induction ps) (auto simp: sort_protocols_def insert_by_priority)

lemma first_detected_None: "first_detected w url ps = None \<longleftrightarrow> (\<forall>p\<in>set ps. pr_detect p w url = None)"
  by (induction ps) (auto split: option.split)

lemma first_detected_Some:
  "by_priority ps \<Longrightarrow> first_detected w url ps = Some d \<Longrightarrow>
   \<exists>p\<in>set ps. pr_detect p w url = Some d \<and> (\<forall>q\<in>set ps. pr_detect q w url \<noteq> None \<longrightarrow> pr_priority q \<le> pr_priority p)"
proof (induction ps)
  case (Cons p ps)
  then show ?case by (cases "pr_detect p w url") auto
qed simp

lemma only_entry_Inr:
  "only_entry f tmp = Inr path \<longleftrightarrow> (\<exists>name. read_dir f tmp = Inr [name] \<and> path = path_join [tmp, name])"
  by (auto simp: only_entry_def length_Suc_conv split: sum.splits)

lemma verify_checksum_None:
  assumes "verify_checksum digest f tmp c = None"
  obtains name h p where "read_dir f tmp = Inr [name]" "hash_for digest (cs_algorithm c) = Inr h"
    "open_read f (path_join [tmp, name]) = Inr p" "rd_end (opened_reader f p) = None"
    "equal_fold (hex_encode (h (rd_data (opened_reader f p)))) (cs_expected c)"
  using assms that
  by (auto simp: verify_checksum_def only_entry_Inr Let_def split: sum.splits option.splits if_splits)

lemma opened_data: "rd_end (opened_reader f p) = None \<Longrightarrow> \<exists>m. fs_get f p = Some (Regular m (rd_data (opened_reader f p)))"
  by (auto simp: opened_reader_def split: option.splits fnode.splits)

text \<open>Renaming and copying deliver the same.\<close>

lemma deliver_placed:
  assumes "fs_ok f" and "fs_get f t = Some n" and "t \<noteq> []" and "placed f d" and "fs_get f d = None" and "\<not> prefix t d"
    and "\<And>q. gb_disk env q = None" and "fs_depth f < gb_depth env"
  shows "\<exists>g. deliver env f (abs_path t) (abs_path d) = Some (g, None) \<and>
    (\<forall>r. fs_get g (d @ r) = fs_get f (t @ r)) \<and>
    (\<forall>q. \<not> prefix d q \<longrightarrow> \<not> prefix t q \<longrightarrow> fs_get g q = fs_get f q)"
proof (cases "gb_cross env")
  case True
  then show ?thesis
    using copy_tree [OF assms(1,2,4-6) copies_files_both(1) [of "gb_disk env"] assms(7,8)]
      rename_placed [OF assms(1-6), of True] stat_placed_none [OF assms(4,5)]
    by (auto simp: deliver_def copy_dir_def enoent_def)
next
  case False
  have "deliver env f (abs_path t) (abs_path d) = Some (fs_move f t d, None)"
    using rename_placed [OF assms(1-6), of False] stat_placed_none [OF assms(4,5)] False
    by (simp add: deliver_def enoent_def)
  then show ?thesis using move_get [OF assms(1,5,3,6)] by simp
qed

section \<open>Properties\<close>

text \<open>
  C31. The force prefix commits: a URL \<open>prefix::rest\<close> goes to the protocol of that prefix only,
  which either takes it or makes the download fail; no other protocol is asked.
\<close>

theorem forced_prefix_commits:
  assumes "p \<in> set ps" and "distinct (map pr_prefix ps)" and "CHR '':'' \<notin> set (pr_prefix p)"
  shows "detect_url (sort_protocols ps) w (pr_prefix p @ ''::'' @ rest) =
    (case forced_detect p w rest of
       Some d \<Rightarrow> Inr d
     | None \<Rightarrow> Inl (Errorf ''protocol %q detected but could not handle URL: %w'' [pr_prefix p] [Sentinel ErrUnsupportedURL]))"
proof -
  have "index_str (a @ ''::'' @ rest) ''::'' = Some (length a)" if "CHR '':'' \<notin> set a" for a
    using that by (induction a) auto
  note idx = this [OF assms(3)]
  have cut: "cut_str (pr_prefix p @ ''::'' @ rest) ''::'' = (pr_prefix p, rest, True)"
    unfolding cut_str_def idx by simp
  have "q = p" if "q \<in> set ps" "pr_prefix q = pr_prefix p" for q
    using that assms(1,2) by (auto simp: distinct_map inj_on_def)
  moreover have "List.find (\<lambda>q. pr_prefix q = pr_prefix p) (sort_protocols ps) \<noteq> None"
    using assms(1) by (auto simp: find_None_iff set_sort_protocols)
  then obtain q where q: "List.find (\<lambda>q. pr_prefix q = pr_prefix p) (sort_protocols ps) = Some q" by blast
  ultimately have "List.find (\<lambda>q. pr_prefix q = pr_prefix p) (sort_protocols ps) = Some p"
    using find_SomeD [OF q] by (simp add: set_sort_protocols)
  then show ?thesis unfolding detect_url_def cut by simp
qed

text \<open>
  Without a force prefix the URL goes to a protocol that detects it and that no other one
  detecting it precedes in priority, and is unsupported only when none detects it.
\<close>

theorem auto_detection_priority:
  assumes "\<And>p rest. p \<in> set ps \<Longrightarrow> cut_str url ''::'' \<noteq> (pr_prefix p, rest, True)"
  shows "(\<forall>d. detect_url (sort_protocols ps) w url = Inr d \<longrightarrow>
      (\<exists>p\<in>set ps. pr_detect p w url = Some d \<and>
        (\<forall>q\<in>set ps. pr_detect q w url \<noteq> None \<longrightarrow> pr_priority q \<le> pr_priority p))) \<and>
    (\<forall>e. detect_url (sort_protocols ps) w url = Inl e \<longleftrightarrow>
      e = Sentinel ErrUnsupportedURL \<and> (\<forall>p\<in>set ps. pr_detect p w url = None))"
proof -
  obtain pre rest ok where c: "cut_str url ''::'' = (pre, rest, ok)" by (metis prod_cases3)
  have "(if ok then List.find (\<lambda>p. pr_prefix p = pre) (sort_protocols ps) else None) = None"
    using assms c by (auto simp: find_None_iff set_sort_protocols)
  then have "detect_url (sort_protocols ps) w url =
      (case first_detected w url (sort_protocols ps) of Some d \<Rightarrow> Inr d | None \<Rightarrow> Inl (Sentinel ErrUnsupportedURL))"
    by (simp add: detect_url_def c)
  then show ?thesis
    using first_detected_None [of w url "sort_protocols ps"] first_detected_Some [OF sort_by_priority, of w url ps]
    by (auto simp: set_sort_protocols split: option.splits)
qed

text \<open>
  Taking the checksum out of a URL removes every value of the parameter and leaves, for every
  other parameter, its values in order.
\<close>

theorem checksum_parameter_removed:
  assumes "extract_checksum raw = (url, c)" and "c \<noteq> no_checksum"
  shows "\<exists>pre u query. url = pre @ url_string (u\<lparr>u_raw_query := query\<rparr>) \<and>
    c = split_checksum (query_get (url_query u) ''checksum'') \<and>
    \<not> query_has (query_pairs query) ''checksum'' \<and>
    (\<forall>k. k \<noteq> ''checksum'' \<longrightarrow> filter (\<lambda>(k', _). k' = k) (query_pairs query) = filter (\<lambda>(k', _). k' = k) (url_query u))"
proof -
  obtain pre t u where u: "url_parse t = Some u"
    "url = pre @ url_string (u\<lparr>u_raw_query := query_encode (query_del (url_query u) ''checksum'')\<rparr>)"
    "c = split_checksum (query_get (url_query u) ''checksum'')"
    using assms by (auto simp: extract_checksum_def Let_def split: prod.splits option.splits if_splits)
  let ?q = "query_del (url_query u) ''checksum''"
  have p: "query_pairs (query_encode ?q) = sort_pairs ?q" by (rule query_pairs_encode)
  have "filter (\<lambda>(k', _). k' = ''checksum'') (sort_pairs ?q) = []"
    unfolding filter_sort_pairs by (auto simp: query_del_def filter_empty_conv)
  then have "\<not> query_has (sort_pairs ?q) ''checksum''"
    by (auto simp: query_has_def list_ex_iff filter_empty_conv)
  moreover have "filter (\<lambda>(k', _). k' = k) (sort_pairs ?q) = filter (\<lambda>(k', _). k' = k) (url_query u)" if "k \<noteq> ''checksum''" for k
    unfolding filter_sort_pairs query_del_def filter_filter by (rule filter_cong) (use that in auto)
  ultimately show ?thesis using u(2,3) p by metis
qed

text \<open>The steps of a grab that succeeds.\<close>

lemma grab_success:
  assumes "grab env g raw dst explicit w = Some (w1, None)"
    and "c = (if cs_algorithm explicit = [] then snd (extract_checksum raw) else explicit)"
    and tmp: "tmp = path_join [temporary_directory (g_settings g), ''grabber'', gb_uuid env]"
  obtains f w2 is_file h where "mkdir_all (sys_fs w) tmp 493 = (f, None)"
    "download g (g_settings g) (fst (extract_checksum raw)) tmp (with_fs w f) = Some (w2, Inr is_file)"
    "finish_grab env (g_settings g) c tmp dst is_file (sys_fs w2) = Some (h, None)"
    "w1 = with_fs (with_fs w2 h) (fst (fs_remove_all h tmp))"
proof -
  obtain f e where f: "mkdir_all (sys_fs w) tmp 493 = (f, e)" by fastforce
  obtain url from_url where x: "extract_checksum raw = (url, from_url)" by fastforce
  note parts = assms(1) [unfolded grab_def Let_def x tmp [symmetric] f]
  have e: "e = None" using parts by (cases e) auto
  obtain w2 r where d: "download g (g_settings g) url tmp (with_fs w f) = Some (w2, r)"
    using parts e by (cases "download g (g_settings g) url tmp (with_fs w f)") auto
  obtain is_file where r: "r = Inr is_file" using parts e d by (cases r) auto
  have c: "c = (if cs_algorithm explicit = [] then from_url else explicit)" using assms(2) x by simp
  obtain h where "finish_grab env (g_settings g) c tmp dst is_file (sys_fs w2) = Some (h, None)"
    "w1 = with_fs (with_fs w2 h) (fst (fs_remove_all h tmp))"
    using parts e d r c by (auto simp: with_fs_def)
  then show ?thesis using that f e d r x by simp
qed

text \<open>A checksum that is named is verified, of a single file.\<close>

lemma finish_verified:
  assumes "finish_grab env s c tmp dst is_file f = Some (h0, None)" and "cs_algorithm c \<noteq> []"
  shows "is_file \<and> (\<exists>name p m data h. read_dir f tmp = Inr [name] \<and> open_read f (path_join [tmp, name]) = Inr p \<and>
    fs_get f p = Some (Regular m data) \<and> hash_for (gb_digest env) (cs_algorithm c) = Inr h \<and>
    equal_fold (hex_encode (h data)) (cs_expected c))"
proof -
  have v: "is_file \<and> verify_checksum (gb_digest env) f tmp c = None"
    using assms by (auto simp: finish_grab_def split: if_splits option.splits)
  then obtain name h p where "read_dir f tmp = Inr [name]" "hash_for (gb_digest env) (cs_algorithm c) = Inr h"
    "open_read f (path_join [tmp, name]) = Inr p" and o: "rd_end (opened_reader f p) = None"
    and "equal_fold (hex_encode (h (rd_data (opened_reader f p)))) (cs_expected c)"
    using verify_checksum_None by metis
  moreover obtain m where "fs_get f p = Some (Regular m (rd_data (opened_reader f p)))"
    using opened_data [OF o] by blast
  ultimately show ?thesis using v by blast
qed

text \<open>
  C3. A grab that succeeds under a checksum, explicit or from the URL, downloaded a single file
  whose digest by the named algorithm is the expected one, letter case aside.
\<close>

theorem grab_verified:
  assumes "grab env g raw dst explicit w = Some (w1, None)"
    and "c = (if cs_algorithm explicit = [] then snd (extract_checksum raw) else explicit)" and "cs_algorithm c \<noteq> []"
    and "tmp = path_join [temporary_directory (g_settings g), ''grabber'', gb_uuid env]"
  shows "\<exists>w2 name p m data h.
    download g (g_settings g) (fst (extract_checksum raw)) tmp (with_fs w (fst (mkdir_all (sys_fs w) tmp 493))) = Some (w2, Inr True) \<and>
    read_dir (sys_fs w2) tmp = Inr [name] \<and> open_read (sys_fs w2) (path_join [tmp, name]) = Inr p \<and>
    fs_get (sys_fs w2) p = Some (Regular m data) \<and> hash_for (gb_digest env) (cs_algorithm c) = Inr h \<and>
    equal_fold (hex_encode (h data)) (cs_expected c)"
proof -
  obtain f w2 is_file h0 where s: "mkdir_all (sys_fs w) tmp 493 = (f, None)"
    "download g (g_settings g) (fst (extract_checksum raw)) tmp (with_fs w f) = Some (w2, Inr is_file)"
    "finish_grab env (g_settings g) c tmp dst is_file (sys_fs w2) = Some (h0, None)"
    "w1 = with_fs (with_fs w2 h0) (fst (fs_remove_all h0 tmp))"
    using grab_success [OF assms(1,2,4)] .
  note v = finish_verified [OF s(3) assms(3)]
  then have "download g (g_settings g) (fst (extract_checksum raw)) tmp (with_fs w (fst (mkdir_all (sys_fs w) tmp 493))) = Some (w2, Inr True)"
    using s(1,2) by simp
  then show ?thesis using v by blast
qed

text \<open>Delivery and the removal of the temporary directory after it.\<close>

lemma deliver_clean:
  assumes ok: "fs_ok f" and t: "fs_get f t = Some n" "t \<noteq> []" and d: "placed f d" "fs_get f d = None" and apart: "\<not> prefix t d"
    and disk: "\<And>q. gb_disk env q = None" and depth: "fs_depth f < gb_depth env"
  shows "\<exists>h. deliver env f (abs_path t) (abs_path d) = Some (h, None) \<and>
    (\<forall>r. fs_get (fst (fs_remove_all h (abs_path t))) (d @ r) = fs_get f (t @ r)) \<and>
    (\<forall>q. prefix t q \<longrightarrow> fs_get (fst (fs_remove_all h (abs_path t))) q = None) \<and>
    (\<forall>q. \<not> prefix d q \<longrightarrow> \<not> prefix t q \<longrightarrow> fs_get (fst (fs_remove_all h (abs_path t))) q = fs_get f q)"
proof -
  obtain h where h: "deliver env f (abs_path t) (abs_path d) = Some (h, None)"
    "\<And>r. fs_get h (d @ r) = fs_get f (t @ r)"
    "\<And>q. \<not> prefix d q \<Longrightarrow> \<not> prefix t q \<Longrightarrow> fs_get h q = fs_get f q"
    using deliver_placed [OF ok t d apart disk depth] by blast
  have dt: "\<not> prefix d t" using ok_none_below [OF ok _ d(2)] t(1) by auto
  have "fs_get h q = fs_get f q" if q: "strict_prefix q t" for q
    using h(3) [of q] q dt prefix_order.trans [of d q t] prefix_order.antisym [of q t] by (auto simp: strict_prefix_def)
  then have "placed h t = placed f t" by (rule placed_cong)
  then have "placed h t" using ok_placed [OF ok t(1)] by blast
  note rm = remove_all_placed [OF this t(2)]
  have "\<not> prefix t (d @ r)" for r using apart dt prefix_same_cases [of t "d @ r" d] by auto
  then show ?thesis using rm h by auto
qed

text \<open>
  A directory that was downloaded is delivered whole: after the grab the destination, where
  nothing was before, holds exactly what the protocol put into the temporary directory, whether it
  could be renamed or had to be copied; the temporary directory is gone and all else unchanged.
\<close>

theorem grab_directory:
  assumes "extract_checksum raw = (url, c)" and "cs_algorithm c = []" and "cs_algorithm explicit = []"
    and "path_join [temporary_directory (g_settings g), ''grabber'', gb_uuid env] = abs_path t"
    and "mkdir_all (sys_fs w) (abs_path t) 493 = (f, None)"
    and "download g (g_settings g) url (abs_path t) (with_fs w f) = Some (w2, Inr False)"
    and "fs_ok (sys_fs w2)" and "fs_get (sys_fs w2) t = Some n" and "t \<noteq> []"
    and "placed (sys_fs w2) d" and "fs_get (sys_fs w2) d = None" and "\<not> prefix t d"
    and "\<And>q. gb_disk env q = None" and "fs_depth (sys_fs w2) < gb_depth env"
  shows "\<exists>w3. grab env g raw (abs_path d) explicit w = Some (w3, None) \<and>
    (\<forall>r. fs_get (sys_fs w3) (d @ r) = fs_get (sys_fs w2) (t @ r)) \<and>
    (\<forall>q. prefix t q \<longrightarrow> fs_get (sys_fs w3) q = None) \<and>
    (\<forall>q. \<not> prefix d q \<longrightarrow> \<not> prefix t q \<longrightarrow> fs_get (sys_fs w3) q = fs_get (sys_fs w2) q)"
proof -
  obtain h where h: "deliver env (sys_fs w2) (abs_path t) (abs_path d) = Some (h, None)"
    "\<forall>r. fs_get (fst (fs_remove_all h (abs_path t))) (d @ r) = fs_get (sys_fs w2) (t @ r)"
    "\<forall>q. prefix t q \<longrightarrow> fs_get (fst (fs_remove_all h (abs_path t))) q = None"
    "\<forall>q. \<not> prefix d q \<longrightarrow> \<not> prefix t q \<longrightarrow> fs_get (fst (fs_remove_all h (abs_path t))) q = fs_get (sys_fs w2) q"
    using deliver_clean [OF assms(7-14)] by blast
  have "finish_grab env (g_settings g) c (abs_path t) (abs_path d) False (sys_fs w2) = Some (h, None)"
    using assms(2) h(1) by (simp add: finish_grab_def)
  then have "grab env g raw (abs_path d) explicit w = Some (with_fs (with_fs w2 h) (fst (fs_remove_all h (abs_path t))), None)"
    using assms(1,3-6) by (simp add: grab_def Let_def with_fs_def)
  then show ?thesis using h(2-4) by (auto simp: with_fs_def)
qed

text \<open>
  The README lists single compressed files (\<^verbatim>\<open>.gz\<close>, \<^verbatim>\<open>.bz2\<close>, \<^verbatim>\<open>.xz\<close>, \<^verbatim>\<open>.zst\<close>, \<^verbatim>\<open>.lz4\<close>) with the formats that
  are extracted after a download.  The code does not do so: their extraction goes to a directory
  that no one creates, so the step fails for every such file and leaves all as it was.
\<close>

theorem auto_extract_single_fails:
  assumes "plain_comps t" and "link_free (t @ [''_extracted'']) f" and "fs_get f (t @ [''_extracted'']) = None"
    and "read_dir f (abs_path t) = Inr [name]" and "plain_comps [name]"
    and "detect_extension (abs_path (t @ [name])) \<in> set single_extensions"
    and "\<And>ext. ext \<in> set single_extensions \<Longrightarrow> plain_comps [trim_suffix name (''.'' @ ext)]"
  shows "\<exists>e. auto_extract env limit f (abs_path t) = (f, Inl e)"
proof -
  have "plain_comps [''_extracted'']" by code_simp
  then have join: "path_join [abs_path t, name] = abs_path (t @ [name])"
    "path_join [abs_path t, ''_extracted''] = abs_path (t @ [''_extracted''])" "plain_comps (t @ [''_extracted''])"
    using join_abs_rel [OF assms(1,5)] join_abs_rel [OF assms(1), of "[''_extracted'']"] assms(1) by simp_all
  have base: "path_base (abs_path (t @ [name])) = name"
  proof -
    have n: "name \<noteq> []" "CHR ''/'' \<notin> set name" using assms(5) by (auto simp: plain_comps_def proper_comp_def)
    then have "trim_right (\<lambda>c. c = CHR ''/'') (abs_path (t @ [name])) = abs_path (t @ [name])"
      using last_abs_path [of "t @ [name]"] assms(1,5) by (intro trim_right_id) auto
    moreover have "last (split_chr CHR ''/'' (abs_path (t @ [name]))) = name"
      using n by (simp add: abs_path_snoc split_chr_append_sep split_chr_whole)
    ultimately show ?thesis using n by (simp add: path_base_def)
  qed
  have "\<exists>e. extract_with_limit (gb_codecs env) (gb_disk env) f (abs_path (t @ [name])) (abs_path (t @ [''_extracted''])) limit = (f, True, Some e)"
    using assms(7) base by (intro single_file_needs_dst join(3) assms(2,3,6)) auto
  then show ?thesis using assms(4) join(1,2) by (auto simp: auto_extract_def only_entry_def)
qed

text \<open>
  The checksum of a URL with an IPv6 host is ignored: the first \<^verbatim>\<open>::\<close> of the address is taken for
  a force prefix, what follows does not parse, and the URL is downloaded unverified.
\<close>

theorem checksum_ignored_for_ipv6:
  "extract_checksum ''http://[::1]:8000/f.bin?checksum=sha256:00'' = (''http://[::1]:8000/f.bin?checksum=sha256:00'', no_checksum)"
  by code_simp

section \<open>Concrete instances\<close>

text \<open>A protocol that puts one file into the temporary directory.\<close>

definition demo_fetch :: "bool \<Rightarrow> unit fetcher" where
  "demo_fetch single s tmp w =
     Some (with_fs w (fs_set (sys_fs w) [''tmp'', ''grabber'', ''u'', ''f''] (Regular 420 ''data'')), Inr single)"

definition demo_protocol :: "string \<Rightarrow> int \<Rightarrow> bool \<Rightarrow> unit protocol" where
  "demo_protocol name prio single =
     \<lparr>pr_prefix = name, pr_priority = prio,
      pr_detect = (\<lambda>w url. if has_prefix url (name @ ''://'') then Some (demo_fetch single) else None), pr_forced = None\<rparr>"

definition demo_grabber :: "bool \<Rightarrow> (transport, unit protocol) grabber" where
  "demo_grabber single =
     \<lparr>g_settings = (default_settings ''/tmp'')\<lparr>enable_auto_extract := False\<rparr>, g_protocols = [demo_protocol ''demo'' 1 single]\<rparr>"

definition demo_grab_env :: grab_env where
  "demo_grab_env =
     \<lparr>gb_uuid = ''u'', gb_digest = (\<lambda>_ _. ''*''), gb_codecs = demo_codecs, gb_disk = (\<lambda>_. None), gb_cross = False, gb_depth = 9\<rparr>"

definition demo_before :: fs where
  "demo_before = \<lparr>fs_nodes = [([''tmp''], Dir 493), ([''o''], Dir 493)], fs_cwd = []\<rparr>"

definition demo_during :: fs where
  "demo_during = \<lparr>fs_nodes = [([''tmp'', ''grabber'', ''u''], Dir 493), ([''tmp'', ''grabber''], Dir 493), ([''tmp''], Dir 493),
     ([''o''], Dir 493)], fs_cwd = []\<rparr>"

definition demo_fetched :: fs where
  "demo_fetched = fs_set demo_during [''tmp'', ''grabber'', ''u'', ''f''] (Regular 420 ''data'')"

abbreviation unit_sys :: "fs \<Rightarrow> unit sys" where
  "unit_sys f \<equiv> \<lparr>sys_fs = f, sys_net = ()\<rparr>"

lemma demo_steps:
  "extract_checksum ''demo://f'' = (''demo://f'', no_checksum)"
  "path_join [''/tmp'', ''grabber'', ''u''] = abs_path [''tmp'', ''grabber'', ''u'']"
  "mkdir_all demo_before (abs_path [''tmp'', ''grabber'', ''u'']) 493 = (demo_during, None)"
  by code_simp+

lemma demo_detected:
  "download (demo_grabber single) (g_settings (demo_grabber single)) ''demo://f'' tmp (unit_sys demo_during) =
     Some (unit_sys demo_fetched, Inr single)"
proof -
  have "cut_str ''demo://f'' ''::'' = (''demo://f'', [], False)" "has_prefix ''demo://f'' (''demo'' @ ''://'')" by code_simp+
  then show ?thesis
    by (simp add: download_def detect_url_def Let_def demo_grabber_def demo_protocol_def demo_fetch_def with_fs_def demo_fetched_def)
qed

lemma demo_fetched_ok:
  "fs_ok demo_fetched" "fs_get demo_fetched [''tmp'', ''grabber'', ''u''] = Some (Dir 493)"
  "placed demo_fetched [''o'', ''d'']" "fs_get demo_fetched [''o'', ''d''] = None" "fs_depth demo_fetched < 9"
proof -
  have p: "plain_comps [''tmp'', ''grabber'', ''u'', ''f'']" "plain_comps [''o'']" "plain_comps [''d'']" by code_simp+
  show "fs_ok demo_fetched"
    using p(1,2) by (auto simp: fs_ok_def demo_fetched_def demo_during_def fs_get_set fs_set_def map_put_def plain_comps_def fs_get_def split: if_splits)
  show "placed demo_fetched [''o'', ''d'']"
    using p placed_snoc [of demo_fetched "[''o'']" "''d''"] placed_snoc [of demo_fetched "[]" "''o''"]
    by (simp add: demo_fetched_def demo_during_def fs_get_def fs_set_def map_put_def)
qed (simp_all add: demo_fetched_def demo_during_def fs_get_def fs_set_def map_put_def fs_depth_def)

theorem grab_directory_witness:
  "\<exists>w3. grab demo_grab_env (demo_grabber False) ''demo://f'' (abs_path [''o'', ''d'']) no_checksum (unit_sys demo_before) = Some (w3, None) \<and>
    fs_get (sys_fs w3) [''o'', ''d'', ''f''] = Some (Regular 420 ''data'') \<and>
    fs_get (sys_fs w3) [''tmp'', ''grabber'', ''u'', ''f''] = None"
proof -
  have "path_join [temporary_directory (g_settings (demo_grabber False)), ''grabber'', gb_uuid demo_grab_env] =
      abs_path [''tmp'', ''grabber'', ''u'']"
    using demo_steps(2) by (simp add: demo_grabber_def default_settings_def demo_grab_env_def)
  moreover have "with_fs (unit_sys demo_before) demo_during = unit_sys demo_during" by (simp add: with_fs_def)
  ultimately obtain w3 where
    "grab demo_grab_env (demo_grabber False) ''demo://f'' (abs_path [''o'', ''d'']) no_checksum (unit_sys demo_before) = Some (w3, None)"
    and r: "\<forall>r. fs_get (sys_fs w3) ([''o'', ''d''] @ r) = fs_get demo_fetched ([''tmp'', ''grabber'', ''u''] @ r)"
    "\<forall>q. prefix [''tmp'', ''grabber'', ''u''] q \<longrightarrow> fs_get (sys_fs w3) q = None"
    using grab_directory [OF demo_steps(1), where explicit = no_checksum and g = "demo_grabber False" and env = demo_grab_env and t = "[''tmp'', ''grabber'', ''u'']"
        and w = "unit_sys demo_before" and f = demo_during and ?w2.0 = "unit_sys demo_fetched" and n = "Dir 493" and d = "[''o'', ''d'']"]
      demo_steps(3) demo_detected [of False] demo_fetched_ok by (auto simp: no_checksum_def demo_grab_env_def)
  moreover have "fs_get (sys_fs w3) [''o'', ''d'', ''f''] = Some (Regular 420 ''data'')"
    using r(1) [rule_format, of "[''f'']"] by (simp add: demo_fetched_def fs_get_set)
  ultimately show ?thesis by auto
qed

theorem forced_prefix_commits_witness:
  "detect_url (sort_protocols [demo_protocol ''a'' 1 True, demo_protocol ''b'' 2 True]) (unit_sys demo_before) ''a::b://f'' =
     Inl (Errorf ''protocol %q detected but could not handle URL: %w'' [''a''] [Sentinel ErrUnsupportedURL])"
proof -
  let ?p = "demo_protocol ''a'' 1 True"
  have "forced_detect ?p (unit_sys demo_before) ''b://f'' = None"
  proof -
    have "\<not> has_prefix ''b://f'' ''a://''" by code_simp
    then show ?thesis by (simp add: forced_detect_def demo_protocol_def)
  qed
  then show ?thesis
    using forced_prefix_commits [of ?p "[?p, demo_protocol ''b'' 2 True]" "unit_sys demo_before" "''b://f''"]
    by (simp add: demo_protocol_def)
qed

theorem auto_detection_priority_witness:
  "\<exists>d. detect_url (sort_protocols [demo_protocol ''a'' 1 True, demo_protocol ''b'' 2 True]) (unit_sys demo_before) ''b://f'' = Inr d"
proof -
  let ?ps = "[demo_protocol ''a'' 1 True, demo_protocol ''b'' 2 True]"
  have c: "cut_str ''b://f'' ''::'' = (''b://f'', [], False)" "has_prefix ''b://f'' ''b://''" by code_simp+
  then have "\<not> (\<forall>p\<in>set ?ps. pr_detect p (unit_sys demo_before) ''b://f'' = None)" by (simp add: demo_protocol_def)
  moreover have "cut_str ''b://f'' ''::'' \<noteq> (pr_prefix p, rest, True)" for p :: "unit protocol" and rest using c by simp
  note auto_detection_priority [of ?ps, OF this, of "unit_sys demo_before"]
  ultimately have "detect_url (sort_protocols ?ps) (unit_sys demo_before) ''b://f'' \<noteq> Inl e" for e by blast
  then show ?thesis by (cases "detect_url (sort_protocols ?ps) (unit_sys demo_before) ''b://f''") auto
qed

theorem checksum_parameter_removed_witness:
  "extract_checksum ''s3::https://h/f?a=1&checksum=md5:ab'' = (''s3::https://h/f?a=1'', \<lparr>cs_algorithm = ''md5'', cs_expected = ''ab''\<rparr>) \<and>
   (\<exists>query. \<not> query_has (query_pairs query) ''checksum'')"
proof -
  have r: "extract_checksum ''s3::https://h/f?a=1&checksum=md5:ab'' = (''s3::https://h/f?a=1'', \<lparr>cs_algorithm = ''md5'', cs_expected = ''ab''\<rparr>)"
    by code_simp
  then show ?thesis using checksum_parameter_removed [OF r] by (auto simp: no_checksum_def)
qed

theorem grab_verified_witness:
  "\<exists>w2 name p m data h.
     download (demo_grabber True) (g_settings (demo_grabber True)) ''demo://f'' ''/tmp/grabber/u'' (unit_sys demo_during) = Some (w2, Inr True) \<and>
     read_dir (sys_fs w2) ''/tmp/grabber/u'' = Inr [name] \<and> open_read (sys_fs w2) (path_join [''/tmp/grabber/u'', name]) = Inr p \<and>
     fs_get (sys_fs w2) p = Some (Regular m data) \<and> hash_for (gb_digest demo_grab_env) ''sha256'' = Inr h \<and>
     equal_fold (hex_encode (h data)) ''2A''"
proof -
  let ?c = "\<lparr>cs_algorithm = ''sha256'', cs_expected = ''2A''\<rparr>"
  have tmp: "abs_path [''tmp'', ''grabber'', ''u''] = ''/tmp/grabber/u''" by code_simp
  have path: "path_join [temporary_directory (g_settings (demo_grabber True)), ''grabber'', gb_uuid demo_grab_env] = ''/tmp/grabber/u''"
    using demo_steps(2) by (simp add: demo_grabber_def default_settings_def demo_grab_env_def tmp)
  have fs: "read_dir demo_fetched ''/tmp/grabber/u'' = Inr [''f'']" "path_join [''/tmp/grabber/u'', ''f''] = ''/tmp/grabber/u/f''"
    "open_read demo_fetched ''/tmp/grabber/u/f'' = Inr [''tmp'', ''grabber'', ''u'', ''f'']"
    "opened_reader demo_fetched [''tmp'', ''grabber'', ''u'', ''f''] = \<lparr>rd_data = ''data'', rd_end = None\<rparr>"
    "equal_fold ''2a'' ''2A''" "to_lower ''sha256'' = ''sha256''"
    "fs_rename demo_fetched False ''/tmp/grabber/u'' ''/o/d'' = (fs_move demo_fetched [''tmp'', ''grabber'', ''u''] [''o'', ''d''], None)"
    "fs_stat demo_fetched ''/o/d'' = Inl enoent" "errors_is enoent ErrNotExist"
    by code_simp+
  moreover have "hex_encode ''*'' = ''2a''"
    by (simp add: hex_encode_def upper_hex_def lower_char_def is_upper_def char_of_def bit_iff_odd)
  ultimately have "finish_grab demo_grab_env (g_settings (demo_grabber True)) ?c ''/tmp/grabber/u'' ''/o/d'' True demo_fetched =
      Some (fs_move demo_fetched [''tmp'', ''grabber'', ''u''] [''o'', ''d''], None)"
    by (simp add: finish_grab_def verify_checksum_def only_entry_def hash_for_def demo_grab_env_def demo_grabber_def deliver_def)
  then obtain w1 where g: "grab demo_grab_env (demo_grabber True) ''demo://f'' ''/o/d'' ?c (unit_sys demo_before) = Some (w1, None)"
    using demo_steps path demo_detected [of True "''/tmp/grabber/u''"] unfolding tmp
    by (simp add: grab_def Let_def with_fs_def)
  have "fst (mkdir_all (sys_fs (unit_sys demo_before)) ''/tmp/grabber/u'' 493) = demo_during" using demo_steps(3) tmp by simp
  then show ?thesis
    using grab_verified [OF g refl _ path [symmetric]] demo_steps(1) by (simp add: with_fs_def)
qed

theorem auto_extract_single_fails_witness:
  "\<exists>e. auto_extract demo_grab_env 0 \<lparr>fs_nodes = [([''t''], Dir 493), ([''t'', ''data.gz''], Regular 420 ''z'')], fs_cwd = []\<rparr> (abs_path [''t'']) =
     (\<lparr>fs_nodes = [([''t''], Dir 493), ([''t'', ''data.gz''], Regular 420 ''z'')], fs_cwd = []\<rparr>, Inl e)"
proof (rule auto_extract_single_fails)
  let ?f = "\<lparr>fs_nodes = [([''t''], Dir 493), ([''t'', ''data.gz''], Regular 420 ''z'')], fs_cwd = []\<rparr>"
  show "link_free ([''t''] @ [''_extracted'']) ?f" by (auto simp: links_only_def fs_get_def)
  show "plain_comps [''t'']" "fs_get ?f ([''t''] @ [''_extracted'']) = None" "read_dir ?f (abs_path [''t'']) = Inr [''data.gz'']"
    "plain_comps [''data.gz'']" "detect_extension (abs_path ([''t''] @ [''data.gz''])) \<in> set single_extensions"
    by code_simp+
  have "\<forall>ext\<in>set single_extensions. plain_comps [trim_suffix ''data.gz'' (''.'' @ ext)]" by code_simp
  then show "plain_comps [trim_suffix ''data.gz'' (''.'' @ ext)]" if "ext \<in> set single_extensions" for ext using that by blast
qed

end
