(* ===== verification/Composition.thy ===== *)
theory Composition
  imports Git_Clone Hg_Protocol Object_Stores Oci_Protocol Http_Protocol File_Protocol Grab
begin

text \<open>
  The pipeline over the protocols there are: \<^verbatim>\<open>allProtocols\<close> of \<^verbatim>\<open>grabber.go\<close> with the model of each
  protocol, which of them handles what kind of URL, and a local directory from its path to the
  destination.
\<close>

section \<open>All protocols\<close>

definition git_protocol :: "('n, 'g, 'r) git_env \<Rightarrow> 'n protocol" where
  "git_protocol env =
     \<lparr>pr_prefix = ''git'', pr_priority = 90,
      pr_detect = (\<lambda>_ raw. map_option (\<lambda>d s. git_downloader_download env s d) (git_detect raw)),
      pr_forced = Some (\<lambda>_ raw. map_option (\<lambda>d s. git_downloader_download env s d) (git_detect_forced raw))\<rparr>"

record ('n, 'g, 'r, 'c, 'p, 'v) protocol_env =
  wd_git :: "('n, 'g, 'r) git_env"
  wd_hg :: "'n hg_env"
  wd_s3 :: "('n, 'c, 'p) s3_env"
  wd_gcs :: "('n, 'v) gcs_env"
  wd_oci :: "'n oci_env"
  wd_http :: "'n http_env"
  wd_cwd :: "string result"
  wd_depth :: nat
  wd_disk :: disk

definition all_protocols :: "('n, 'g, 'r, 'c, 'p, 'v) protocol_env \<Rightarrow> 'n protocol list" where
  "all_protocols e =
     sort_protocols
       [git_protocol (wd_git e), hg_protocol (wd_hg e), s3_protocol (wd_s3 e), gcs_protocol (wd_gcs e),
        oci_protocol (wd_oci e), http_protocol (wd_http e), file_protocol (wd_cwd e) (wd_depth e) (wd_disk e)]"

lemmas protocol_defs = git_protocol_def hg_protocol_def s3_protocol_def gcs_protocol_def oci_protocol_def
  http_protocol_def file_protocol_def

lemma all_protocols_sorted:
  "all_protocols e =
     [git_protocol (wd_git e), hg_protocol (wd_hg e), s3_protocol (wd_s3 e), gcs_protocol (wd_gcs e),
      oci_protocol (wd_oci e), http_protocol (wd_http e), file_protocol (wd_cwd e) (wd_depth e) (wd_disk e)]"
  by (simp add: all_protocols_def sort_protocols_def protocol_less_def protocol_defs)

section \<open>Which protocol\<close>

lemma no_chr_sub: "c \<in> set sub \<Longrightarrow> c \<notin> set x \<Longrightarrow> index_str x sub = None \<and> \<not> contains_str x sub"
  unfolding contains_str_iff index_str_None by (metis Un_iff set_append)

lemma cut_no_colons: "CHR '':'' \<notin> set x \<Longrightarrow> cut_str x ''::'' = (x, [], False)"
proof -
  assume "CHR '':'' \<notin> set x"
  then have "index_str x ''::'' = None" using no_chr_sub [of "CHR '':''" "''::''" x] by simp
  then show ?thesis by (simp add: cut_str_def)
qed

lemma no_scheme: "CHR '':'' \<notin> set x \<Longrightarrow> \<not> contains_str x ''://''"
  using no_chr_sub [of "CHR '':''" "''://''" x] by simp

lemma detect_unprefixed:
  "cut_str url ''::'' = (url, [], False) \<Longrightarrow>
   detect_url ps w url = (case first_detected w url ps of Some d \<Rightarrow> Inr d | None \<Rightarrow> Inl (Sentinel ErrUnsupportedURL))"
  by (simp add: detect_url_def)

text \<open>A URL without anything of a repository in its path, at a host no other protocol knows.\<close>

definition ordinary :: "string \<Rightarrow> string \<Rightarrow> bool" where
  "ordinary h p \<longleftrightarrow> list_all is_scp_host_char h \<and> list_all is_path_char p \<and>
     \<not> has_suffix (CHR ''/'' # p) ''.git'' \<and> \<not> contains_str (CHR ''/'' # p) ''.git//'' \<and>
     to_lower h \<notin> set known_git_hosts \<and> to_lower h \<notin> set known_hg_hosts \<and> \<not> contains_str (to_lower h) ''amazonaws.com'' \<and>
     to_lower h \<noteq> ''storage.googleapis.com'' \<and> to_lower h \<noteq> ''storage.cloud.google.com'' \<and>
     \<not> has_suffix (to_lower h) ''.storage.googleapis.com''"

lemma ordinary_parse:
  assumes "ordinary h p" and "(if contains_str raw ''://'' then raw else ''https://'' @ raw) = ''https://'' @ h @ ''/'' @ p"
  shows "url_parse (if contains_str raw ''://'' then raw else ''https://'' @ raw) = Some (plain_url ''https'' None h p)"
  using assms parse_https_plain [of h p] by (simp add: ordinary_def)

lemma ordinary_refused:
  assumes "ordinary h p" and raw: "(if contains_str raw ''://'' then raw else ''https://'' @ raw) = ''https://'' @ h @ ''/'' @ p"
    and "\<not> scp_match raw" and "\<not> has_prefix raw ''s3://''" and "\<not> has_prefix raw ''oci://''"
  shows "git_detect raw = None" and "hg_detect raw = None" and "s3_detect raw = None" and "gcs_detect raw = None" and "oci_detect raw = None"
proof -
  let ?u = "plain_url ''https'' None h p"
  note parse = ordinary_parse [OF assms(1) raw]
  have host: "url_hostname ?u = h" using plain_url_host [of h] assms(1) by (simp add: ordinary_def)
  have u: "u_scheme ?u = ''https''" "u_path ?u = CHR ''/'' # p" "query_has (url_query ?u) ''archive'' = False"
    by (simp_all add: plain_url_def empty_url_def url_query_def query_pairs_def parse_pair_def query_has_def List.map_filter_def)
  have "\<not> is_git_url ?u" using assms(1) u host by (simp add: is_git_url_def ordinary_def Let_def)
  then show "git_detect raw = None" using assms(3) parse by (simp add: git_detect_def parse_git_url_def add_https_def)
  have "\<not> is_hg_url ?u" using assms(1) host by (simp add: is_hg_url_def ordinary_def)
  then show "hg_detect raw = None" using parse by (simp add: hg_detect_def parse_hg_url_def)
  have "\<not> contains_str (to_lower (url_hostname ?u)) ''amazonaws.com''" using assms(1) host by (simp add: ordinary_def)
  then show "s3_detect raw = None" using assms(4) parse by (simp add: s3_detect_def parse_s3_url_def Let_def)
  show "gcs_detect raw = None" using assms(1) host parse by (simp add: gcs_detect_def parse_gcs_url_def ordinary_def Let_def)
  show "oci_detect raw = None" using assms(5) by (simp add: oci_detect_def parse_oci_url_def)
qed

lemma local_raw:
  assumes "list_all is_path_char p"
  shows "CHR '':'' \<notin> set (CHR ''/'' # p)" "\<not> scp_match (CHR ''/'' # p)"
    "\<not> has_prefix (CHR ''/'' # p) ''s3://''" "\<not> has_prefix (CHR ''/'' # p) ''oci://''" "\<not> has_prefix (CHR ''/'' # p) ''file://''"
  using assms plain_chars_not [OF assms, of "CHR '':''"] by (auto simp: scp_match_def char_class_simps has_prefix_iff)

text \<open>An absolute local path is left to the file protocol.\<close>

lemma local_path_detected:
  assumes "ordinary [] p"
  shows "detect_url (all_protocols e) w (CHR ''/'' # p) =
    Inr (\<lambda>s tmp w. map_option (\<lambda>(f, r). (w\<lparr>sys_fs := f\<rparr>, r))
      (file_download (wd_cwd e) (wd_depth e) (wd_disk e) \<lparr>fd_path = CHR ''/'' # p\<rparr> s tmp (sys_fs w)))"
proof -
  let ?raw = "CHR ''/'' # p"
  have p: "list_all is_path_char p" using assms by (simp add: ordinary_def)
  note l = local_raw [OF p]
  have raw: "(if contains_str ?raw ''://'' then ?raw else ''https://'' @ ?raw) = ''https://'' @ [] @ ''/'' @ p"
    using no_scheme [OF l(1)] by simp
  note no = ordinary_refused [OF assms raw l(2-4)]
  have "http_detect ?raw = None" by (simp add: http_detect_def parse_http_url_def)
  moreover have "file_detect (wd_cwd e) ?raw = Some \<lparr>fd_path = ?raw\<rparr>"
    using l(5) by (simp add: file_detect_def parse_file_url_def is_abs_def)
  ultimately show ?thesis
    using no by (simp add: detect_unprefixed [OF cut_no_colons [OF l(1)]] all_protocols_sorted protocol_defs)
qed

lemma http_last:
  assumes "cut_str raw ''::'' = (raw, [], False)" and "git_detect raw = None" and "hg_detect raw = None" and "s3_detect raw = None"
    and "gcs_detect raw = None" and "oci_detect raw = None" and "http_detect raw = Some d"
  shows "detect_url (all_protocols e) w raw = Inr (returning (http_download (wd_http e) d))"
  using assms(2-7) by (simp add: detect_unprefixed [OF assms(1)] all_protocols_sorted protocol_defs)

text \<open>An \<^verbatim>\<open>https\<close> URL at an ordinary host is left to the HTTP protocol, as it is written.\<close>

lemma https_url_detected:
  assumes "ordinary h p" and "h \<noteq> []"
  shows "detect_url (all_protocols e) w (''https://'' @ h @ ''/'' @ p) =
    Inr (returning (http_download (wd_http e) \<lparr>hd_url = ''https://'' @ h @ ''/'' @ p, hd_archive = []\<rparr>))"
proof -
  let ?raw = "''https://'' @ h @ ''/'' @ p" and ?u = "plain_url ''https'' None h p"
  have hp: "list_all is_scp_host_char h" "list_all is_path_char p" using assms(1) by (simp_all add: ordinary_def)
  have colon: "CHR '':'' \<notin> set (h @ ''/'' @ p)"
    using plain_chars_not [OF hp(2), of "CHR '':''"] plain_chars_not [OF host_chars_path [OF hp(1)], of "CHR '':''"] by simp
  have "index_str (h @ ''/'' @ p) ''::'' = None" using colon no_chr_sub [of "CHR '':''" "''::''"] by simp
  then have cut: "cut_str ?raw ''::'' = (?raw, [], False)" by (simp add: cut_str_def)
  have c: "contains_str ?raw ''://''" using contains_mid [of "''https''" "''://''" "h @ ''/'' @ p"] by simp
  then have raw: "(if contains_str ?raw ''://'' then ?raw else ''https://'' @ ?raw) = ''https://'' @ h @ ''/'' @ p" by simp
  have shape: "\<not> scp_match ?raw" "\<not> has_prefix ?raw ''s3://''" "\<not> has_prefix ?raw ''oci://''"
    "\<not> has_prefix ?raw ''/''" "\<not> has_prefix ?raw ''./''" "\<not> has_prefix ?raw ''../''"
    by (simp_all add: scp_match_def char_class_simps has_prefix_iff)
  note no = ordinary_refused [OF assms(1) raw shape(1-3)]
  have u: "u_scheme ?u = ''https''" "u_host ?u = h" "query_has (url_query ?u) ''archive'' = False"
    by (simp_all add: plain_url_def empty_url_def url_query_def query_pairs_def parse_pair_def query_has_def List.map_filter_def)
  have "parse_http_url ?raw = Inr \<lparr>hd_url = ?raw, hd_archive = []\<rparr>"
    using shape(4-6) c u assms(2) parse_https_plain [OF hp] string_plain_https [OF hp assms(2)] by (simp add: parse_http_url_def Let_def)
  then have "http_detect ?raw = Some \<lparr>hd_url = ?raw, hd_archive = []\<rparr>" by (simp add: http_detect_def)
  then show ?thesis by (rule http_last [OF cut no])
qed

text \<open>
  The protocols are asked in the order git, hg, s3, gcs, oci, http, file, whatever the order they
  are listed in.
\<close>

theorem protocols_in_order:
  "map (\<lambda>p. (pr_prefix p, pr_priority p)) (all_protocols e) =
     [(''git'', 90), (''hg'', 80), (''s3'', 70), (''gcs'', 60), (''oci'', 50), (''http'', 20), (''file'', 10)]"
  by (simp add: all_protocols_sorted protocol_defs)

text \<open>
  C14. Where a URL goes: what Git recognises, to Git before all others; a plain absolute path to the
  file protocol; an \<^verbatim>\<open>https\<close> URL at a host that is none of the known ones, and with nothing of a
  repository in its path, to the HTTP protocol, as it is written.
\<close>

theorem url_routing:
  shows "(\<forall>raw d. cut_str raw ''::'' = (raw, [], False) \<longrightarrow> git_detect raw = Some d \<longrightarrow>
      detect_url (all_protocols e) w raw = Inr (\<lambda>s. git_downloader_download (wd_git e) s d)) \<and>
    (ordinary [] p \<longrightarrow> detect_url (all_protocols e) w (CHR ''/'' # p) = Inr (\<lambda>s tmp w. map_option (\<lambda>(f, r). (w\<lparr>sys_fs := f\<rparr>, r))
      (file_download (wd_cwd e) (wd_depth e) (wd_disk e) \<lparr>fd_path = CHR ''/'' # p\<rparr> s tmp (sys_fs w)))) \<and>
    (ordinary h p \<longrightarrow> h \<noteq> [] \<longrightarrow> detect_url (all_protocols e) w (''https://'' @ h @ ''/'' @ p) =
      Inr (returning (http_download (wd_http e) \<lparr>hd_url = ''https://'' @ h @ ''/'' @ p, hd_archive = []\<rparr>)))"
proof (intro conjI allI impI)
  show "detect_url (all_protocols e) w raw = Inr (\<lambda>s. git_downloader_download (wd_git e) s d)"
    if "cut_str raw ''::'' = (raw, [], False)" "git_detect raw = Some d" for raw d
    using that(2) by (simp add: detect_unprefixed [OF that(1)] all_protocols_sorted git_protocol_def)
qed (rule local_path_detected https_url_detected; assumption)+

text \<open>
  A local directory whose name ends in \<^verbatim>\<open>.git\<close> cannot be grabbed by its path: Git takes the path for
  that of a URL without a host.
\<close>

lemma local_dot_git_misread:
  "git_detect ''/srv/repo.git'' = Some \<lparr>gd_repo_url = ''https:///srv/repo.git'', gd_subdir = [], gd_ref = [], gd_depth = 0\<rparr>"
  "git_detect ''./repo.git'' = Some \<lparr>gd_repo_url = ''https://./repo.git'', gd_subdir = [], gd_ref = [], gd_depth = 0\<rparr>"
  by code_simp+

section \<open>A local directory, end to end\<close>

lemma fs_depth_le:
  assumes "fs_ok f" and "\<And>p. fs_get f p \<noteq> None \<Longrightarrow> length p \<le> n"
  shows "fs_depth f \<le> n"
proof -
  have "length p \<le> n" if "(p, x) \<in> set (fs_nodes f)" for p x
  proof (cases "p = []")
    case False
    have "p \<in> fst ` set (fs_nodes f)" using that by force
    then have "fs_get f p \<noteq> None" using False by (simp add: fs_get_def map_of_eq_None_iff del: not_None_eq)
    then show ?thesis by (rule assms(2))
  qed simp
  then have "\<forall>(p, x)\<in>set (fs_nodes f). length p \<le> n" by auto
  moreover have "\<forall>(p, x)\<in>set ns. length p \<le> n \<Longrightarrow> foldr (\<lambda>(p, _). max (length p)) ns 0 \<le> n" for ns :: "(fpath \<times> fnode) list"
    by (induction ns) auto
  ultimately show ?thesis unfolding fs_depth_def by blast
qed

text \<open>A tree copied into an empty directory leaves a file system in order.\<close>

lemma copied_into_ok:
  assumes "fs_ok f" and "fs_get f t = Some (Dir m)" and "fs_get f s = Some (Dir m')" and "distinct (map fst (fs_nodes g))"
    and "\<forall>r. r \<noteq> [] \<longrightarrow> fs_get g (t @ r) = fs_get f (s @ r)" and "\<forall>q. \<not> strict_prefix t q \<longrightarrow> fs_get g q = fs_get f q"
  shows "fs_ok g"
proof -
  have ok: "plain_comps q \<and> (\<exists>m. fs_get f (butlast q) = Some (Dir m))" if "fs_get f q = Some k" "q \<noteq> []" for q k
    using assms(1) that by (auto simp: fs_ok_def)
  have "plain_comps p \<and> (\<exists>m. fs_get g (butlast p) = Some (Dir m))" if p: "fs_get g p = Some n" "p \<noteq> []" for p n
  proof (cases "strict_prefix t p")
    case True
    then obtain r where r: "p = t @ r" "r \<noteq> []" by (auto simp: strict_prefix_def prefix_def)
    have "plain_comps (s @ r)" "\<exists>m. fs_get f (s @ butlast r) = Some (Dir m)"
      using ok [of "s @ r" n] assms(5) p r by (auto simp: butlast_append)
    moreover have "plain_comps t" using placed_plain [OF ok_placed [OF assms(1,2)]] .
    moreover have "fs_get g (t @ butlast r) = fs_get f (if butlast r = [] then t else s @ butlast r)"
      using assms(5,6) by auto
    ultimately show ?thesis using r assms(2) by (auto simp: butlast_append)
  next
    case False
    have "\<not> strict_prefix t (butlast p)"
    proof
      assume a: "strict_prefix t (butlast p)"
      then have "prefix t p" using prefix_order.order_trans [OF _ prefixeq_butlast, of t p] by (simp add: strict_prefix_def)
      then show False using False prefix_length_less [OF a] by (auto simp: strict_prefix_def)
    qed
    then show ?thesis using False assms(6) ok [of p n] p by auto
  qed
  then show ?thesis using assms(4) by (auto simp: fs_ok_def)
qed

lemma plain_no_checksum:
  assumes "list_all is_path_char p"
  shows "extract_checksum (CHR ''/'' # p) = (CHR ''/'' # p, no_checksum)"
proof -
  have "CHR ''='' \<notin> set (CHR ''/'' # p)" using assms by (auto simp: list_all_iff char_class_simps)
  then have "\<not> contains_str (CHR ''/'' # p) ''checksum=''"
    using no_chr_sub [of "CHR ''=''" "''checksum=''" "CHR ''/'' # p"] by simp
  then show ?thesis using cut_no_colons [OF local_raw(1) [OF assms]] by (simp add: extract_checksum_def)
qed

text \<open>Detection, copying into the temporary directory, and what that leaves.\<close>

lemma local_directory_downloaded:
  assumes "ordinary [] (rel_path s)" and "g_protocols g = all_protocols e" and "allowed_local_dirs (g_settings g) = []"
    and "fs_ok f" and "fs_get f s = Some (Dir m)" and "fs_get f t = Some (Dir m')" and "\<And>c. fs_get f (t @ [c]) = None"
    and "\<not> prefix s t" and "\<not> prefix t s" and "\<And>q. wd_disk e q = None" and "fs_depth f < wd_depth e"
  shows "\<exists>h. download g (g_settings g) (abs_path s) (abs_path t) (with_fs w f) = Some (with_fs w h, Inr False) \<and> fs_ok h \<and>
    (\<forall>r. r \<noteq> [] \<longrightarrow> fs_get h (t @ r) = fs_get f (s @ r)) \<and> (\<forall>q. \<not> strict_prefix t q \<longrightarrow> fs_get h q = fs_get f q)"
proof -
  obtain h where h: "copy_local_dir (wd_depth e) (wd_disk e) f (abs_path s) (abs_path t) = Some (h, None)"
    "\<forall>r. r \<noteq> [] \<longrightarrow> fs_get h (t @ r) = fs_get f (s @ r)" "\<forall>q. \<not> strict_prefix t q \<longrightarrow> fs_get h q = fs_get f q"
    "distinct (map fst (fs_nodes h))"
    using copy_tree_into [OF assms(4-9) copies_files_both(2) [of "wd_disk e"] assms(10,11)] unfolding copy_local_dir_def by blast
  have "fs_stat f (abs_path s) = Inr (Dir m)" using ok_placed [OF assms(4,5)] assms(5) by (simp add: stat_placed)
  then have "file_download (wd_cwd e) (wd_depth e) (wd_disk e) \<lparr>fd_path = abs_path s\<rparr> (g_settings g) (abs_path t) f = Some (h, Inr False)"
    using h(1) assms(3) by (simp add: file_download_def check_allowed_def is_dir_def)
  moreover have "CHR ''/'' # rel_path s = abs_path s" by (simp add: unsplit_def)
  ultimately have "download g (g_settings g) (abs_path s) (abs_path t) (with_fs w f) = Some (with_fs w h, Inr False)"
    using local_path_detected [OF assms(1), of e "with_fs w f"] assms(2) by (simp add: download_def with_fs_def)
  then show ?thesis using h(2,3) copied_into_ok [OF assms(4,6,5) h(4,2,3)] by blast
qed

text \<open>
  The download into the fresh temporary directory \<open>t\<close>: the source is below it, the rest of the file
  system is as it was, and the tree is no deeper than the walks go.
\<close>

lemma local_directory_fetched:
  assumes "ordinary [] (rel_path s)" and "g_protocols g = all_protocols e" and "allowed_local_dirs (g_settings g) = []"
    and ok: "fs_ok (sys_fs w)" and src: "fs_get (sys_fs w) s = Some (Dir m)"
    and t: "placed (sys_fs w) t" "fs_get (sys_fs w) t = None" and apart: "\<not> prefix s t"
    and disks: "\<And>q. wd_disk e q = None" and depth: "length t + fs_depth (sys_fs w) < wd_depth e"
  shows "\<exists>h. download g (g_settings g) (abs_path s) (abs_path t) (with_fs w (fs_set (sys_fs w) t (Dir 493))) = Some (with_fs w h, Inr False) \<and>
    fs_ok h \<and> fs_get h t = Some (Dir 493) \<and> (\<forall>r. r \<noteq> [] \<longrightarrow> fs_get h (t @ r) = fs_get (sys_fs w) (s @ r)) \<and>
    (\<forall>q. \<not> prefix t q \<longrightarrow> fs_get h q = fs_get (sys_fs w) q) \<and> fs_depth h \<le> length t + fs_depth (sys_fs w)"
proof -
  let ?o = "sys_fs w" and ?f = "fs_set (sys_fs w) t (Dir 493)"
  have t_ne: "t \<noteq> []" using t(2) by (auto simp: fs_get_def)
  have below: "fs_get ?o (t @ r) = None" for r using ok_none_below [OF ok _ t(2)] by simp
  have get: "fs_get ?f q = (if q = t then Some (Dir 493) else fs_get ?o q)" for q using t_ne by (simp add: fs_get_set)
  have okf: "fs_ok ?f" by (rule fs_ok_set [OF ok t(1) t_ne]) simp
  have ts: "\<not> prefix t s" using below src by (auto simp: prefix_def)
  have deep: "fs_depth ?f \<le> length t + fs_depth ?o"
  proof (rule fs_depth_le [OF okf])
    show "length p \<le> length t + fs_depth ?o" if "fs_get ?f p \<noteq> None" for p
      using that get [of p] fs_depth_bound [of ?o p] by (cases "p = t") auto
  qed
  have "fs_get ?f s = Some (Dir m)" "fs_get ?f t = Some (Dir 493)" "\<And>c. fs_get ?f (t @ [c]) = None"
    using src get ts below by auto
  from local_directory_downloaded [OF assms(1-3) okf this apart ts disks, of w] deep depth
  obtain h where h: "download g (g_settings g) (abs_path s) (abs_path t) (with_fs w ?f) = Some (with_fs w h, Inr False)" "fs_ok h"
    "\<forall>r. r \<noteq> [] \<longrightarrow> fs_get h (t @ r) = fs_get ?f (s @ r)" "\<forall>q. \<not> strict_prefix t q \<longrightarrow> fs_get h q = fs_get ?f q" by auto
  have tree: "fs_get h (t @ r) = fs_get ?o (s @ r)" if "r \<noteq> []" for r
    using h(3) that get [of "s @ r"] apart by (auto simp: prefix_def)
  have rest: "fs_get h q = fs_get ?o q" if "\<not> prefix t q" for q
    using h(4) that get [of q] by (auto simp: strict_prefix_def)
  have "fs_depth h \<le> length t + fs_depth ?o"
  proof (rule fs_depth_le [OF h(2)])
    fix p assume p: "fs_get h p \<noteq> None"
    show "length p \<le> length t + fs_depth ?o"
    proof (cases "prefix t p")
      case True
      then obtain r where r: "p = t @ r" by (auto simp: prefix_def)
      show ?thesis using p tree [of r] fs_depth_bound [of ?o "s @ r"] r by (cases "r = []") auto
    qed (use p rest [of p] fs_depth_bound [of ?o p] in simp)
  qed
  moreover have "fs_get h t = Some (Dir 493)" using h(4) get [of t] by (simp add: strict_prefix_def)
  ultimately show ?thesis using h(1,2) tree rest by blast
qed

lemma local_directory_delivered:
  assumes "ordinary [] (rel_path s)" and "g_protocols g = all_protocols e" and "allowed_local_dirs (g_settings g) = []"
    and tmp: "path_join [temporary_directory (g_settings g), ''grabber'', gb_uuid env] = abs_path t"
    and ok: "fs_ok (sys_fs w)" and src: "fs_get (sys_fs w) s = Some (Dir m)"
    and t: "placed (sys_fs w) t" "fs_get (sys_fs w) t = None" and d: "placed (sys_fs w) d" "fs_get (sys_fs w) d = None"
    and apart: "\<not> prefix s t" "\<not> prefix t d"
    and disks: "\<And>q. gb_disk env q = None" "\<And>q. wd_disk e q = None"
    and depth: "length t + fs_depth (sys_fs w) < wd_depth e" "length t + fs_depth (sys_fs w) < gb_depth env"
  shows "\<exists>w3. grab env g (abs_path s) (abs_path d) no_checksum w = Some (w3, None) \<and> fs_get (sys_fs w3) d = Some (Dir 493) \<and>
    (\<forall>r. r \<noteq> [] \<longrightarrow> fs_get (sys_fs w3) (d @ r) = fs_get (sys_fs w) (s @ r)) \<and>
    (\<forall>q. \<not> prefix d q \<longrightarrow> fs_get (sys_fs w3) q = fs_get (sys_fs w) q)"
proof -
  let ?o = "sys_fs w" and ?f = "fs_set (sys_fs w) t (Dir 493)"
  have t_ne: "t \<noteq> []" using t(2) by (auto simp: fs_get_def)
  have below: "fs_get ?o (t @ r) = None" for r using ok_none_below [OF ok _ t(2)] by simp
  have mk: "mkdir_all ?o (abs_path t) 493 = (?f, None)" by (rule mkdir_all_placed [OF t])
  obtain h where h: "download g (g_settings g) (abs_path s) (abs_path t) (with_fs w ?f) = Some (with_fs w h, Inr False)" "fs_ok h"
    "fs_get h t = Some (Dir 493)" "\<forall>r. r \<noteq> [] \<longrightarrow> fs_get h (t @ r) = fs_get ?o (s @ r)" "\<forall>q. \<not> prefix t q \<longrightarrow> fs_get h q = fs_get ?o q"
    "fs_depth h \<le> length t + fs_depth ?o"
    using local_directory_fetched [OF assms(1-3) ok src t apart(1) disks(2) depth(1)] by blast
  have upto_d: "fs_get h q = fs_get ?o q" if "prefix q d" for q
    using h(5) apart(2) prefix_order.order_trans [of t q d] that by blast
  then have "placed h d" using placed_cong [of d h ?o] d(1) by (simp add: strict_prefix_def)
  moreover have "fs_get h d = None" using upto_d [of d] d(2) by simp
  moreover have "fs_depth h < gb_depth env" using h(6) depth(2) by simp
  moreover have "extract_checksum (abs_path s) = (abs_path s, no_checksum)"
    using plain_no_checksum [of "rel_path s"] assms(1) by (simp add: ordinary_def unsplit_def)
  moreover have "cs_algorithm no_checksum = []" by (simp add: no_checksum_def)
  ultimately obtain w3 where w3: "grab env g (abs_path s) (abs_path d) no_checksum w = Some (w3, None)"
    "\<forall>r. fs_get (sys_fs w3) (d @ r) = fs_get h (t @ r)" "\<forall>q. prefix t q \<longrightarrow> fs_get (sys_fs w3) q = None"
    "\<forall>q. \<not> prefix d q \<longrightarrow> \<not> prefix t q \<longrightarrow> fs_get (sys_fs w3) q = fs_get h q"
    using grab_directory [where raw = "abs_path s" and url = "abs_path s" and c = no_checksum and explicit = no_checksum and g = g
        and env = env and t = t and w = w and f = ?f and ?w2.0 = "with_fs w h" and n = "Dir 493" and d = d] tmp mk h(1-3) t_ne apart(2) disks(1)
    by (auto simp: with_fs_def)
  have "fs_get (sys_fs w3) q = fs_get ?o q" if "\<not> prefix d q" for q
    using w3(3,4) that h(5) below by (cases "prefix t q") (auto simp: prefix_def)
  moreover have "fs_get (sys_fs w3) (d @ r) = fs_get ?o (s @ r)" if "r \<noteq> []" for r using w3(2) h(4) that by simp
  moreover have "fs_get (sys_fs w3) d = Some (Dir 493)" using w3(2) [rule_format, of "[]"] h(3) by simp
  ultimately show ?thesis using w3(1) by blast
qed

text \<open>
  C1. Grabbing a local directory by its path reproduces it at a destination that does not exist
  yet, every directory, file and link with modes and contents, and leaves everything else as it
  was: the source, what surrounds the destination, and no trace of the temporary directory.
\<close>

theorem local_directory_grabbed:
  assumes "ordinary [] (rel_path s)" and "g_protocols g = all_protocols e" and "allowed_local_dirs (g_settings g) = []"
    and tmp: "path_join [temporary_directory (g_settings g), ''grabber'', gb_uuid env] = abs_path t"
    and ok: "fs_ok (sys_fs w)" and src: "fs_get (sys_fs w) s = Some (Dir m)"
    and t: "placed (sys_fs w) t" "fs_get (sys_fs w) t = None" and d: "placed (sys_fs w) d" "fs_get (sys_fs w) d = None"
    and apart: "\<not> prefix s t" "\<not> prefix t d"
    and disks: "\<And>q. gb_disk env q = None" "\<And>q. wd_disk e q = None"
    and depth: "length t + fs_depth (sys_fs w) < wd_depth e" "length t + fs_depth (sys_fs w) < gb_depth env"
  shows "\<exists>w3. grab_url env g (abs_path s) (abs_path d) w = Some (w3, None) \<and> fs_get (sys_fs w3) d = Some (Dir 493) \<and>
    (\<forall>r. r \<noteq> [] \<longrightarrow> fs_get (sys_fs w3) (d @ r) = fs_get (sys_fs w) (s @ r)) \<and>
    (\<forall>q. \<not> prefix d q \<longrightarrow> fs_get (sys_fs w3) q = fs_get (sys_fs w) q)"
  using local_directory_delivered [OF assms] unfolding grab_url_def .

section \<open>A concrete instance\<close>

definition demo_env_all :: "(unit, string, string, unit, nat, unit) protocol_env" where
  "demo_env_all =
     \<lparr>wd_git = demo_git_env, wd_hg = demo_hg, wd_s3 = demo_s3, wd_gcs = demo_gcs, wd_oci = demo_oras ''f'', wd_http = demo_http,
      wd_cwd = Inr ''/'', wd_depth = 9, wd_disk = (\<lambda>_. None)\<rparr>"

definition demo_host :: fs where
  "demo_host =
     \<lparr>fs_nodes = [([''data''], Dir 493), ([''data'', ''f''], Regular 384 ''x''), ([''data'', ''l''], Link ''f''), ([''o''], Dir 493),
        ([''tmp''], Dir 493), ([''tmp'', ''grabber''], Dir 493)], fs_cwd = []\<rparr>"

theorem url_routing_witness:
  "\<exists>d. detect_url (all_protocols demo_env_all) (unit_sys demo_host) ''https://example.com/a/f.zip'' = Inr d \<and>
     d = returning (http_download demo_http \<lparr>hd_url = ''https://example.com/a/f.zip'', hd_archive = []\<rparr>)"
proof -
  have "ordinary ''example.com'' ''a/f.zip''" by code_simp
  then show ?thesis using url_routing [of demo_env_all "unit_sys demo_host" "''a/f.zip''" "''example.com''"] by (simp add: demo_env_all_def)
qed

lemma demo_host_facts:
  fixes g :: "(transport, unit protocol) grabber" and f :: fs
  defines "g \<equiv> new_grabber ''/tmp'' (all_protocols demo_env_all) []" and "f \<equiv> sys_fs (unit_sys demo_host)"
  shows "ordinary [] (rel_path [''data''])" "g_protocols g = all_protocols demo_env_all" "allowed_local_dirs (g_settings g) = []"
    "path_join [temporary_directory (g_settings g), ''grabber'', gb_uuid demo_grab_env] = abs_path [''tmp'', ''grabber'', ''u'']"
    "fs_ok f" "fs_get f [''data''] = Some (Dir 493)" "placed f [''tmp'', ''grabber'', ''u'']" "fs_get f [''tmp'', ''grabber'', ''u''] = None"
    "placed f [''o'', ''d'']" "fs_get f [''o'', ''d''] = None" "\<not> prefix [''data''] [''tmp'', ''grabber'', ''u'']"
    "\<not> prefix [''tmp'', ''grabber'', ''u''] [''o'', ''d'']" "\<And>q. gb_disk demo_grab_env q = None" "\<And>q. wd_disk demo_env_all q = None"
    "length [''tmp'', ''grabber'', ''u''] + fs_depth f < wd_depth demo_env_all"
    "length [''tmp'', ''grabber'', ''u''] + fs_depth f < gb_depth demo_grab_env"
proof -
  have names: "plain_comps [''data'', ''f'', ''l'', ''o'', ''tmp'', ''grabber'', ''u'', ''d'']" by code_simp
  show "ordinary [] (rel_path [''data''])" by code_simp
  show "g_protocols g = all_protocols demo_env_all" "allowed_local_dirs (g_settings g) = []"
    "path_join [temporary_directory (g_settings g), ''grabber'', gb_uuid demo_grab_env] = abs_path [''tmp'', ''grabber'', ''u'']"
    using demo_steps(2) by (simp_all add: g_def new_grabber_def default_settings_def demo_grab_env_def)
  show ok: "fs_ok f" using names by (auto simp: f_def fs_ok_def demo_host_def fs_get_def plain_comps_def split: if_splits)
  show "fs_get f [''data''] = Some (Dir 493)" "fs_get f [''tmp'', ''grabber'', ''u''] = None" "fs_get f [''o'', ''d''] = None"
    by (simp_all add: f_def demo_host_def fs_get_def)
  show "placed f [''tmp'', ''grabber'', ''u'']" "placed f [''o'', ''d'']"
    using ok_placed [OF ok, of "[''tmp'', ''grabber'']" "Dir 493"] ok_placed [OF ok, of "[''o'']" "Dir 493"] names
      placed_snoc [of f "[''tmp'', ''grabber'']" "''u''"] placed_snoc [of f "[''o'']" "''d''"]
    by (simp_all add: f_def demo_host_def fs_get_def plain_comps_def)
  show "length [''tmp'', ''grabber'', ''u''] + fs_depth f < wd_depth demo_env_all"
    "length [''tmp'', ''grabber'', ''u''] + fs_depth f < gb_depth demo_grab_env"
    by (simp_all add: f_def demo_host_def fs_depth_def demo_env_all_def demo_grab_env_def)
qed (simp_all add: demo_grab_env_def demo_env_all_def)

theorem local_directory_grabbed_witness:
  "\<exists>w3. grab_url demo_grab_env (new_grabber ''/tmp'' (all_protocols demo_env_all) []) (abs_path [''data'']) (abs_path [''o'', ''d''])
      (unit_sys demo_host) = Some (w3, None) \<and>
    fs_get (sys_fs w3) [''o'', ''d'', ''f''] = Some (Regular 384 ''x'') \<and> fs_get (sys_fs w3) [''o'', ''d'', ''l''] = Some (Link ''f'') \<and>
    fs_get (sys_fs w3) [''data'', ''f''] = Some (Regular 384 ''x'') \<and> fs_get (sys_fs w3) [''tmp'', ''grabber'', ''u''] = None"
proof -
  let ?g = "new_grabber ''/tmp'' (all_protocols demo_env_all) []" and ?f = "sys_fs (unit_sys demo_host)"
  obtain w3 where w3: "grab_url demo_grab_env ?g (abs_path [''data'']) (abs_path [''o'', ''d'']) (unit_sys demo_host) = Some (w3, None)"
    "\<forall>r. r \<noteq> [] \<longrightarrow> fs_get (sys_fs w3) ([''o'', ''d''] @ r) = fs_get ?f ([''data''] @ r)"
    "\<forall>q. \<not> prefix [''o'', ''d''] q \<longrightarrow> fs_get (sys_fs w3) q = fs_get ?f q"
    using local_directory_grabbed [OF demo_host_facts] by blast
  have "fs_get (sys_fs w3) [''o'', ''d'', ''f''] = Some (Regular 384 ''x'')" "fs_get (sys_fs w3) [''o'', ''d'', ''l''] = Some (Link ''f'')"
    using w3(2) [rule_format, of "[''f'']"] w3(2) [rule_format, of "[''l'']"] by (simp_all add: demo_host_def fs_get_def)
  moreover have "fs_get (sys_fs w3) [''data'', ''f''] = Some (Regular 384 ''x'')" "fs_get (sys_fs w3) [''tmp'', ''grabber'', ''u''] = None"
    using w3(3) [rule_format, of "[''data'', ''f'']"] w3(3) [rule_format, of "[''tmp'', ''grabber'', ''u'']"]
    by (simp_all add: demo_host_def fs_get_def)
  ultimately show ?thesis using w3(1) by blast
qed

end
