(* ===== verification/Cli.thy ===== *)
theory Cli
  imports Grab Small_Internal
begin

text \<open>
  The command (\<^verbatim>\<open>cmd/grabber/main.go\<close>) on flags that are parsed already: the options they stand for,
  the run, and the exit status.
\<close>

section \<open>The run\<close>

record cli_flags =
  cf_version :: bool
  cf_checksum :: string
  cf_no_extract :: bool
  cf_git_depth :: int
  cf_git_ssh_key :: string
  cf_git_insecure :: bool
  cf_args :: "string list"

text \<open>\<open>key\<close> is the content of the key file, if one is named.\<close>

definition cli_options :: "cli_flags \<Rightarrow> string option \<Rightarrow> ('t, 'p) option_fn list" where
  "cli_options fl key =
     (if cf_no_extract fl then [with_auto_extract False] else []) @
     (if 0 < cf_git_depth fl then [with_git_depth (cf_git_depth fl)] else []) @
     (case key of None \<Rightarrow> [] | Some k \<Rightarrow> [with_git_ssh_key (Some k)]) @
     (if cf_git_insecure fl then [with_git_insecure_skip_host_key_verify] else [])"

definition cli_usage :: "string \<Rightarrow> string list" where
  "cli_usage flag_defaults =
     [''Usage: grabber [flags] <url> [dst]'', [], ''Download files and directories from various sources.'', [],
      ''Arguments:'', ''  url    Source URL (required)'', ''  dst    Destination path (default: current directory)'', [],
      ''Flags:'', flag_defaults]"

text \<open>The lines written to the standard output and to the standard error come before the error.\<close>

record 'n cli_result =
  cr_world :: "'n sys"
  cr_out :: "string list"
  cr_err :: "string list"
  cr_error :: "goerr option"

definition cli_run ::
    "grab_env \<Rightarrow> string \<Rightarrow> string \<Rightarrow> string \<Rightarrow> 'n protocol list \<Rightarrow> cli_flags \<Rightarrow> 'n sys \<Rightarrow> 'n cli_result option" where
  "cli_run env version_text flag_defaults tmp all fl w =
     (if cf_version fl then Some \<lparr>cr_world = w, cr_out = [version_text], cr_err = [], cr_error = None\<rparr>
      else case cf_args fl of
        [] \<Rightarrow> Some \<lparr>cr_world = w, cr_out = [], cr_err = cli_usage flag_defaults,
               cr_error = Some (errors_new ''missing required argument: url'')\<rparr>
      | url # rest \<Rightarrow>
          let dst = (case rest of [] \<Rightarrow> ''.'' | d # _ \<Rightarrow> d)
          in case (if cf_git_ssh_key fl = [] then Inr None
                   else bind_result (fs_read (sys_fs w) (cf_git_ssh_key fl)) (\<lambda>k. Inr (Some k))) of
               Inl e \<Rightarrow> Some \<lparr>cr_world = w, cr_out = [], cr_err = [], cr_error = Some (wrap_err ''reading SSH key: %w'' [] e)\<rparr>
             | Inr key \<Rightarrow>
                 let g = new_grabber tmp all (cli_options fl key)
                 in map_option
                      (\<lambda>(w1, e). \<lparr>cr_world = w1, cr_out = [],
                         cr_err = [''Downloading '' @ url @ '' -> '' @ dst] @ (if e = None then [''Done.''] else []), cr_error = e\<rparr>)
                      (if cf_checksum fl \<noteq> [] then grab_with_sha256_checksum env g url dst (cf_checksum fl) w
                       else grab_url env g url dst w))"

text \<open>\<^verbatim>\<open>main\<close>: the exit status.\<close>

definition cli_exit :: "'n cli_result \<Rightarrow> int" where
  "cli_exit r = (if cr_error r = None then 0 else 1)"

section \<open>Properties\<close>

text \<open>
  Whatever the flags, the command runs with the default settings but for extraction and the three
  Git settings its flags are for: in particular the SSRF guard and the download limit are the
  defaults, and a depth that is not positive is none.
\<close>

theorem cli_settings:
  "g_settings (new_grabber tmp all (cli_options fl key)) =
     (default_settings tmp)\<lparr>enable_auto_extract := \<not> cf_no_extract fl,
       git := (git (default_settings tmp))\<lparr>git_depth := (if 0 < cf_git_depth fl then cf_git_depth fl else 0),
         ssh_keys := (case key of None \<Rightarrow> [] | Some k \<Rightarrow> [\<lparr>ssh_host = [], ssh_key = Some k\<rparr>]),
         insecure_skip_host_key_verify := cf_git_insecure fl\<rparr>\<rparr>"
  by (cases key) (simp_all add: new_grabber_def cli_options_def with_auto_extract_def with_git_depth_def with_git_ssh_key_def
      with_git_insecure_skip_host_key_verify_def update_settings_def default_settings_def)

text \<open>
  C32. The command succeeds only by printing the version or by a grab that succeeded, with the checksum
  of the flag if there is one; without a URL nothing happens.
\<close>

theorem cli_success:
  assumes "cli_run env version_text flag_defaults tmp all fl w = Some r" and "cli_exit r = 0" and "\<not> cf_version fl"
  shows "\<exists>url rest key. cf_args fl = url # rest \<and>
    (let g = new_grabber tmp all (cli_options fl key); dst = (if rest = [] then ''.'' else hd rest)
     in (if cf_checksum fl = [] then grab_url env g url dst w
         else grab_with_sha256_checksum env g url dst (cf_checksum fl) w) = Some (cr_world r, None)) \<and>
    (key = None \<longleftrightarrow> cf_git_ssh_key fl = []) \<and> (\<forall>k. key = Some k \<longrightarrow> fs_read (sys_fs w) (cf_git_ssh_key fl) = Inr k)"
proof -
  have e: "cr_error r = None" using assms(2) by (simp add: cli_exit_def split: if_splits)
  obtain url rest where args: "cf_args fl = url # rest"
    using assms(1,3) e by (cases "cf_args fl") (auto simp: cli_run_def)
  let ?dst = "if rest = [] then ''.'' else hd rest"
  have dst: "(case rest of [] \<Rightarrow> ''.'' | d # _ \<Rightarrow> d) = ?dst" by (cases rest) auto
  obtain key where key: "(if cf_git_ssh_key fl = [] then Inr None
      else bind_result (fs_read (sys_fs w) (cf_git_ssh_key fl)) (\<lambda>k. Inr (Some k))) = Inr key"
    using assms(1,3) e args by (auto simp: cli_run_def Let_def split: sum.splits)
  let ?g = "new_grabber tmp all (cli_options fl key)"
  let ?run = "if cf_checksum fl \<noteq> [] then grab_with_sha256_checksum env ?g url ?dst (cf_checksum fl) w else grab_url env ?g url ?dst w"
  obtain w1 e1 where run: "?run = Some (w1, e1)" "cr_world r = w1" "e1 = None"
    using assms(1,3) e unfolding cli_run_def args list.case Let_def dst key by (auto split: if_splits)
  have "(key = None \<longleftrightarrow> cf_git_ssh_key fl = []) \<and> (\<forall>k. key = Some k \<longrightarrow> fs_read (sys_fs w) (cf_git_ssh_key fl) = Inr k)"
    using key by (auto simp: bind_result_Inr_iff split: if_splits)
  then show ?thesis using args run by (intro exI [of _ url] exI [of _ rest] exI [of _ key]) (auto simp: Let_def split: if_splits)
qed

section \<open>A concrete instance\<close>

definition demo_flags :: cli_flags where
  "demo_flags =
     \<lparr>cf_version = False, cf_checksum = [], cf_no_extract = True, cf_git_depth = 0, cf_git_ssh_key = [], cf_git_insecure = False,
      cf_args = [''demo://f'', ''/o/d'']\<rparr>"

theorem cli_success_witness:
  "\<exists>r. cli_run demo_grab_env [] [] ''/tmp'' [demo_protocol ''demo'' 1 False] demo_flags (unit_sys demo_before) = Some r \<and>
     cli_exit r = 0 \<and> cr_err r = [''Downloading demo://f -> /o/d'', ''Done.''] \<and>
     grab_url demo_grab_env (demo_grabber False) ''demo://f'' ''/o/d'' (unit_sys demo_before) = Some (cr_world r, None)"
proof -
  let ?all = "[demo_protocol ''demo'' 1 False]"
  have g: "new_grabber ''/tmp'' ?all (cli_options demo_flags None) = demo_grabber False"
    by (simp add: new_grabber_def cli_options_def demo_flags_def with_auto_extract_def update_settings_def demo_grabber_def)
  have "abs_path [''o'', ''d''] = ''/o/d''" by code_simp
  then obtain w3 where w3: "grab_url demo_grab_env (demo_grabber False) ''demo://f'' ''/o/d'' (unit_sys demo_before) = Some (w3, None)"
    using grab_directory_witness by (auto simp: grab_url_def)
  have "cli_run demo_grab_env [] [] ''/tmp'' ?all demo_flags (unit_sys demo_before) =
      Some \<lparr>cr_world = w3, cr_out = [], cr_err = [''Downloading demo://f -> /o/d'', ''Done.''], cr_error = None\<rparr>"
    using w3 g by (simp add: cli_run_def demo_flags_def)
  then obtain r where r: "cli_run demo_grab_env [] [] ''/tmp'' ?all demo_flags (unit_sys demo_before) = Some r" "cli_exit r = 0"
    "cr_err r = [''Downloading demo://f -> /o/d'', ''Done.'']" by (simp add: cli_exit_def)
  have "\<not> cf_version demo_flags" by (simp add: demo_flags_def)
  from cli_success [OF r(1,2) this] obtain key where
    "grab_url demo_grab_env (new_grabber ''/tmp'' ?all (cli_options demo_flags key)) ''demo://f'' ''/o/d'' (unit_sys demo_before) =
       Some (cr_world r, None)" "key = None"
    by (auto simp: demo_flags_def Let_def)
  then show ?thesis using r g by auto
qed

end
