(* ===== verification/Tree_Invariant.thy ===== *)
theory Tree_Invariant
  imports Composition Cli
begin

text \<open>
  What every operation on files keeps, every part of the program keeps.  The locale names the nine
  operations of the \<^verbatim>\<open>os\<close> package that change the file system; its lemmas follow the program
  upwards, from the copy of a tree to the whole command.  It is interpreted twice: the file system
  stays a tree, and the working directory stays where it is.
\<close>

section \<open>The interface\<close>

text \<open>A state transition that keeps a property of the file system.\<close>

definition preserves :: "(fs \<Rightarrow> bool) \<Rightarrow> ('n sys \<Rightarrow> 'n sys \<times> 'a) \<Rightarrow> bool" where
  "preserves I op \<longleftrightarrow> (\<forall>w. I (sys_fs w) \<longrightarrow> I (sys_fs (fst (op w))))"

text \<open>
  What the program starts or links and does not contain: go-git, \<^verbatim>\<open>hg\<close>, \<^verbatim>\<open>oras\<close>, the credential
  helper and the request for an archive.  They may do to the files what they like, as long as it
  keeps the property.
\<close>

definition go_git_preserves :: "(fs \<Rightarrow> bool) \<Rightarrow> ('n, 'g, 'r) go_git \<Rightarrow> bool" where
  "go_git_preserves I gg \<longleftrightarrow>
     (\<forall>dir opts. preserves I (\<lambda>w. gg_plain_clone gg w dir opts)) \<and>
     (\<forall>dir. preserves I (\<lambda>w. gg_plain_init gg w dir)) \<and>
     (\<forall>r url. preserves I (\<lambda>w. gg_create_remote gg w r url)) \<and>
     (\<forall>r h force. preserves I (\<lambda>w. gg_checkout gg w r h force)) \<and>
     (\<forall>r opts depth. preserves I (\<lambda>w. gg_update_submodules gg w r opts depth)) \<and>
     (\<forall>url opts. preserves I (\<lambda>w. gg_handshake gg w url opts)) \<and>
     (\<forall>r wants flt depth. preserves I (\<lambda>w. gg_fetch gg w r wants flt depth)) \<and>
     (\<forall>dir pat. preserves I (\<lambda>w. gg_mkdir_temp gg w dir pat))"

definition git_preserves :: "(fs \<Rightarrow> bool) \<Rightarrow> ('n, 'g, 'r) git_env \<Rightarrow> bool" where
  "git_preserves I env \<longleftrightarrow>
     go_git_preserves I (ge_git env) \<and>
     (\<forall>bin args input envs. preserves I (\<lambda>w. run_command (ar_auth (ge_archive env)) w bin args input envs)) \<and>
     (\<forall>rt url authz. preserves I (\<lambda>w. ar_http (ge_archive env) w rt url authz))"

definition outside_preserves :: "(fs \<Rightarrow> bool) \<Rightarrow> ('n, 'g, 'r, 'c, 'p, 'v) protocol_env \<Rightarrow> bool" where
  "outside_preserves I e \<longleftrightarrow>
     git_preserves I (wd_git e) \<and>
     (\<forall>args envs. preserves I (\<lambda>w. hv_run (wd_hg e) w args envs)) \<and>
     (\<forall>dir. preserves I (\<lambda>w. ov_store (wd_oci e) w dir)) \<and>
     (\<forall>c plain ref dir. preserves I (\<lambda>w. ov_copy (wd_oci e) w c plain ref dir))"

text \<open>Every download that a protocol detects keeps it.\<close>

definition protocol_preserves :: "(fs \<Rightarrow> bool) \<Rightarrow> 'n protocol \<Rightarrow> bool" where
  "protocol_preserves I p \<longleftrightarrow>
     (\<forall>v raw d s tmp w w' r.
        (pr_detect p v raw = Some d \<or> forced_detect p v raw = Some d) \<longrightarrow> d s tmp w = Some (w', r) \<longrightarrow> I (sys_fs w) \<longrightarrow> I (sys_fs w'))"

locale fs_invariant =
  fixes I :: "fs \<Rightarrow> bool"
  assumes mkdir: "I f \<Longrightarrow> I (fst (fs_mkdir f s m))"
    and create: "I f \<Longrightarrow> I (fst (open_create f s m))"
    and fill: "I f \<Longrightarrow> I (fs_write f p d)"
    and remove: "I f \<Longrightarrow> I (fst (fs_remove f s))"
    and remove_all: "I f \<Longrightarrow> I (fst (fs_remove_all f s))"
    and symlink: "I f \<Longrightarrow> I (fst (fs_symlink f t s))"
    and rename: "I f \<Longrightarrow> I (fst (fs_rename f cross s d))"
begin

text \<open>The laws as destruction rules, for goals in which a call has been split.\<close>

lemma mkdirD: "fs_mkdir f s m = (g, e) \<Longrightarrow> I f \<Longrightarrow> I g" using mkdir [of f s m] by simp
lemma createD: "open_create f s m = (g, r) \<Longrightarrow> I f \<Longrightarrow> I g" using create [of f s m] by simp
lemma removeD: "fs_remove f s = (g, e) \<Longrightarrow> I f \<Longrightarrow> I g" using remove [of f s] by simp
lemma remove_allD: "fs_remove_all f s = (g, e) \<Longrightarrow> I f \<Longrightarrow> I g" using remove_all [of f s] by simp
lemma symlinkD: "fs_symlink f t s = (g, e) \<Longrightarrow> I f \<Longrightarrow> I g" using symlink [of f t s] by simp
lemma renameD: "fs_rename f cross s d = (g, e) \<Longrightarrow> I f \<Longrightarrow> I g" using rename [of f cross s d] by simp

lemma mkdir_all_keeps: "I f \<Longrightarrow> I (fst (mkdir_all f s m))"
  by (rule mkdir_all_preserves [of I, OF mkdir])

lemma mkdir_allD: "mkdir_all f s m = (g, e) \<Longrightarrow> I f \<Longrightarrow> I g" using mkdir_all_keeps [of f s m] by simp

lemmas op_rules = mkdirD createD removeD remove_allD symlinkD renameD mkdir_allD

text \<open>Copies.\<close>

lemma copy_symlink_keeps: "copy_symlink f s d = (g, e) \<Longrightarrow> I f \<Longrightarrow> I g"
  by (auto simp: copy_symlink_def split: sum.splits prod.splits option.splits if_splits dest!: op_rules)

lemma copy_opened_keeps: "copy_opened disk f p d m = (g, e) \<Longrightarrow> I f \<Longrightarrow> I g"
  by (auto simp: copy_opened_def split: sum.splits prod.splits option.splits dest!: op_rules intro!: fill)

lemma copy_file_keeps: "copy_file disk f s d m = (g, e) \<Longrightarrow> I f \<Longrightarrow> I g"
  by (auto simp: copy_file_def split: sum.splits dest!: copy_opened_keeps)

lemma copy_local_file_keeps: "copy_local_file disk f s d = (g, e) \<Longrightarrow> I f \<Longrightarrow> I g"
  by (auto simp: copy_local_file_def split: sum.splits dest!: copy_opened_keeps)

lemma copy_entry_keeps:
  assumes "\<And>f s d m g e. cp f s d m = (g, e) \<Longrightarrow> I f \<Longrightarrow> I g"
  shows "I f \<Longrightarrow> I (fst (copy_entry cp src dst f path info err))"
  by (auto simp: copy_entry_def mkdir_all_keeps split: option.splits sum.splits fnode.splits)
    (metis assms copy_symlink_keeps prod.collapse)+

lemma walk_names_keeps:
  assumes fn: "\<And>f path info err. I f \<Longrightarrow> I (fst (fn f path info err))"
    and node: "\<And>f path n r. I f \<Longrightarrow> walk_node k fn f path n = Some r \<Longrightarrow> I (fst r)"
  shows "I f \<Longrightarrow> walk_names k fn f path cs = Some r \<Longrightarrow> I (fst r)"
proof (induction cs arbitrary: f)
  case (Cons c cs)
  let ?one = "case fs_lstat f (path_join [path, c]) of Inl err \<Rightarrow> Some (fn f (path_join [path, c]) None (Some err))
    | Inr n \<Rightarrow> walk_node k fn f (path_join [path, c]) n"
  have one: "I (fst r')" if "?one = Some r'" for r'
    using that fn [OF Cons.prems(1)] node [OF Cons.prems(1)] by (cases "fs_lstat f (path_join [path, c])") auto
  obtain g e where g: "?one = Some (g, e)" using Cons.prems(2) by (cases ?one) auto
  show ?case using one [OF g] Cons.prems(2) Cons.IH [of g] g by (cases e) auto
qed auto

lemma walk_node_keeps:
  assumes fn: "\<And>f path info err. I f \<Longrightarrow> I (fst (fn f path info err))"
  shows "I f \<Longrightarrow> walk_node k fn f path n = Some r \<Longrightarrow> I (fst r)"
proof (induction k arbitrary: f path n r)
  case 0
  then show ?case using fn by (auto split: if_splits)
next
  case (Suc k)
  show ?case
  proof (cases "\<not> is_dir n \<or> (\<exists>err. read_dir f path = Inl err)")
    case True
    then show ?thesis using Suc.prems fn [OF Suc.prems(1)] by (auto split: if_splits)
  next
    case False
    then obtain names where names: "read_dir f path = Inr names" by (cases "read_dir f path") auto
    obtain g e where g: "fn f path (Some n) None = (g, e)" by fastforce
    have keep: "I g" using fn [OF Suc.prems(1), of path "Some n" None] g by simp
    have "walk_node (Suc k) fn f path n = (case e of Some err \<Rightarrow> Some (g, Some err) | None \<Rightarrow> walk_names k fn g path names)"
      using False names g by simp
    moreover have "walk_names k fn g path names = Some r \<Longrightarrow> I (fst r)"
      by (rule walk_names_keeps [where fn = fn, OF fn Suc.IH keep])
    ultimately show ?thesis using keep Suc.prems(2) by (cases e) auto
  qed
qed

lemma file_walk_keeps:
  assumes fn: "\<And>f path info err. I f \<Longrightarrow> I (fst (fn f path info err))"
  shows "I f \<Longrightarrow> file_walk k fn f root = Some r \<Longrightarrow> I (fst r)"
  using fn walk_node_keeps [where fn = fn, OF fn] by (cases "fs_lstat f root") (auto simp: file_walk_def)

lemma copy_dir_keeps: "I f \<Longrightarrow> copy_dir k disk f s d = Some r \<Longrightarrow> I (fst r)"
  unfolding copy_dir_def by (rule file_walk_keeps [OF copy_entry_keeps [OF copy_file_keeps]])

lemma copy_local_dir_keeps: "I f \<Longrightarrow> copy_local_dir k disk f s d = Some r \<Longrightarrow> I (fst r)"
  unfolding copy_local_dir_def by (rule file_walk_keeps [OF copy_entry_keeps [OF copy_local_file_keeps]])

text \<open>Extraction.\<close>

lemma extract_write_file_keeps: "extract_write_file disk e f p r m = (e', g, x) \<Longrightarrow> I f \<Longrightarrow> I g"
  by (auto simp: extract_write_file_def split: prod.splits sum.splits if_splits option.splits dest!: createD intro!: fill)

lemma mkdir_step_keeps: "mkdir_step e f p m = (e', g, x) \<Longrightarrow> I f \<Longrightarrow> I g"
  by (auto simp: mkdir_step_def split: prod.splits dest!: mkdir_allD)

lemma and_then_keeps:
  assumes "and_then r k = (e', h, x)" and "I (fst (snd r))" and "\<And>e f e' g x. k e f = (e', g, x) \<Longrightarrow> I f \<Longrightarrow> I g"
  shows "I h"
  using assms by (cases r) (auto simp: and_then_def split: option.splits)

lemma untar_entry_keeps: "untar_entry disk e f dst h = (e', g, x) \<Longrightarrow> I f \<Longrightarrow> I g"
  by (auto simp: untar_entry_def split: sum.splits tar_type.splits dest: mkdir_step_keeps
      elim!: and_then_keeps intro: extract_write_file_keeps) (metis mkdir_step_keeps prod.collapse)+

lemma untar_entries_keeps: "untar_entries disk e f dst hs fin = (e', g, x) \<Longrightarrow> I f \<Longrightarrow> I g"
proof (induction hs arbitrary: e f e' g x)
  case (Cons h hs)
  have "I (fst (snd (untar_entry disk e f dst h)))"
    using untar_entry_keeps [of disk e f dst h] Cons.prems(2) by (cases "untar_entry disk e f dst h") auto
  then show ?case using Cons.prems(1) and_then_keeps [OF _ _ Cons.IH] by simp
qed simp

lemma zip_step_keeps: "zip_step disk e f dst z = (e', g, x) \<Longrightarrow> I f \<Longrightarrow> I g"
  by (auto simp: zip_step_def split: sum.splits if_splits dest: mkdir_step_keeps
      elim!: and_then_keeps intro: extract_write_file_keeps) (metis mkdir_step_keeps prod.collapse)+

lemma zip_entries_keeps: "zip_entries disk e f dst zs = (e', g, x) \<Longrightarrow> I f \<Longrightarrow> I g"
proof (induction zs arbitrary: e f e' g x)
  case (Cons z zs)
  have "I (fst (snd (zip_step disk e f dst z)))"
    using zip_step_keeps [of disk e f dst z] Cons.prems(2) by (cases "zip_step disk e f dst z") auto
  then show ?case using Cons.prems(1) and_then_keeps [OF _ _ Cons.IH] by simp
qed simp

lemma extractors_keep:
  assumes "map_of (extractors cd disk) ext = Some fn" and "fn e f src dst = (e', g, x)" and "I f"
  shows "I g"
proof -
  note defs = extract_tar_def extract_tar_gzip_def extract_tar_bzip2_def extract_tar_xz_def extract_tar_zstd_def
    extract_tar_lz4_def extract_zip_def extract_gzip_def extract_bzip2_def extract_xz_def extract_zstd_def extract_lz4_def untar_def
  have "(ext, fn) \<in> set (extractors cd disk)" using assms(1) by (rule map_of_SomeD)
  then show ?thesis using assms(2,3)
    by (auto simp: extractors_def defs split: sum.splits prod.splits
        dest: untar_entries_keeps zip_entries_keeps extract_write_file_keeps)
qed

lemma extract_keeps: "extract_with_limit cd disk f src dst limit = (g, b, x) \<Longrightarrow> I f \<Longrightarrow> I g"
  by (auto simp: extract_with_limit_def split: option.splits prod.splits dest: extractors_keep)

text \<open>Streams and the files of a repository.\<close>

lemma save_stream_keeps: "save_stream disk c d f dst r limit = (g, e) \<Longrightarrow> I f \<Longrightarrow> I g"
  by (auto simp: save_stream_def split: prod.splits sum.splits dest!: createD intro!: fill)

lemma save_object_keeps: "save_object disk d f dst r limit = (g, e) \<Longrightarrow> I f \<Longrightarrow> I g"
  by (auto simp: save_object_def split: prod.splits option.splits dest!: mkdir_allD save_stream_keeps)

lemma write_blob_keeps: "write_blob os_mode blob disk f e dst = (g, x) \<Longrightarrow> I f \<Longrightarrow> I g"
  by (auto simp: write_blob_def split: sum.splits option.splits prod.splits if_splits dest!: removeD symlinkD createD intro!: fill)

lemma materialise_keeps: "materialise os_mode blob disk f es root = (g, x) \<Longrightarrow> I f \<Longrightarrow> I g"
  by (induction es arbitrary: f)
    (auto split: sum.splits option.splits prod.splits if_splits dest!: mkdir_allD write_blob_keeps)

lemma write_archive_file_keeps: "write_archive_file disk f path r m limited n = (g, k, e) \<Longrightarrow> I f \<Longrightarrow> I g"
  by (auto simp: write_archive_file_def split: prod.splits option.splits sum.splits if_splits dest!: mkdir_allD createD intro!: fill)

lemma archive_step_keeps: "archive_step disk dst subdir limit st h = (st', e) \<Longrightarrow> I (as_fs st) \<Longrightarrow> I (as_fs st')"
  by (auto simp: archive_step_def Let_def split: prod.splits option.splits if_splits dest!: mkdir_allD write_archive_file_keeps)

lemma archive_loop_keeps: "archive_loop disk dst subdir limit st hs fin = (st', e) \<Longrightarrow> I (as_fs st) \<Longrightarrow> I (as_fs st')"
  by (induction hs arbitrary: st) (auto split: prod.splits option.splits dest!: archive_step_keeps)

lemma extract_archive_keeps: "extract_archive cd disk f r dst subdir limit = (g, e) \<Longrightarrow> I f \<Longrightarrow> I g"
  by (auto simp: extract_archive_def split: prod.splits option.splits if_splits dest!: archive_loop_keeps)

text \<open>What single protocols and the delivery do.\<close>

lemma move_entries_keeps: "move_entries cross src tmp f cs = (g, e) \<Longrightarrow> I f \<Longrightarrow> I g"
  by (induction cs arbitrary: f) (auto split: prod.splits option.splits dest!: renameD)

lemma promote_subdir_keeps: "promote_subdir cross d tmp f = (g, e) \<Longrightarrow> I f \<Longrightarrow> I g"
  by (auto simp: promote_subdir_def Let_def split: if_splits sum.splits prod.splits option.splits dest!: move_entries_keeps intro!: remove_all)

lemma cleanup_keeps: "I f \<Longrightarrow> I (cleanup_oras_metadata f dir)"
  by (simp add: cleanup_oras_metadata_def oci_metadata_def Let_def remove)

lemma auto_extract_keeps: "auto_extract env limit f tmp = (g, e) \<Longrightarrow> I f \<Longrightarrow> I g"
  by (auto simp: auto_extract_def split: sum.splits prod.splits option.splits bool.splits dest!: extract_keeps removeD)

lemma deliver_keeps: "deliver env f tmp dst = Some (g, e) \<Longrightarrow> I f \<Longrightarrow> I g"
  by (auto simp: deliver_def split: sum.splits prod.splits option.splits if_splits dest!: renameD dest: copy_dir_keeps)

lemma finish_grab_keeps: "finish_grab env s c tmp dst is_file f = Some (g, e) \<Longrightarrow> I f \<Longrightarrow> I g"
  by (auto simp: finish_grab_def split: option.splits prod.splits sum.splits if_splits dest: auto_extract_keeps deliver_keeps)

lemma file_download_keeps: "file_download wd k disk d s tmp f = Some (g, r) \<Longrightarrow> I f \<Longrightarrow> I g"
  by (auto simp: file_download_def split: option.splits sum.splits if_splits prod.splits dest: copy_local_file_keeps copy_local_dir_keeps)

text \<open>The system state around the files.\<close>

lemma preservesD: "preserves I op \<Longrightarrow> op w = (w', r) \<Longrightarrow> I (sys_fs w) \<Longrightarrow> I (sys_fs w')"
  by (metis fst_conv preserves_def)

lemma sys_remove_all_keeps: "sys_remove_all w dir = (w', e) \<Longrightarrow> I (sys_fs w) \<Longrightarrow> I (sys_fs w')"
  by (auto simp: sys_remove_all_def split: prod.splits dest!: remove_allD)

lemma sys_mkdir_all_keeps: "sys_mkdir_all w dir m = (w', e) \<Longrightarrow> I (sys_fs w) \<Longrightarrow> I (sys_fs w')"
  by (auto simp: sys_mkdir_all_def split: prod.splits dest!: mkdir_allD)

lemma reset_dir_keeps: "reset_dir w dir = (w', e) \<Longrightarrow> I (sys_fs w) \<Longrightarrow> I (sys_fs w')"
  by (auto simp: reset_dir_def split: prod.splits option.splits dest!: sys_remove_all_keeps sys_mkdir_all_keeps)

lemma clone_loop_keeps:
  assumes pc: "\<And>dir opts. preserves I (\<lambda>w. pc w dir opts)"
  shows "clone_loop pc w dir opts as err = (w', r) \<Longrightarrow> I (sys_fs w) \<Longrightarrow> I (sys_fs w')"
proof (induction as arbitrary: w err)
  case (Cons a as)
  obtain w0 x where w0: "sys_remove_all w dir = (w0, x)" by fastforce
  obtain w1 r1 where w1: "pc w0 dir (opts\<lparr>co_ref := ca_ref a, co_single := ca_single a\<rparr>) = (w1, r1)" by fastforce
  have "I (sys_fs w1)" using preservesD [OF pc w1 sys_remove_all_keeps [OF w0 Cons.prems(2)]] .
  then show ?case using Cons.IH Cons.prems(1) w0 w1 by (cases r1) (auto split: if_splits)
qed simp

lemma clone_by_attempts_keeps:
  assumes pc: "\<And>dir opts. preserves I (\<lambda>w. pc w dir opts)"
  shows "clone_by_attempts pc w dir opts as ref = (w', r) \<Longrightarrow> I (sys_fs w) \<Longrightarrow> I (sys_fs w')"
  using clone_loop_keeps [where pc = pc, OF pc]
  by (auto simp: clone_by_attempts_def split: prod.splits option.splits sum.splits if_splits)

end

section \<open>Through Git\<close>

lemmas step_defs = and_try_def checked_def wrapped_def as_error_def Let_def

context fs_invariant
begin

lemma go_gitD:
  assumes "go_git_preserves I gg"
  shows "gg_plain_init gg w dir = (w', x1) \<Longrightarrow> I (sys_fs w) \<Longrightarrow> I (sys_fs w')"
    and "gg_create_remote gg w r url = (w', x2) \<Longrightarrow> I (sys_fs w) \<Longrightarrow> I (sys_fs w')"
    and "gg_checkout gg w r h force = (w', x3) \<Longrightarrow> I (sys_fs w) \<Longrightarrow> I (sys_fs w')"
    and "gg_update_submodules gg w r opts depth = (w', x4) \<Longrightarrow> I (sys_fs w) \<Longrightarrow> I (sys_fs w')"
    and "gg_handshake gg w url opts = (w', x5) \<Longrightarrow> I (sys_fs w) \<Longrightarrow> I (sys_fs w')"
    and "gg_fetch gg w r wants flt depth = (w', x6) \<Longrightarrow> I (sys_fs w) \<Longrightarrow> I (sys_fs w')"
    and "gg_mkdir_temp gg w dir pat = (w', x7) \<Longrightarrow> I (sys_fs w) \<Longrightarrow> I (sys_fs w')"
    and "clone_by_attempts (gg_plain_clone gg) w dir copts as ref = (w', x8) \<Longrightarrow> I (sys_fs w) \<Longrightarrow> I (sys_fs w')"
  using assms clone_by_attempts_keeps [of "gg_plain_clone gg" w dir copts as ref w' x8]
  by (auto simp: go_git_preserves_def preserves_def) (metis fst_conv)+

lemma fetch_objects_keeps:
  assumes gg: "go_git_preserves I gg"
  shows "fetch_objects gg url opts repo w wants flt depth = (w', r) \<Longrightarrow> I (sys_fs w) \<Longrightarrow> I (sys_fs w')"
  by (auto simp: fetch_objects_def split: option.splits sum.splits prod.splits if_splits dest!: go_gitD [OF gg])

lemma fetch_commit_keeps:
  assumes gg: "go_git_preserves I gg"
  shows "fetch_commit_by_hash gg url opts repo w hash flt depth = (w', r) \<Longrightarrow> I (sys_fs w) \<Longrightarrow> I (sys_fs w')"
  by (auto simp: fetch_commit_by_hash_def split: option.splits prod.splits if_splits dest!: fetch_objects_keeps [OF gg])

lemma pinned_commit_clone_keeps:
  assumes gg: "go_git_preserves I gg"
  shows "pinned_commit_clone gg s d w dir opts = (w', r) \<Longrightarrow> I (sys_fs w) \<Longrightarrow> I (sys_fs w')"
  by (auto simp: pinned_commit_clone_def step_defs split: option.splits sum.splits prod.splits
      dest!: go_gitD [OF gg] fetch_commit_keeps [OF gg])

lemma with_trees_keeps:
  assumes gg: "go_git_preserves I gg"
  shows "with_trees gg d opts repo w hash = (w', r) \<Longrightarrow> I (sys_fs w) \<Longrightarrow> I (sys_fs w')"
  by (auto simp: with_trees_def ensure_commit_trees_def step_defs split: option.splits sum.splits prod.splits if_splits
      dest!: fetch_commit_keeps [OF gg])

lemma sparse_commit_keeps:
  assumes gg: "go_git_preserves I gg"
  shows "sparse_commit gg d opts repo w = (w', r) \<Longrightarrow> I (sys_fs w) \<Longrightarrow> I (sys_fs w')"
  by (auto simp: sparse_commit_def resolve_pinned_commit_def step_defs split: option.splits sum.splits prod.splits if_splits
      dest!: with_trees_keeps [OF gg] fetch_objects_keeps [OF gg])

lemma sparse_clone_keeps:
  assumes gg: "go_git_preserves I gg"
  shows "sparse_clone gg s d w dir opts = (w', r) \<Longrightarrow> I (sys_fs w) \<Longrightarrow> I (sys_fs w')"
  by (auto simp: sparse_clone_def split: sum.splits prod.splits dest!: go_gitD(8) [OF gg])

lemma fetch_blobs_keeps:
  assumes gg: "go_git_preserves I gg"
  shows "fetch_blobs (fetch_objects gg url opts repo) have w es = (w', r) \<Longrightarrow> I (sys_fs w) \<Longrightarrow> I (sys_fs w')"
  by (auto simp: fetch_blobs_def Let_def split: if_splits dest!: fetch_objects_keeps [OF gg])

lemma sys_materialise_keeps: "sys_materialise gg repo w es dest = (w', r) \<Longrightarrow> I (sys_fs w) \<Longrightarrow> I (sys_fs w')"
  by (auto simp: sys_materialise_def step_defs split: prod.splits option.splits dest!: materialise_keeps)

lemma sparse_steps_keeps:
  assumes gg: "go_git_preserves I gg"
  shows "sparse_steps gg s d opts scratch tmp w = (w', r) \<Longrightarrow> I (sys_fs w) \<Longrightarrow> I (sys_fs w')"
  by (auto simp: sparse_steps_def step_defs split: option.splits sum.splits prod.splits if_splits
      dest!: sparse_clone_keeps [OF gg] sparse_commit_keeps [OF gg] fetch_blobs_keeps [OF gg] sys_materialise_keeps)

lemma sparse_download_keeps:
  assumes gg: "go_git_preserves I gg"
  shows "sparse_download gg s d w tmp opts = (w', r) \<Longrightarrow> I (sys_fs w) \<Longrightarrow> I (sys_fs w')"
proof -
  assume r: "sparse_download gg s d w tmp opts = (w', r)" and w: "I (sys_fs w)"
  obtain w1 x where w1: "gg_mkdir_temp gg w (temporary_directory s) ''grabber-sparse-'' = (w1, x)" by fastforce
  have k1: "I (sys_fs w1)" using go_gitD(7) [OF gg w1 w] .
  show "I (sys_fs w')"
  proof (cases x)
    case (Inr scratch)
    obtain w2 y where w2: "sparse_steps gg s d opts scratch tmp w1 = (w2, y)" by fastforce
    obtain w3 z where w3: "sys_remove_all w2 scratch = (w3, z)" by fastforce
    have "I (sys_fs w3)" using sys_remove_all_keeps [OF w3 sparse_steps_keeps [OF gg w2 k1]] .
    then show ?thesis using r w1 Inr w2 w3 by (auto simp: sparse_download_def as_error_def split: sum.splits)
  qed (use r w1 k1 in \<open>simp add: sparse_download_def\<close>)
qed

lemma obtain_repo_keeps:
  assumes gg: "go_git_preserves I gg"
  shows "obtain_repo gg s d w dir opts = (w', r) \<Longrightarrow> I (sys_fs w) \<Longrightarrow> I (sys_fs w')"
  by (auto simp: obtain_repo_def clone_named_def step_defs split: option.splits sum.splits prod.splits if_splits
      dest!: pinned_commit_clone_keeps [OF gg] go_gitD(8) [OF gg] reset_dir_keeps)

lemma checkout_ref_keeps:
  assumes gg: "go_git_preserves I gg"
  shows "checkout_ref gg s d opts pinned repo w = (w', r) \<Longrightarrow> I (sys_fs w) \<Longrightarrow> I (sys_fs w')"
  by (auto simp: checkout_ref_def update_submodules_def step_defs split: option.splits sum.splits prod.splits if_splits
      dest!: go_gitD(3,4) [OF gg])

lemma finish_clone_keeps: "finish_clone d tmp w = (w', r) \<Longrightarrow> I (sys_fs w) \<Longrightarrow> I (sys_fs w')"
  using sys_remove_all_keeps [of w "path_join [tmp, ''.git'']"]
  by (auto simp: finish_clone_def Let_def split: sum.splits if_splits) (metis prod.collapse)+

lemma full_clone_keeps:
  assumes gg: "go_git_preserves I gg"
  shows "full_clone gg s d w tmp opts = (w', r) \<Longrightarrow> I (sys_fs w) \<Longrightarrow> I (sys_fs w')"
  by (auto simp: full_clone_def step_defs split: option.splits sum.splits prod.splits
      dest!: obtain_repo_keeps [OF gg] checkout_ref_keeps [OF gg] finish_clone_keeps)

lemma clone_and_prepare_keeps:
  assumes gg: "go_git_preserves I gg"
  shows "clone_and_prepare gg s d tmp w opts = (w', r) \<Longrightarrow> I (sys_fs w) \<Longrightarrow> I (sys_fs w')"
  by (auto simp: clone_and_prepare_def split: option.splits prod.splits if_splits
      dest!: full_clone_keeps [OF gg] sparse_download_keeps [OF gg] reset_dir_keeps)

text \<open>Credentials and candidates.\<close>

lemma credential_fill_keeps:
  assumes "\<And>bin args input envs. preserves I (\<lambda>w. run_command env w bin args input envs)"
  shows "git_credential_fill env w protocol host user = (w', r) \<Longrightarrow> I (sys_fs w) \<Longrightarrow> I (sys_fs w')"
  by (auto simp: git_credential_fill_def split: option.splits prod.splits sum.splits if_splits dest!: preservesD [OF assms])

lemma auth_candidates_keep:
  fixes c :: "('n, 'g) resolver"
  assumes cmd: "\<And>bin args input envs. preserves I (\<lambda>w. run_command env w bin args input envs)"
    and "auth_candidates env s d = Some cs" and "c \<in> set cs"
  shows "preserves I c"
  unfolding preserves_def
proof (intro allI impI)
  fix w :: "'n sys" assume w: "I (sys_fs w)"
  obtain w' r where r: "c w = (w', r)" by fastforce
  have "I (sys_fs w')" using assms(2,3) w r
    by (auto simp: auth_candidates_def const_source_def helper_source_def Let_def split: if_splits option.splits prod.splits
        dest!: credential_fill_keeps [where env = env, OF cmd])
  then show "I (sys_fs (fst (c w)))" using r by simp
qed

lemma credential_loop_keeps:
  assumes prep: "\<And>w opts w' r. prep w opts = (w', r) \<Longrightarrow> I (sys_fs w) \<Longrightarrow> I (sys_fs w')"
    and reset: "\<And>w w' r. reset w = (w', r) \<Longrightarrow> I (sys_fs w) \<Longrightarrow> I (sys_fs w')"
  shows "(\<And>c. c \<in> set cs \<Longrightarrow> preserves I c) \<Longrightarrow> credential_loop prep reset topts cs w att errs = (w', r) \<Longrightarrow>
    I (sys_fs w) \<Longrightarrow> I (sys_fs w')"
proof (induction cs arbitrary: w att errs)
  case (Cons c cs)
  have c: "I (sys_fs v)" if "c w = (v, x)" for v x using preservesD [where op = c, OF _ that] Cons.prems(1,3) by simp
  show ?case using Cons.prems c Cons.IH [OF Cons.prems(1)]
    by (auto split: prod.splits sum.splits option.splits if_splits dest!: prep reset)
qed simp

lemma download_with_credentials_keeps:
  assumes prep: "\<And>w opts w' r. prep w opts = (w', r) \<Longrightarrow> I (sys_fs w) \<Longrightarrow> I (sys_fs w')"
    and reset: "\<And>w w' r. reset w = (w', r) \<Longrightarrow> I (sys_fs w) \<Longrightarrow> I (sys_fs w')"
    and cs: "\<And>c. c \<in> set cs \<Longrightarrow> preserves I c"
  shows "download_with_credentials prep reset topts cs w = (w', r) \<Longrightarrow> I (sys_fs w) \<Longrightarrow> I (sys_fs w')"
  using credential_loop_keeps [where prep = prep and reset = reset, OF prep reset cs]
  by (auto simp: download_with_credentials_def split: prod.splits loop_end.splits if_splits dest!: prep)

lemma git_download_keeps:
  assumes env: "git_preserves I env"
  shows "git_download env s d tmp w = Some (w', r) \<Longrightarrow> I (sys_fs w) \<Longrightarrow> I (sys_fs w')"
proof -
  assume r: "git_download env s d tmp w = Some (w', r)" and w: "I (sys_fs w)"
  have gg: "go_git_preserves I (ge_git env)"
    and cmd: "\<And>bin args input envs. preserves I (\<lambda>w. run_command (ar_auth (ge_archive env)) w bin args input envs)"
    using env by (simp_all add: git_preserves_def)
  have "I (sys_fs w')" if "auth_candidates (ar_auth (ge_archive env)) s d = Some cs"
    "download_with_credentials (clone_and_prepare (ge_git env) s d tmp) (\<lambda>w. reset_dir w tmp) topts cs w = (w', r)" for cs topts
    by (rule download_with_credentials_keeps [OF clone_and_prepare_keeps [OF gg] reset_dir_keeps auth_candidates_keep [OF cmd that(1)] that(2) w])
  then show "I (sys_fs w')" using r w by (auto simp: git_download_def Let_def split: option.splits sum.splits)
qed

lemma archive_credentials_keeps:
  assumes "\<And>bin args input envs. preserves I (\<lambda>w. run_command env w bin args input envs)"
  shows "archive_credentials env s w u = (w', r) \<Longrightarrow> I (sys_fs w) \<Longrightarrow> I (sys_fs w')"
  by (auto simp: archive_credentials_def Let_def split: option.splits prod.splits if_splits
      dest!: credential_fill_keeps [where env = env, OF assms])

lemma receive_archive_keeps: "receive_archive env s d tmp w aurl x = (w', r) \<Longrightarrow> I (sys_fs w) \<Longrightarrow> I (sys_fs w')"
  by (auto simp: receive_archive_def split: sum.splits if_splits prod.splits option.splits dest!: extract_archive_keeps)

lemma fetch_archive_keeps:
  assumes "git_preserves I genv" and "env = ge_archive genv"
  shows "fetch_archive env s d w tmp = (w', r) \<Longrightarrow> I (sys_fs w) \<Longrightarrow> I (sys_fs w')"
proof -
  have cmd: "\<And>bin args input envs. preserves I (\<lambda>w. run_command (ar_auth env) w bin args input envs)"
    and http: "\<And>rt url authz. preserves I (\<lambda>w. ar_http env w rt url authz)"
    using assms by (simp_all add: git_preserves_def)
  have authz: "I (sys_fs w1)" if "archive_authorization env s w u = (w1, x)" "I (sys_fs w)" for w u w1 x
    using that by (auto simp: archive_authorization_def Let_def split: prod.splits option.splits
        dest!: archive_credentials_keeps [where env = "ar_auth env", OF cmd])
  show "fetch_archive env s d w tmp = (w', r) \<Longrightarrow> I (sys_fs w) \<Longrightarrow> I (sys_fs w')"
    by (auto simp: fetch_archive_def split: option.splits sum.splits prod.splits if_splits
        dest!: authz preservesD [OF http] receive_archive_keeps)
qed

lemma download_loop_keeps:
  assumes attempt: "\<And>c w w' r. attempt c w = Some (w', r) \<Longrightarrow> I (sys_fs w) \<Longrightarrow> I (sys_fs w')"
    and reset: "\<And>w w' r. reset w = (w', r) \<Longrightarrow> I (sys_fs w) \<Longrightarrow> I (sys_fs w')"
  shows "download_loop probe attempt reset cs w later errs = Some (w', r) \<Longrightarrow> I (sys_fs w) \<Longrightarrow> I (sys_fs w')"
proof (induction cs arbitrary: w later errs)
  case (Cons c cs)
  obtain w1 e where w1: "(if later then reset w else (w, None)) = (w1, e)" by fastforce
  then have k: "I (sys_fs w1)" using Cons.prems(2) reset by (auto split: if_splits)
  show ?case using Cons.prems(1) k w1 Cons.IH by (auto split: option.splits prod.splits if_splits dest: attempt)
qed simp

lemma download_result_keeps:
  assumes env: "git_preserves I env"
  shows "download_result env s d tmp w x = (w', r) \<Longrightarrow> I (sys_fs w) \<Longrightarrow> I (sys_fs w')"
  by (auto simp: download_result_def split: prod.splits option.splits download_end.splits if_splits
      dest!: reset_dir_keeps fetch_archive_keeps [OF env refl])

lemma git_downloader_keeps:
  assumes env: "git_preserves I env" and r: "git_downloader_download env s d tmp w = Some (w', r)" and w: "I (sys_fs w)"
  shows "I (sys_fs w')"
proof -
  obtain w1 x where x: "download_loop (git_probe env s) (\<lambda>cand. git_download env s (d\<lparr>gd_repo_url := cand\<rparr>) tmp)
      (\<lambda>w. reset_dir w tmp) (clone_candidates s d) w False [] = Some (w1, x)"
    using r by (auto simp: git_downloader_download_def)
  obtain w2 e where e: "download_result env s d tmp w1 x = (w2, e)" by fastforce
  have "I (sys_fs w2)"
    using download_result_keeps [OF env e download_loop_keeps [OF git_download_keeps [OF env] reset_dir_keeps x w]] .
  then show ?thesis using r x e by (auto simp: git_downloader_download_def split: option.splits)
qed

end

section \<open>Through the protocols\<close>

context fs_invariant
begin

lemma hg_download_keeps:
  assumes "\<And>args envs. preserves I (\<lambda>w. hv_run env w args envs)"
  shows "hg_download env d s tmp w = (w', r) \<Longrightarrow> I (sys_fs w) \<Longrightarrow> I (sys_fs w')"
  by (auto simp: hg_download_def failed_def split: option.splits prod.splits dest!: preservesD [OF assms] promote_subdir_keeps intro!: remove_all)

lemma oci_download_keeps:
  assumes "\<And>dir. preserves I (\<lambda>w. ov_store env w dir)" and "\<And>c plain ref dir. preserves I (\<lambda>w. ov_copy env w c plain ref dir)"
  shows "oci_download env d s tmp w = (w', r) \<Longrightarrow> I (sys_fs w) \<Longrightarrow> I (sys_fs w')"
  by (auto simp: oci_download_def split: option.splits sum.splits prod.splits
      dest!: preservesD [OF assms(1)] preservesD [OF assms(2)] intro!: cleanup_keeps)

lemma http_download_keeps: "http_download env d s tmp w = (w', r) \<Longrightarrow> I (sys_fs w) \<Longrightarrow> I (sys_fs w')"
  by (auto simp: http_download_def receive_file_def failed_def Let_def split: sum.splits option.splits prod.splits if_splits
      dest!: save_stream_keeps)

lemma s3_file_keeps: "I (sys_fs w) \<Longrightarrow> I (sys_fs (fst (s3_download_file env client d limit w key dst)))"
  by (auto simp: s3_download_file_def split: prod.splits sum.splits dest!: save_object_keeps)

lemma gcs_file_keeps: "I (sys_fs w) \<Longrightarrow> I (sys_fs (fst (gcs_download_file env svc d limit w key dst)))"
  by (auto simp: gcs_download_file_def split: prod.splits sum.splits dest!: save_object_keeps)

lemma s3_dir_keeps:
  assumes "I (sys_fs w)" and "s3_download_dir env client d limit tmp w = Some r"
  shows "I (sys_fs (fst r))"
proof -
  have "paged_store (s3_page env d) (s3_object env client d limit tmp) (\<lambda>w. I (sys_fs w))"
    by unfold_locales (auto simp: s3_page_def s3_object_def Let_def s3_file_keeps split: prod.splits sum.splits option.splits)
  from paged_store.pages_keep [OF this] show ?thesis using assms by (auto simp: s3_download_dir_def Let_def split: if_splits)
qed

lemma gcs_dir_keeps:
  assumes "I (sys_fs w)" and "gcs_download_dir env svc d limit tmp w = Some r"
  shows "I (sys_fs (fst r))"
proof -
  have "paged_store (gcs_page env svc d) (gcs_object env svc d limit tmp) (\<lambda>w. I (sys_fs w))"
    by unfold_locales (auto simp: gcs_page_def gcs_object_def Let_def gcs_file_keeps split: prod.splits sum.splits option.splits)
  from paged_store.pages_keep [OF this] show ?thesis using assms by (auto simp: gcs_download_dir_def)
qed

lemma failed_fst [simp]: "fst (failed r ok) = fst r"
  by (auto simp: failed_def split: prod.split option.split)

lemma s3_download_keeps:
  assumes "I (sys_fs w)" and "s3_download env d s tmp w = Some r"
  shows "I (sys_fs (fst r))"
  using assms s3_dir_keeps [OF assms(1)] by (auto simp: s3_download_def s3_file_keeps split: sum.splits if_splits)

lemma gcs_download_keeps:
  assumes "I (sys_fs w)" and "gcs_download env d s tmp w = Some r"
  shows "I (sys_fs (fst r))"
  using assms gcs_dir_keeps [OF assms(1)] by (auto simp: gcs_download_def gcs_file_keeps split: sum.splits if_splits)

lemma all_protocols_keep:
  assumes "outside_preserves I e" and "p \<in> set (all_protocols e)"
  shows "protocol_preserves I p"
proof -
  have git: "git_preserves I (wd_git e)" and hg: "\<And>args envs. preserves I (\<lambda>w. hv_run (wd_hg e) w args envs)"
    and oci: "\<And>dir. preserves I (\<lambda>w. ov_store (wd_oci e) w dir)" "\<And>c plain ref dir. preserves I (\<lambda>w. ov_copy (wd_oci e) w c plain ref dir)"
    using assms(1) by (simp_all add: outside_preserves_def)
  have "protocol_preserves I (git_protocol (wd_git e))"
    using git_downloader_keeps [OF git] by (auto simp: protocol_preserves_def git_protocol_def forced_detect_def)
  moreover have "protocol_preserves I (hg_protocol (wd_hg e))"
    using hg_download_keeps [where env = "wd_hg e", OF hg] by (auto simp: protocol_preserves_def hg_protocol_def forced_detect_def returning_def)
  moreover have "protocol_preserves I (s3_protocol (wd_s3 e))" "protocol_preserves I (gcs_protocol (wd_gcs e))"
    using s3_download_keeps gcs_download_keeps
    by (fastforce simp: protocol_preserves_def s3_protocol_def gcs_protocol_def forced_detect_def)+
  moreover have "protocol_preserves I (oci_protocol (wd_oci e))"
    using oci_download_keeps [where env = "wd_oci e", OF oci] by (auto simp: protocol_preserves_def oci_protocol_def forced_detect_def returning_def)
  moreover have "protocol_preserves I (http_protocol (wd_http e))"
    using http_download_keeps by (auto simp: protocol_preserves_def http_protocol_def forced_detect_def returning_def)
  moreover have "protocol_preserves I (file_protocol (wd_cwd e) (wd_depth e) (wd_disk e))"
    using file_download_keeps by (fastforce simp: protocol_preserves_def file_protocol_def forced_detect_def)
  ultimately show ?thesis using assms(2) by (auto simp: all_protocols_sorted)
qed

section \<open>Through the pipeline\<close>

lemma download_keeps:
  assumes ps: "\<forall>p\<in>set (g_protocols g). protocol_preserves I p" and r: "download g s url tmp w = Some (w', r)" and w: "I (sys_fs w)"
  shows "I (sys_fs w')"
proof (cases "detect_url (g_protocols g) w url")
  case (Inr d)
  have first: "\<exists>p\<in>set ps. pr_detect p w url = Some d" if "first_detected w url ps = Some d" for ps
    using that by (induction ps) (auto split: option.splits)
  have "\<exists>p\<in>set (g_protocols g). \<exists>raw. pr_detect p w raw = Some d \<or> forced_detect p w raw = Some d"
    using Inr first [of "g_protocols g"]
    by (auto simp: detect_url_def Let_def split: prod.splits option.splits if_splits) (metis find_SomeD)+
  then show ?thesis using ps r w Inr by (fastforce simp: download_def protocol_preserves_def)
qed (use r w in \<open>simp add: download_def\<close>)

lemma grab_keeps:
  assumes ps: "\<forall>p\<in>set (g_protocols g). protocol_preserves I p" and r: "grab env g raw dst c w = Some (w', e)" and w: "I (sys_fs w)"
  shows "I (sys_fs w')"
proof -
  obtain url from_url where u: "extract_checksum raw = (url, from_url)" by fastforce
  let ?tmp = "path_join [temporary_directory (g_settings g), ''grabber'', gb_uuid env]"
  obtain f x where f: "mkdir_all (sys_fs w) ?tmp 493 = (f, x)" by fastforce
  have If: "I f" using mkdir_allD [OF f w] .
  show ?thesis
  proof (cases x)
    case None
    obtain w1 y where d: "download g (g_settings g) url ?tmp (with_fs w f) = Some (w1, y)"
      using r u f None by (cases "download g (g_settings g) url ?tmp (with_fs w f)") (auto simp: grab_def Let_def)
    have w1: "I (sys_fs w1)" using download_keeps [OF ps d] If by (simp add: with_fs_def)
    show ?thesis
    proof (cases y)
      case (Inl a)
      then show ?thesis using r u f None d w1 by (auto simp: grab_def with_fs_def Let_def intro!: remove_all)
    next
      case (Inr is_file)
      let ?c = "if cs_algorithm c = [] then from_url else c"
      obtain h z where h: "finish_grab env (g_settings g) ?c ?tmp dst is_file (sys_fs w1) = Some (h, z)"
        using r u f None d Inr by (auto simp: grab_def Let_def)
      show ?thesis using r u f None d Inr h finish_grab_keeps [OF h w1] by (auto simp: grab_def with_fs_def Let_def intro!: remove_all)
    qed
  qed (use r u f If in \<open>auto simp: grab_def with_fs_def Let_def\<close>)
qed

lemma cli_keeps:
  fixes all :: "'n protocol list"
  assumes ps: "\<forall>p\<in>set all. protocol_preserves I p" and r: "cli_run env vt fd tmp all fl w = Some res" and w: "I (sys_fs w)"
  shows "I (sys_fs (cr_world res))"
proof -
  have "g_protocols (new_grabber tmp all (cli_options fl key) :: (transport, 'n protocol) grabber) = all" for key
    by (cases key) (simp_all add: new_grabber_def cli_options_def with_auto_extract_def with_git_depth_def with_git_ssh_key_def
      with_git_insecure_skip_host_key_verify_def update_settings_def)
  then have "I (sys_fs w')" if "grab env (new_grabber tmp all (cli_options fl key)) url d c w = Some (w', e)" for key url d c w' e
    using grab_keeps [OF _ that w] ps by simp
  then show ?thesis using r w
    by (auto simp: cli_run_def Let_def grab_url_def grab_with_sha256_checksum_def split: if_splits list.splits sum.splits)
qed

end

section \<open>The file system stays a tree\<close>

definition tree_ok :: "fs \<Rightarrow> bool" where
  "tree_ok f \<longleftrightarrow> fs_ok f \<and> plain_comps (fs_cwd f)"

lemma raw_comps_proper: "c \<in> set (raw_comps s) \<Longrightarrow> proper_comp c"
  by (auto simp: raw_comps_def proper_comp_def dest: split_chr_no_sep)

text \<open>The kernel's resolution yields plain elements, through links or not.\<close>

lemma walk_plain_result:
  "walk f fl n cur cs = Inr p \<Longrightarrow> plain_comps cur \<Longrightarrow> (\<forall>c\<in>set cs. proper_comp c) \<Longrightarrow> plain_comps p"
proof (induction f fl n cur cs rule: walk.induct)
  case (2 f fl n cur c cs)
  have up: "plain_comps (butlast cur)" using 2(5) by (auto simp: plain_comps_def dest: in_set_butlastD)
  have down: "c \<noteq> ''..'' \<Longrightarrow> plain_comps (cur @ [c])" using 2(5,6) by (simp add: plain_comps_def)
  have link: "\<forall>d\<in>set (raw_comps t @ cs). proper_comp d" for t using 2(6) raw_comps_proper by auto
  have root: "plain_comps []" by (simp add: plain_comps_def)
  show ?case
  proof (cases "c = ''..''")
    case True
    then show ?thesis using 2(1) 2(4,6) up by simp
  next
    case False
    then show ?thesis using 2(2,3) 2(4-6) down link root
      by (cases "fs_get f (cur @ [c])"; auto simp del: plain_comps_append split: fnode.splits if_splits)
  qed
qed simp

lemma resolve_plain_result: "resolve f fl s = Inr p \<Longrightarrow> plain_comps (fs_cwd f) \<Longrightarrow> plain_comps p"
  using walk_plain_result [of f fl symloop_max "if is_abs s then [] else fs_cwd f" "raw_comps s" p] raw_comps_proper [of _ s]
  by (auto simp: resolve_def plain_comps_def [of "[]"] split: if_splits)

lemma tree_ok_set:
  assumes "tree_ok f" and "plain_comps p" and "parent_ok f p" and "\<And>m. fs_get f p \<noteq> Some (Dir m)"
  shows "tree_ok (fs_set f p n)"
proof -
  have p: "p \<noteq> []" using assms(3) by (rule parent_ok_not_root)
  have ok: "fs_ok f" using assms(1) by (simp add: tree_ok_def)
  have "plain_comps q \<and> (\<exists>m. fs_get (fs_set f p n) (butlast q) = Some (Dir m))" if q: "fs_get (fs_set f p n) q = Some k" "q \<noteq> []" for q k
  proof (cases "q = p")
    case True
    moreover have "butlast p \<noteq> p" using p by (metis append_butlast_last_id butlast_snoc not_Cons_self2 self_append_conv)
    ultimately show ?thesis using assms(2,3) p by (auto simp: parent_ok_def fs_get_set is_dir_def split: option.splits fnode.splits)
  next
    case False
    then have "plain_comps q \<and> (\<exists>m. fs_get f (butlast q) = Some (Dir m))" using ok q p by (auto simp: fs_ok_def fs_get_set)
    moreover from this have "butlast q \<noteq> p" using assms(4) by auto
    ultimately show ?thesis using p by (simp add: fs_get_set)
  qed
  then show ?thesis using assms(1) by (auto simp: tree_ok_def fs_ok_def fs_set_def distinct_map_put)
qed

lemma tree_ok_filter:
  assumes "tree_ok f" and "\<And>q n. fs_get f q = Some n \<Longrightarrow> q \<noteq> [] \<Longrightarrow> butlast q \<noteq> [] \<Longrightarrow> P q \<Longrightarrow> P (butlast q)"
  shows "tree_ok (f\<lparr>fs_nodes := filter (\<lambda>(q, _). P q) (fs_nodes f)\<rparr>)"
proof -
  have "map_of (filter (\<lambda>(q, _). P q) xs) q = (if P q then map_of xs q else None)" for xs :: "(fpath \<times> fnode) list" and q
    by (induction xs) auto
  then have get: "fs_get (f\<lparr>fs_nodes := filter (\<lambda>(q, _). P q) (fs_nodes f)\<rparr>) q = (if q = [] \<or> P q then fs_get f q else None)" for q
    by (simp add: fs_get_def)
  show ?thesis using assms unfolding tree_ok_def fs_ok_def get
    by (auto intro: distinct_map_filter split: if_splits)
qed

lemma tree_ok_del:
  assumes "tree_ok f" and "p \<noteq> []" and "\<And>q. fs_get f q \<noteq> None \<Longrightarrow> q \<noteq> [] \<Longrightarrow> butlast q \<noteq> p"
  shows "tree_ok (fs_del f p)"
  using tree_ok_filter [OF assms(1), of "\<lambda>q. q \<noteq> p"] assms(3) by (auto simp: fs_del_def map_delete_def)

lemma no_children: "fs_children f p = [] \<Longrightarrow> fs_get f q \<noteq> None \<Longrightarrow> q \<noteq> [] \<Longrightarrow> butlast q \<noteq> p"
  by (fastforce simp: fs_children_def filter_empty_conv fs_get_def dest: map_of_SomeD)

lemma leaf_no_children:
  "tree_ok f \<Longrightarrow> (\<And>m. fs_get f p \<noteq> Some (Dir m)) \<Longrightarrow> fs_get f q \<noteq> None \<Longrightarrow> q \<noteq> [] \<Longrightarrow> butlast q \<noteq> p"
  by (auto simp: tree_ok_def fs_ok_def)

lemma tree_ok_node: "tree_ok f \<Longrightarrow> fs_get f p = Some n \<Longrightarrow> p \<noteq> [] \<Longrightarrow> plain_comps p \<and> parent_ok f p"
  by (auto simp: tree_ok_def fs_ok_def parent_ok_def is_dir_def split: option.splits) (metis fnode.simps(10) option.inject)+

lemma leaf_node: "tree_ok f \<Longrightarrow> fs_get f p = Some n \<Longrightarrow> \<not> is_dir n \<Longrightarrow> plain_comps p \<and> parent_ok f p"
  using tree_ok_node [of f p n] by (cases "p = []") (auto simp: fs_get_def is_dir_def)

lemma tree_ok_removed:
  assumes "tree_ok f" and "fs_get f p = Some n" and "p \<noteq> []" and "is_dir n \<longrightarrow> fs_children f p = []"
  shows "tree_ok (fs_del f p)"
proof (rule tree_ok_del [OF assms(1,3)])
  show "butlast q \<noteq> p" if "fs_get f q \<noteq> None" "q \<noteq> []" for q
    using no_children [OF _ that] leaf_no_children [OF assms(1) _ that] assms(2,4) by (cases n) (auto simp: is_dir_def)
qed

lemma tree_ok_rename:
  assumes f: "tree_ok f" and d: "plain_comps d" "parent_ok f d" "\<And>m. fs_get f d \<noteq> Some (Dir m)" and "s \<noteq> []" and "\<not> prefix s d"
  shows "tree_ok (fs_move f s d)"
proof -
  let ?f = "fs_del f d"
  have ne: "d \<noteq> []" using d(2) by (rule parent_ok_not_root)
  have ok: "tree_ok ?f" by (rule tree_ok_del [OF f ne leaf_no_children [OF f d(3)]])
  have up: "fs_get ?f (butlast d) = fs_get f (butlast d)"
    using ne by (simp add: fs_get_del) (metis append_butlast_last_id butlast_snoc not_Cons_self2 self_append_conv)
  obtain k where k: "fs_get f (butlast d) = Some (Dir k)" using d(2) by (auto simp: parent_ok_def is_dir_def split: option.splits fnode.splits)
  have "placed ?f (butlast d)" using ok_placed [of ?f "butlast d"] ok up k by (simp add: tree_ok_def)
  then have "placed ?f d" using placed_snoc [of ?f "butlast d" "last d"] ne d(1) up k by (simp add: plain_comps_def)
  then have "fs_ok (fs_move ?f s d)" using fs_move_ok [of ?f d s] ok ne assms(5,6) by (simp add: tree_ok_def fs_get_del)
  moreover have "fs_move ?f s d = fs_move f s d" by (simp add: fs_move_def fs_del_def map_delete_def)
  ultimately show ?thesis using f by (simp add: tree_ok_def fs_move_def)
qed

interpretation tree: fs_invariant tree_ok
proof unfold_locales
  fix f s assume f: "tree_ok f"
  have cwd: "plain_comps (fs_cwd f)" using f by (simp add: tree_ok_def)
  note res = resolve_plain_result [OF _ cwd]
  show "tree_ok (fst (fs_mkdir f s m))" "tree_ok (fst (fs_symlink f t s))" for m t
    using f res by (auto simp: fs_mkdir_def fs_symlink_def intro!: tree_ok_set split: sum.splits)
  show "tree_ok (fst (open_create f s m))" for m
    using f res leaf_node [OF f]
    by (auto simp: open_create_def is_dir_def intro!: tree_ok_set split: sum.splits option.splits fnode.splits)
  show "tree_ok (fs_write f p d)" for p d
    using f leaf_node [OF f]
    by (auto simp: fs_write_def is_dir_def intro!: tree_ok_set split: option.splits fnode.splits)
  show "tree_ok (fst (fs_remove f s))"
  proof (cases "resolve f False s")
    case (Inr p)
    have leaf: "tree_ok (fs_del f p)" if "fs_get f p = Some n" "\<not> is_dir n" for n
      using tree_ok_removed [OF f that(1)] that by (cases "p = []") (auto simp: fs_get_def is_dir_def)
    have dir: "tree_ok (fs_del f p)" if "fs_get f p = Some (Dir m)" "p \<noteq> []" "fs_children f p = []" for m
      using tree_ok_removed [OF f that(1,2)] that(3) by simp
    show ?thesis using f Inr leaf dir by (auto simp: fs_remove_def is_dir_def split: option.split fnode.split)
  qed (use f in \<open>simp add: fs_remove_def\<close>)
  show "tree_ok (fst (fs_remove_all f s))"
    using f by (auto simp: fs_remove_all_def intro!: tree_ok_filter split: sum.splits dest: prefix_order.order_trans [OF _ prefixeq_butlast])
  show "tree_ok (fst (fs_rename f cross s d))" for cross d
    using f res by (auto simp: fs_rename_def intro!: tree_ok_rename split: sum.splits option.splits fnode.splits)
qed

text \<open>The program has no \<^verbatim>\<open>os.Chdir\<close>: the working directory stays.\<close>

interpretation cwd: fs_invariant "\<lambda>f. fs_cwd f = c"
  by unfold_locales
    (auto simp: fs_mkdir_def open_create_def fs_write_def fs_remove_def fs_remove_all_def fs_symlink_def fs_rename_def fs_set_def fs_del_def fs_move_def
      split: sum.split option.split fnode.split)

section \<open>Properties\<close>

text \<open>
  The model of the disk holds together: whatever is grabbed from wherever, and whether it succeeds, fails or breaks off in the middle: the
  file system is a tree with directories above every node, and the program has not changed its working
  directory, provided the parts that are not the program's own (go-git, \<^verbatim>\<open>hg\<close>, \<^verbatim>\<open>oras\<close>, the
  credential helper) leave a tree and their caller's directory.
\<close>

theorem grab_keeps_tree:
  assumes "g_protocols g = all_protocols e" and "outside_preserves tree_ok e" and "outside_preserves (\<lambda>f. fs_cwd f = fs_cwd (sys_fs w)) e"
    and "tree_ok (sys_fs w)" and "grab env g raw dst c w = Some (w', err)"
  shows "tree_ok (sys_fs w') \<and> fs_cwd (sys_fs w') = fs_cwd (sys_fs w)"
  using tree.grab_keeps [OF _ assms(5,4)] cwd.grab_keeps [OF _ assms(5) refl]
    tree.all_protocols_keep [OF assms(2)] cwd.all_protocols_keep [OF assms(3)] assms(1) by simp

section \<open>A concrete instance\<close>

lemma demo_trees: "tree_ok demo_dir" "tree_ok demo_clone_fs" "tree_ok (demo_pulled ''f'')"
proof -
  have "plain_comps [''t'', ''_clone'', ''.hg'', ''s'', ''f'']" by code_simp
  then show "tree_ok demo_dir" "tree_ok demo_clone_fs" "tree_ok (demo_pulled ''f'')"
    by (auto simp: tree_ok_def fs_ok_def demo_dir_def demo_clone_fs_def demo_pulled_def fs_get_def plain_comps_def split: if_splits)
qed

lemma demo_outside:
  assumes "I demo_dir" and "I demo_clone_fs" and "I (demo_pulled ''f'')"
  shows "outside_preserves I demo_env_all"
  using assms by (simp add: outside_preserves_def git_preserves_def go_git_preserves_def preserves_def demo_env_all_def demo_git_env_def
      demo_git_def demo_archive_env_def demo_auth_env_def demo_hg_def demo_oras_def demo_sys_def)

theorem grab_keeps_tree_witness:
  "\<exists>w3. grab demo_grab_env (new_grabber ''/tmp'' (all_protocols demo_env_all) []) (abs_path [''data'']) (abs_path [''o'', ''d''])
      no_checksum (unit_sys demo_host) = Some (w3, None) \<and> tree_ok (sys_fs w3) \<and> fs_cwd (sys_fs w3) = []"
proof -
  obtain w3 where w3: "grab demo_grab_env (new_grabber ''/tmp'' (all_protocols demo_env_all) []) (abs_path [''data'']) (abs_path [''o'', ''d''])
      no_checksum (unit_sys demo_host) = Some (w3, None)"
    using local_directory_delivered [OF demo_host_facts] by blast
  have cwd: "fs_cwd (sys_fs (unit_sys demo_host)) = []" by (simp add: demo_host_def)
  have "outside_preserves (\<lambda>f. fs_cwd f = fs_cwd (sys_fs (unit_sys demo_host))) demo_env_all"
    unfolding cwd by (rule demo_outside) (simp_all add: demo_dir_def demo_clone_fs_def demo_pulled_def)
  moreover have "tree_ok (sys_fs (unit_sys demo_host))"
    using demo_host_facts(5) cwd by (simp add: tree_ok_def plain_comps_def)
  ultimately show ?thesis
    using grab_keeps_tree [OF demo_host_facts(2) demo_outside [OF demo_trees] _ _ w3] w3 cwd by auto
qed

end
