(* ===== verification/Delivery.thy ===== *)
theory Delivery
  imports Tree_Invariant
begin

text \<open>
  From the URL to the destination for a file behind HTTPS: detection, the request, the temporary
  directory, the checksum and the delivery, composed as \<^verbatim>\<open>GrabWithSHA256Checksum\<close> of \<^verbatim>\<open>grabber.go\<close> composes
  them.
\<close>

section \<open>The parts\<close>

lemma https_no_checksum:
  assumes "ordinary h p"
  shows "extract_checksum (''https://'' @ h @ ''/'' @ p) = (''https://'' @ h @ ''/'' @ p, no_checksum)"
proof -
  let ?raw = "''https://'' @ h @ ''/'' @ p"
  have hp: "list_all is_path_char h" "list_all is_path_char p" using assms host_chars_path by (auto simp: ordinary_def)
  have chars: "CHR '':'' \<notin> set (h @ ''/'' @ p)" "CHR ''='' \<notin> set ?raw"
    using plain_chars_not [OF hp(1), of "CHR '':''"] plain_chars_not [OF hp(2), of "CHR '':''"] hp by simp
      (use hp in \<open>auto simp: list_all_iff char_class_simps\<close>)
  have "index_str (h @ ''/'' @ p) ''::'' = None" using chars(1) no_chr_sub [of "CHR '':''" "''::''"] by simp
  then have "cut_str ?raw ''::'' = (?raw, [], False)" by (simp add: cut_str_def)
  moreover have "\<not> contains_str ?raw ''checksum=''" using no_chr_sub [OF _ chars(2), of "''checksum=''"] by simp
  ultimately show ?thesis by (simp add: extract_checksum_def del: append.simps)
qed

text \<open>The one name in a directory, and the file it is.\<close>

lemma only_name:
  assumes "fs_ok f" and "fs_get f t = Some (Dir m)" and "fs_get f (t @ [c]) = Some (Regular k b)" and "read_dir f (abs_path t) = Inr [name]"
  shows "name = c \<and> open_read f (path_join [abs_path t, name]) = Inr (t @ [c])"
proof -
  have pl: "placed f t" "placed f (t @ [c])" using ok_placed [OF assms(1)] assms(2,3) by blast+
  obtain cs where cs: "read_dir f (abs_path t) = Inr cs" "distinct cs" "set cs = {x. fs_get f (t @ [x]) \<noteq> None}"
    using read_dir_placed [OF pl(1) assms(2)] assms(1) by (auto simp: fs_ok_def)
  have "c \<in> set cs" using cs(3) assms(3) by simp
  then have c: "name = c" using cs(1) assms(4) by auto
  have "path_join [abs_path t, name] = abs_path (t @ [c])"
    using join_abs_rel [OF placed_plain [OF pl(1)], of "[c]"] pl(2) c by (simp add: placed_snoc)
  then show ?thesis using c open_read_placed [OF pl(2) assms(3)] by simp
qed

text \<open>
  The download of an ordinary HTTPS URL into a fresh temporary directory \<open>t\<close>: one file below it,
  the whole body of a response with a status of success, and a tree that is still well formed.
\<close>

lemma https_file_fetched:
  assumes url: "ordinary h p" "h \<noteq> []" "raw = ''https://'' @ h @ ''/'' @ p"
    and g: "g_protocols g = all_protocols e" "max_bytes (g_settings g) < max_int64"
    and tree: "tree_ok (sys_fs w)" and t: "placed (sys_fs w) t" "fs_get (sys_fs w) t = None"
    and run: "download g (g_settings g) raw (abs_path t) (with_fs w (fs_set (sys_fs w) t (Dir 493))) = Some (w2, Inr is_file)"
  obtains name u rt n resp where "new_request raw = Inr u"
    "round_tripper_for_host (he_net (wd_http e)) (he_check (wd_http e)) (g_settings g) (url_hostname u) = Inr rt"
    "he_do (wd_http e) (sys_net w) rt u
       (http_authorization (wd_http e) (g_settings g) (fs_set (sys_fs w) t (Dir 493)) raw u) = (n, Inr resp)"
    "200 \<le> hr_status resp" "hr_status resp < 300" "rd_end (response_body resp) = None" "fs_ok (sys_fs w2)"
    "\<And>q. fs_get (sys_fs w2) q =
      (if q = t @ [name] then Some (Regular 438 (rd_data (response_body resp)))
       else if q = t then Some (Dir 493) else fs_get (sys_fs w) q)"
proof -
  let ?o = "sys_fs w" and ?f = "fs_set (sys_fs w) t (Dir 493)" and ?d = "\<lparr>hd_url = raw, hd_archive = []\<rparr>"
  have ok: "fs_ok ?o" using tree by (simp add: tree_ok_def)
  have t_ne: "t \<noteq> []" using t(2) by (auto simp: fs_get_def)
  have get: "fs_get ?f q = (if q = t then Some (Dir 493) else fs_get ?o q)" for q using t_ne by (simp add: fs_get_set)
  have "download g (g_settings g) raw (abs_path t) (with_fs w ?f) = Some (http_download (wd_http e) ?d (g_settings g) (abs_path t) (with_fs w ?f))"
    using https_url_detected [OF url(1,2), of e "with_fs w ?f"] g(1) url(3) by (simp add: download_def returning_def)
  then have http: "http_download (wd_http e) ?d (g_settings g) (abs_path t) (with_fs w ?f) = (w2, Inr is_file)" using run by simp
  have fresh: "placed (sys_fs (with_fs w ?f)) t" "fs_get (sys_fs (with_fs w ?f)) t = Some (Dir 493)" "fs_get (sys_fs (with_fs w ?f)) (t @ [x]) = None" for x
    using placed_cong [of t ?f ?o] t(1) get ok_none_below [OF ok _ t(2)] by (auto simp: with_fs_def strict_prefix_def)
  have "tree_ok (sys_fs w2)"
    using tree.http_download_keeps [OF http] tree.mkdir_allD [OF mkdir_all_placed [OF t] tree] by (simp add: with_fs_def)
  then have "fs_ok (sys_fs w2)" by (simp add: tree_ok_def)
  then show ?thesis
    using http_download_saved [OF fresh _ g(2) http] get that [of _ _ _ _ "file_name ?d"] by (auto simp: with_fs_def)
qed

text \<open>A lone file below the temporary directory, delivered to a fresh destination.\<close>

lemma lone_file_delivered:
  assumes ok: "fs_ok f0" "fs_ok f" and t: "t \<noteq> []" "fs_get f0 t = None" and d: "placed f0 d" "fs_get f0 d = None" and apart: "\<not> prefix t d"
    and get: "\<And>q. fs_get f q = (if q = t @ [name] then Some n else if q = t then Some (Dir m) else fs_get f0 q)"
    and disk: "\<And>q. gb_disk env q = None" and depth: "length t + 1 + fs_depth f0 < gb_depth env"
    and run: "deliver env f (abs_path t) (abs_path d) = Some (h, None)"
  shows "fs_get (fst (fs_remove_all h (abs_path t))) (d @ [name]) = Some n"
    and "\<not> prefix d q \<Longrightarrow> fs_get (fst (fs_remove_all h (abs_path t))) q = fs_get f0 q"
proof -
  have "fs_depth f \<le> length t + 1 + fs_depth f0"
  proof (rule fs_depth_le [OF ok(2)])
    show "length q \<le> length t + 1 + fs_depth f0" if "fs_get f q \<noteq> None" for q
      using that get fs_depth_bound [of f0 q] by (cases "q = t @ [name]"; cases "q = t") auto
  qed
  then have deep: "fs_depth f < gb_depth env" using depth by simp
  have upto: "fs_get f q = fs_get f0 q" if "\<not> prefix t q" for q using get that by (auto simp: prefix_def)
  have to: "placed f d" "fs_get f d = None"
    using placed_cong [of d f f0] upto apart d prefix_order.order_trans [of t _ d] by (auto simp: strict_prefix_def)
  have src: "fs_get f t = Some (Dir m)" using get by simp
  have w: "\<forall>r. fs_get (fst (fs_remove_all h (abs_path t))) (d @ r) = fs_get f (t @ r)"
    "\<forall>q. prefix t q \<longrightarrow> fs_get (fst (fs_remove_all h (abs_path t))) q = None"
    "\<forall>q. \<not> prefix d q \<longrightarrow> \<not> prefix t q \<longrightarrow> fs_get (fst (fs_remove_all h (abs_path t))) q = fs_get f q"
    using deliver_clean [OF ok(2) src t(1) to apart disk deep] run by auto
  show "fs_get (fst (fs_remove_all h (abs_path t))) (d @ [name]) = Some n" using w(1) get by simp
  show "fs_get (fst (fs_remove_all h (abs_path t))) q = fs_get f0 q" if "\<not> prefix d q"
    using w(2,3) upto that ok_none_below [OF ok(1) _ t(2)] by (cases "prefix t q") (auto simp: prefix_def)
qed

section \<open>Properties\<close>

text \<open>
  C2. A file grabbed from an ordinary HTTPS URL with a SHA-256 checksum, if the grab succeeds: the
  destination holds the whole body of a response with a status of success, to the request for that
  URL with the credentials chosen for it, over the transport built for its host; the body has that
  hash; and nothing outside the destination is left changed.
\<close>

theorem https_file_delivered:
  assumes url: "ordinary h p" "h \<noteq> []" "raw = ''https://'' @ h @ ''/'' @ p"
    and g: "g_protocols g = all_protocols e" "\<not> enable_auto_extract (g_settings g)" "max_bytes (g_settings g) < max_int64"
    and tmp: "path_join [temporary_directory (g_settings g), ''grabber'', gb_uuid env] = abs_path t"
    and tree: "tree_ok (sys_fs w)" and t: "placed (sys_fs w) t" "fs_get (sys_fs w) t = None"
    and d: "placed (sys_fs w) d" "fs_get (sys_fs w) d = None" and apart: "\<not> prefix t d"
    and disk: "\<And>q. gb_disk env q = None" and depth: "length t + 1 + fs_depth (sys_fs w) < gb_depth env"
    and run: "grab_with_sha256_checksum env g raw (abs_path d) hex w = Some (w3, None)"
  shows "\<exists>name u rt n resp. new_request raw = Inr u \<and>
    round_tripper_for_host (he_net (wd_http e)) (he_check (wd_http e)) (g_settings g) (url_hostname u) = Inr rt \<and>
    he_do (wd_http e) (sys_net w) rt u
      (http_authorization (wd_http e) (g_settings g) (fs_set (sys_fs w) t (Dir 493)) raw u) = (n, Inr resp) \<and>
    200 \<le> hr_status resp \<and> hr_status resp < 300 \<and> rd_end (response_body resp) = None \<and>
    fs_get (sys_fs w3) (d @ [name]) = Some (Regular 438 (rd_data (response_body resp))) \<and>
    equal_fold (hex_encode (gb_digest env ''sha256'' (rd_data (response_body resp)))) hex \<and>
    (\<forall>q. \<not> prefix d q \<longrightarrow> fs_get (sys_fs w3) q = fs_get (sys_fs w) q)"
proof -
  let ?f = "fs_set (sys_fs w) t (Dir 493)" and ?c = "\<lparr>cs_algorithm = ''sha256'', cs_expected = hex\<rparr>"
  have chosen: "?c = (if cs_algorithm ?c = [] then snd (extract_checksum raw) else ?c)" by simp
  have ok: "fs_ok (sys_fs w)" using tree by (simp add: tree_ok_def)
  have t_ne: "t \<noteq> []" using t(2) by (auto simp: fs_get_def)
  obtain f w2 is_file h0 where s: "mkdir_all (sys_fs w) (abs_path t) 493 = (f, None)"
    "download g (g_settings g) (fst (extract_checksum raw)) (abs_path t) (with_fs w f) = Some (w2, Inr is_file)"
    "finish_grab env (g_settings g) ?c (abs_path t) (abs_path d) is_file (sys_fs w2) = Some (h0, None)"
    "w3 = with_fs (with_fs w2 h0) (fst (fs_remove_all h0 (abs_path t)))"
    using grab_success [OF run [unfolded grab_with_sha256_checksum_def] chosen tmp [symmetric]] .
  have "download g (g_settings g) raw (abs_path t) (with_fs w ?f) = Some (w2, Inr is_file)"
    using s(1,2) mkdir_all_placed [OF t] https_no_checksum [OF url(1)] url(3) by simp
  then obtain name u rt n resp where got: "new_request raw = Inr u"
    "round_tripper_for_host (he_net (wd_http e)) (he_check (wd_http e)) (g_settings g) (url_hostname u) = Inr rt"
    "he_do (wd_http e) (sys_net w) rt u (http_authorization (wd_http e) (g_settings g) ?f raw u) = (n, Inr resp)"
    "200 \<le> hr_status resp" "hr_status resp < 300" "rd_end (response_body resp) = None"
    and ok2: "fs_ok (sys_fs w2)" and get: "\<And>q. fs_get (sys_fs w2) q =
      (if q = t @ [name] then Some (Regular 438 (rd_data (response_body resp))) else if q = t then Some (Dir 493) else fs_get (sys_fs w) q)"
    by (rule https_file_fetched [OF url g(1,3) tree t]) blast
  have sha: "to_lower ''sha256'' = ''sha256''" by code_simp
  have "fs_get (sys_fs w2) t = Some (Dir 493)" "fs_get (sys_fs w2) (t @ [name]) = Some (Regular 438 (rd_data (response_body resp)))"
    using get by simp_all
  then have "equal_fold (hex_encode (gb_digest env ''sha256'' (rd_data (response_body resp)))) hex"
    using finish_verified [OF s(3)] only_name [OF ok2] sha by (auto simp: hash_for_def)
  moreover have "deliver env (sys_fs w2) (abs_path t) (abs_path d) = Some (h0, None)"
    using s(3) g(2) by (auto simp: finish_grab_def split: if_splits option.splits)
  note lone_file_delivered [OF ok ok2 t_ne t(2) d apart get disk depth this]
  ultimately show ?thesis using got s(4) by (intro exI [of _ name]) (auto simp: with_fs_def)
qed

section \<open>A concrete instance\<close>

abbreviation demo_tmp :: fpath where
  "demo_tmp \<equiv> [''tmp'', ''grabber'', ''u'']"

definition demo_client :: "(transport, unit protocol) grabber" where
  "demo_client = new_grabber ''/tmp'' (all_protocols demo_env_all) [with_auto_extract False]"

definition demo_received :: fs where
  "demo_received = fs_set (fs_set demo_host demo_tmp (Dir 493)) (demo_tmp @ [''f'']) (Regular 438 ''data'')"

lemma demo_client_facts:
  "g_protocols demo_client = all_protocols demo_env_all" "g_settings demo_client = demo_default\<lparr>enable_auto_extract := False\<rparr>"
  "path_join [temporary_directory (g_settings demo_client), ''grabber'', gb_uuid demo_grab_env] = abs_path demo_tmp"
  using demo_steps(2) by (simp_all add: demo_client_def new_grabber_def with_auto_extract_def update_settings_def demo_default_def
      default_settings_def demo_grab_env_def)

lemma demo_exchange:
  "http_download demo_http \<lparr>hd_url = ''https://example.com/f'', hd_archive = []\<rparr> (g_settings demo_client) (abs_path demo_tmp)
     (with_fs (unit_sys demo_host) (fs_set demo_host demo_tmp (Dir 493))) = (with_fs (unit_sys demo_host) demo_received, Inr True)"
proof -
  let ?d = "\<lparr>hd_url = ''https://example.com/f'', hd_archive = []\<rparr>" and ?f = "fs_set demo_host demo_tmp (Dir 493)"
  have parts: "file_name ?d = ''f''" "path_join [abs_path demo_tmp, ''f''] = ''/tmp/grabber/u/f''"
    "open_create ?f ''/tmp/grabber/u/f'' 438 = (fs_set ?f (demo_tmp @ [''f'']) (Regular 438 []), Inr (demo_tmp @ [''f'']))"
    "limit_copy None (file_reader ''data'') default_max_bytes = (''data'', None)" by code_simp+
  obtain u where u: "new_request (hd_url ?d) = Inr u"
  proof -
    have "(case new_request (hd_url ?d) of Inl _ \<Rightarrow> False | Inr _ \<Rightarrow> True)" by code_simp
    then show ?thesis using that by (auto split: sum.splits)
  qed
  have s: "max_bytes (g_settings demo_client) = default_max_bytes" "connect_probe_timeout (g_settings demo_client) = 0"
    by (simp_all add: demo_client_facts demo_default_def default_settings_def)
  have tr: "transport_for_host demo_env (g_settings demo_client) h = Inr (Some demo_transport)" for h
    by (simp add: demo_client_facts transport_for_host_def ca_cert_pool_def demo_default_def default_settings_def
      match_client_certificate_def match_proxy_def layer_tls_def layer_guard_def layer_proxy_def
      base_transport_def demo_env_def demo_transport_def ssrf_guard_def new_guard_def enabled_def)
  have "fs_write (fs_set ?f (demo_tmp @ [''f'']) (Regular 438 [])) (demo_tmp @ [''f'']) ''data'' = demo_received"
    unfolding demo_received_def by (rule write_created) simp
  then show ?thesis
    using parts u s by (simp add: http_download_def probe_connect_for_def demo_http_def round_tripper_for_host_def tr receive_file_def
        response_body_def save_stream_def with_fs_def Let_def)
qed

theorem https_file_delivered_witness:
  "\<exists>w3 name. grab_with_sha256_checksum demo_grab_env demo_client ''https://example.com/f'' (abs_path [''o'', ''d'']) ''2A'' (unit_sys demo_host) =
      Some (w3, None) \<and> fs_get (sys_fs w3) [''o'', ''d'', name] = Some (Regular 438 ''data'')"
proof -
  let ?w = "unit_sys demo_host" and ?raw = "''https://example.com/f''" and ?f = "fs_set demo_host demo_tmp (Dir 493)"
  let ?c = "\<lparr>cs_algorithm = ''sha256'', cs_expected = ''2A''\<rparr>"
  note host = demo_host_facts
  have fs: "sys_fs ?w = demo_host" by simp
  have tree: "tree_ok (sys_fs ?w)" using host(5) by (simp add: tree_ok_def plain_comps_def demo_host_def)
  have url: "ordinary ''example.com'' ''f''" "''example.com'' \<noteq> []" "?raw = ''https://'' @ ''example.com'' @ ''/'' @ ''f''" by code_simp+
  have mk: "mkdir_all demo_host (abs_path demo_tmp) 493 = (?f, None)" using mkdir_all_placed [OF host(7,8)] by simp
  have "tree_ok ?f" using tree.mkdir_allD [OF mk] tree by simp
  then have "tree_ok demo_received" using tree.http_download_keeps [OF demo_exchange] by (simp add: with_fs_def)
  then have ok: "fs_ok demo_received" by (simp add: tree_ok_def)
  have det: "detect_url (all_protocols demo_env_all) (with_fs ?w ?f) ?raw =
      Inr (returning (http_download (wd_http demo_env_all) \<lparr>hd_url = ?raw, hd_archive = []\<rparr>))"
    unfolding url(3) by (rule https_url_detected [OF url(1,2)])
  have server: "wd_http demo_env_all = demo_http" by (simp add: demo_env_all_def)
  have dl: "download demo_client (g_settings demo_client) ?raw (abs_path demo_tmp) (with_fs ?w ?f) = Some (with_fs ?w demo_received, Inr True)"
    unfolding download_def demo_client_facts(1) det sum.case returning_def server demo_exchange ..
  have plain: "extract_checksum ?raw = (?raw, no_checksum)"
    unfolding url(3) by (rule https_no_checksum [OF url(1)])
  have parts: "read_dir demo_received (abs_path demo_tmp) = Inr [''f'']" "path_join [abs_path demo_tmp, ''f''] = ''/tmp/grabber/u/f''"
    "open_read demo_received ''/tmp/grabber/u/f'' = Inr (demo_tmp @ [''f''])"
    "opened_reader demo_received (demo_tmp @ [''f'']) = \<lparr>rd_data = ''data'', rd_end = None\<rparr>"
    "equal_fold ''2a'' ''2A''" "to_lower ''sha256'' = ''sha256''" by code_simp+
  have "hex_encode ''*'' = ''2a''"
    by (simp add: hex_encode_def upper_hex_def lower_char_def is_upper_def char_of_def bit_iff_odd)
  then have ck: "verify_checksum (gb_digest demo_grab_env) demo_received (abs_path demo_tmp) ?c = None"
    using parts by (simp add: verify_checksum_def only_entry_def hash_for_def demo_grab_env_def)
  have got: "fs_get demo_received demo_tmp = Some (Dir 493)" "fs_get demo_received [''o'', ''d''] = None"
    "fs_get demo_received [''o''] = Some (Dir 493)" "plain_comps [''d'']" "fs_depth demo_received < 9" by code_simp+
  have pl: "placed demo_received [''o'', ''d'']"
    using placed_snoc [of demo_received "[''o'']" "''d''"] ok_placed [OF ok got(3)] got(3,4) by simp
  have deep: "fs_depth demo_received < gb_depth demo_grab_env" using got(5) by (simp add: demo_grab_env_def)
  obtain h where h: "deliver demo_grab_env demo_received (abs_path demo_tmp) (abs_path [''o'', ''d'']) = Some (h, None)"
    using deliver_placed [OF ok got(1) _ pl got(2) host(12,13) deep] by auto
  have "finish_grab demo_grab_env (g_settings demo_client) ?c (abs_path demo_tmp) (abs_path [''o'', ''d'']) True demo_received = Some (h, None)"
    using ck h by (simp add: finish_grab_def demo_client_facts)
  then obtain w3 where w3: "grab_with_sha256_checksum demo_grab_env demo_client ?raw (abs_path [''o'', ''d'']) ''2A'' ?w = Some (w3, None)"
    using mk dl demo_client_facts(3) plain
    by (simp add: grab_with_sha256_checksum_def grab_def Let_def with_fs_def)
  have settings: "\<not> enable_auto_extract (g_settings demo_client)" "max_bytes (g_settings demo_client) < max_int64"
    by (simp_all add: demo_client_facts demo_default_def default_settings_def default_max_bytes_def max_int64_def)
  have depth: "length demo_tmp + 1 + fs_depth (sys_fs ?w) < gb_depth demo_grab_env"
    by (simp add: demo_host_def fs_depth_def demo_grab_env_def)
  obtain name where "fs_get (sys_fs w3) ([''o'', ''d''] @ [name]) = Some (Regular 438 ''data'')"
    using https_file_delivered [OF url demo_client_facts(1) settings demo_client_facts(3) tree host(7-10) host(12,13) depth w3]
    by (auto simp: demo_env_all_def demo_http_def response_body_def)
  then show ?thesis using w3 by auto
qed

end
