(* ===== verification/Unpack.thy ===== *)
theory Unpack
  imports Extract Layout
begin

text \<open>
  What extraction makes of an archive that is in order: every directory and file it lists, where its
  name leads, with its mode and its content, and nothing else.  The archive is laid out as a list of
  items (\<^verbatim>\<open>Layout\<close>), for all archive formats of \<^verbatim>\<open>extract/extract.go\<close> at once through the description of
  what they hold (\<open>archive_contents\<close>).
\<close>

section \<open>Members as items\<close>

definition archive_extensions :: "string list" where
  "archive_extensions = [''tar'', ''tar.gz'', ''tgz'', ''tar.bz2'', ''tbz2'', ''tar.xz'', ''txz'', ''tar.zst'', ''tzst'', ''tar.lz4'', ''zip'']"

fun member_item :: "fpath \<Rightarrow> member \<Rightarrow> item option" where
  "member_item root (Directory n m) = Some (Dir_At (target_of root n) (unat (safe_mode m)))"
| "member_item root (Content n m (Inr r)) = Some (File_At (target_of root n) (unat (safe_mode m)) (rd_data r))"
| "member_item root x = None"

definition items_of :: "fpath \<Rightarrow> member list \<Rightarrow> item list" where
  "items_of root ms = List.map_filter (member_item root) ms"

text \<open>A member that leads to the root or below and whose content can be read to its end.\<close>

definition sound_member :: "fpath \<Rightarrow> member \<Rightarrow> bool" where
  "sound_member root x \<longleftrightarrow>
     prefix root (target_of root (member_name x)) \<and>
     (case x of Content _ _ (Inl _) \<Rightarrow> False | Content _ _ (Inr r) \<Rightarrow> rd_end r = None | _ \<Rightarrow> True)"

section \<open>Laying out\<close>

lemma mkdir_step_lays:
  assumes "fs_ok f" and "fits (fs_get f) (Dir_At q (unat m))"
  shows "\<exists>g. mkdir_step e f (abs_path q) m = (e, g, None) \<and> fs_ok g \<and> fs_get g = lay (fs_get f) (Dir_At q (unat m))"
proof -
  obtain g where "mkdir_all f (abs_path q) (unat m) = (g, None)" "fs_ok g" "fs_get g = with_dirs (fs_get f) q (unat m)"
    using mkdir_all_deep [OF assms(1)] assms(2) by auto
  then show ?thesis by (simp add: mkdir_step_def)
qed

lemma write_file_lays:
  assumes "fs_ok f" and "fits (fs_get f) (File_At q (unat m) (rd_data r))" and "rd_end r = None" and "disk q = None"
    and "\<not> ex_limited e"
  shows "\<exists>g. and_then (mkdir_step e f (path_dir (abs_path q)) 0x1ED) (\<lambda>e g. extract_write_file disk e g (abs_path q) r m) =
      (e, g, None) \<and> fs_ok g \<and> fs_get g = lay (fs_get f) (File_At q (unat m) (rd_data r))"
proof -
  let ?k = "mode_at (fs_get f) q (unat m)"
  have q: "q \<noteq> []" using assms(2) by simp
  obtain g where g: "mkdir_all f (path_dir (abs_path q)) 493 = (g, None)"
    "open_create g (abs_path q) (unat m) = (fs_set g q (Regular ?k []), Inr q)"
    "fs_ok (fs_set g q (Regular ?k (rd_data r)))"
    "fs_get (fs_set g q (Regular ?k (rd_data r))) = lay (fs_get f) (File_At q (unat m) (rd_data r))"
    using file_deep [OF assms(1,2)] .
  have "unat (0x1ED :: file_mode) = 493" by simp
  then show ?thesis
    using g assms(3-5) q
    by (simp add: mkdir_step_def and_then_def extract_write_file_def io_copy_def write_created del: lay.simps)
qed

lemma member_lays:
  assumes "fs_ok f" and "plain_comps root" and "root \<noteq> []" and "sound_member root x"
    and "\<And>i. member_item root x = Some i \<Longrightarrow> fits (fs_get f) i"
    and "\<forall>q. disk q = None" and "\<not> ex_limited e"
  shows "\<exists>g. unpack_member fmt disk e f (abs_path root) x = (e, g, None) \<and> fs_ok g \<and>
    fs_get g = (case member_item root x of None \<Rightarrow> fs_get f | Some i \<Rightarrow> lay (fs_get f) i)"
proof -
  let ?q = "target_of root (member_name x)"
  have join: "safe_join (abs_path root) (member_name x) = Inr (abs_path ?q)"
    using safe_join_inside [OF assms(2,3)] assms(4) by (simp add: sound_member_def)
  show ?thesis
  proof (cases x)
    case (Directory n m)
    then show ?thesis
      using join mkdir_step_lays [OF assms(1), of ?q "safe_mode m" e] assms(5) by (simp add: unpack_member_def)
  next
    case (Content n m body)
    then obtain r where r: "body = Inr r" "rd_end r = None" using assms(4) by (cases body) (auto simp: sound_member_def)
    then show ?thesis
      using join Content write_file_lays [OF assms(1) _ r(2) _ assms(7), of ?q "safe_mode m" disk] assms(6) assms(5)
      by (simp add: unpack_member_def)
  next
    case (Passed_Over n)
    then show ?thesis using join assms(1) by (simp add: unpack_member_def)
  qed
qed

lemma unpack_lays:
  assumes "plain_comps root" and "root \<noteq> []" and "\<forall>q. disk q = None" and "\<not> ex_limited e"
  shows "fs_ok f \<Longrightarrow> \<forall>x\<in>set ms. sound_member root x \<Longrightarrow> all_fit (fs_get f) (items_of root ms) \<Longrightarrow>
    \<exists>g. unpack fmt disk e f (abs_path root) ms fin = (e, g, fin) \<and> fs_get g = foldl lay (fs_get f) (items_of root ms)"
proof (induction ms arbitrary: f)
  case Nil
  then show ?case by (simp add: items_of_def)
next
  case (Cons x ms)
  have items: "items_of root (x # ms) = (case member_item root x of None \<Rightarrow> items_of root ms | Some i \<Rightarrow> i # items_of root ms)"
    by (simp add: items_of_def split: option.split)
  obtain g where g: "unpack_member fmt disk e f (abs_path root) x = (e, g, None)" "fs_ok g"
    "fs_get g = (case member_item root x of None \<Rightarrow> fs_get f | Some i \<Rightarrow> lay (fs_get f) i)"
    using member_lays [OF Cons.prems(1) assms(1,2) _ _ assms(3,4), of x fmt] Cons.prems(2,3) items by (auto split: option.splits)
  have "all_fit (fs_get g) (items_of root ms)" using Cons.prems(3) g(3) items by (auto split: option.splits)
  then obtain h where "unpack fmt disk e g (abs_path root) ms fin = (e, h, fin)" "fs_get h = foldl lay (fs_get g) (items_of root ms)"
    using Cons.IH [OF g(2)] Cons.prems(2) by auto
  then show ?case using g(1,3) items by (auto simp: and_then_def split: option.splits)
qed

section \<open>Properties\<close>

text \<open>
  C40. An archive that is in order is extracted whole.  If the archive can be listed to its end, each
  member leads to the destination or below and can be read, nothing stands in the way of any of
  them, and the content keeps within the limit (or there is none), then extraction succeeds and
  the disk is as it was with the archive laid out on it: every directory and file of the archive
  where its name leads, in the order of the archive, with its mode and its whole content, the
  missing directories above them, and nothing else.
\<close>

theorem archive_laid_out:
  assumes "fs_ok f" and "plain_comps root" and "root \<noteq> []" and "\<And>q. disk q = None"
    and "detect_extension src \<in> set archive_extensions" and "fs_read f src = Inr data"
    and "archive_contents cd (detect_extension src) data = Inr (fmt, ms, None)"
    and "\<forall>x\<in>set ms. sound_member root x" and "all_fit (fs_get f) (items_of root ms)"
    and "max_bytes \<le> 0 \<or> sum_list (map member_bytes ms) \<le> max_bytes \<and> max_bytes < max_int64"
  shows "\<exists>g. extract_with_limit cd disk f src (abs_path root) max_bytes = (g, True, None) \<and>
    fs_get g = foldl lay (fs_get f) (items_of root ms)"
proof -
  let ?u = "\<lparr>ex_remaining = max_bytes, ex_limited = False\<rparr>" and ?e = "\<lparr>ex_remaining = max_bytes, ex_limited = 0 < max_bytes\<rparr>"
  let ?run = "\<lambda>e. extractor_spec cd disk (detect_extension src) e f src (abs_path root)"
  have no_single: "detect_extension src \<notin> set single_extensions"
    using assms(5) by (auto simp: archive_extensions_def single_extensions_def)
  obtain fn where fn: "map_of (extractors cd disk) (detect_extension src) = Some fn"
    using assms(5) by (auto simp: archive_extensions_def extractors_def)
  obtain g where g: "unpack fmt disk ?u f (abs_path root) ms None = (?u, g, None)" "fs_get g = foldl lay (fs_get f) (items_of root ms)"
    using unpack_lays [where disk = disk and e = ?u and fmt = fmt and fin = None, OF assms(2,3) _ _ assms(1,8,9)] assms(4) by auto
  have run: "?run e = unpack fmt disk e f (abs_path root) ms None" for e
    using assms(6,7) no_single by (simp add: extractor_spec_def)
  have "snd (?run ?e) = snd (?run ?u)"
  proof (cases "0 < max_bytes")
    case True
    then have "budget_ok ?e" using assms(10) by (simp add: budget_ok_def)
    moreover have "unpacked_bytes cd f src \<le> max_bytes" using True assms(6,7,10) no_single by (simp add: unpacked_bytes_def)
    ultimately show ?thesis by (intro extractor_unlimited) simp_all
  qed simp
  then have "snd (?run ?e) = (g, None)" using run g(1) by simp
  then show ?thesis
    using g(2) by (cases "?run ?e") (simp add: extract_with_limit_def fn extractors_spec [OF fn])
qed

text \<open>A tarball with a directory, a file in it and one that climbs inside the destination, on a disk without it.\<close>

definition demo_parcel :: "tar_entry list" where
  "demo_parcel =
     [\<lparr>te_name = ''d/'', te_type = TypeDir, te_mode = 0x1C0, te_body = file_reader []\<rparr>,
      \<lparr>te_name = ''d/f'', te_type = TypeReg, te_mode = 0x9ED, te_body = file_reader ''hello''\<rparr>,
      \<lparr>te_name = ''d/../e/g'', te_type = TypeReg, te_mode = 0x1A4, te_body = file_reader ''bye''\<rparr>]"

definition demo_parcel_codecs :: codecs where
  "demo_parcel_codecs = demo_codecs\<lparr>tar_reader := \<lambda>r. (demo_parcel, None)\<rparr>"

theorem archive_laid_out_witness:
  "case extract_with_limit demo_parcel_codecs (\<lambda>_. None) demo_fs ''/a/x.tar'' ''/out'' 100 of
     (g, ok, err) \<Rightarrow> ok \<and> err = None \<and> fs_get g [''out''] = Some (Dir 448) \<and> fs_get g [''out'', ''d''] = Some (Dir 448) \<and>
       fs_get g [''out'', ''d'', ''f''] = Some (Regular 493 ''hello'') \<and> fs_get g [''out'', ''e''] = Some (Dir 493) \<and>
       fs_get g [''out'', ''e'', ''g''] = Some (Regular 420 ''bye'')"
proof -
  let ?ms = "map tar_member demo_parcel"
  have "plain_comps [''a'', ''x.tar'']" "plain_comps [''a'', ''...gz'']" by code_simp+
  then have ok: "fs_ok demo_fs" by (auto simp: fs_ok_def demo_fs_def fs_get_def plain_comps_def split: if_splits)
  have f: "plain_comps [''out'']" "abs_path [''out''] = ''/out''" "detect_extension ''/a/x.tar'' \<in> set archive_extensions"
    "fs_read demo_fs ''/a/x.tar'' = Inr ''t''"
    "archive_contents demo_parcel_codecs (detect_extension ''/a/x.tar'') ''t'' = Inr (''tar entry: %w'', ?ms, None)"
    "\<forall>x\<in>set ?ms. sound_member [''out''] x" "all_fit (fs_get demo_fs) (items_of [''out''] ?ms)"
    "sum_list (map member_bytes ?ms) \<le> 100" "(100 :: int) < max_int64"
    by code_simp+
  obtain g where "extract_with_limit demo_parcel_codecs (\<lambda>_. None) demo_fs ''/a/x.tar'' (abs_path [''out'']) 100 = (g, True, None)"
    "fs_get g = foldl lay (fs_get demo_fs) (items_of [''out''] ?ms)"
    using archive_laid_out [where max_bytes = 100 and disk = "\<lambda>_. None", OF ok f(1) _ _ f(3-7)] f(8,9) by auto
  moreover have "map (foldl lay (fs_get demo_fs) (items_of [''out''] ?ms))
      [[''out''], [''out'', ''d''], [''out'', ''d'', ''f''], [''out'', ''e''], [''out'', ''e'', ''g'']] =
    [Some (Dir 448), Some (Dir 448), Some (Regular 493 ''hello''), Some (Dir 493), Some (Regular 420 ''bye'')]"
    by code_simp
  ultimately show ?thesis using f(2) by simp
qed

end
