(* ===== verification/Lookup_Cache.thy ===== *)
theory Lookup_Cache
  imports Ssrf_Proxied
begin

text \<open>
  \<^verbatim>\<open>ssrf/lookupcache.go\<close>: the shared cache of name lookups behind the proxied check.  The mutex
  makes each critical section atomic, so the concurrent program is the step relation \<open>cstep\<close>
  whose labels are the critical sections (\<open>Enter\<close>, \<open>Store\<close>), the resolver's answer (\<open>Answer\<close>),
  the closing of the \<^verbatim>\<open>done\<close> channel, a waiter's receive, a waiter that gives up, and the clock.
  Times are \<^verbatim>\<open>time.Duration\<close>s, in nanoseconds.
\<close>

section \<open>The cache\<close>

record lookup_result =
  answer :: "ip list result"
  expires :: int

text \<open>A shared call runs, has its result, has stored it, and has closed its channel.\<close>

datatype phase = Running | Resolved lookup_result | Stored lookup_result | Closed lookup_result

record lookup_call =
  call_host :: string
  call_phase :: phase

record lookup_cache =
  entries :: "(string \<times> lookup_result) list"
  inflight :: "(string \<times> nat) list"
  calls :: "lookup_call list"

definition lookup_cache_ttl :: int where
  "lookup_cache_ttl = 30 * 10 ^ 9"

definition lookup_error_ttl :: int where
  "lookup_error_ttl = 5 * 10 ^ 9"

definition lookup_cache_max :: nat where
  "lookup_cache_max = 1024"

definition empty_cache :: lookup_cache where
  "empty_cache = \<lparr>entries = [], inflight = [], calls = []\<rparr>"

definition cache_reset :: "lookup_cache \<Rightarrow> lookup_cache" where
  "cache_reset c = c\<lparr>entries := [], inflight := []\<rparr>"

text \<open>
  The critical section of \<^verbatim>\<open>lookup\<close>: a live entry is returned, otherwise the caller waits on
  the call in flight for the host, starting one if there is none.
\<close>

definition lookup_enter :: "int \<Rightarrow> string \<Rightarrow> lookup_cache \<Rightarrow> lookup_cache \<times> (ip list result + nat)" where
  "lookup_enter now host c =
     (let join = (case map_of (inflight c) host of
          Some i \<Rightarrow> (c, Inr i)
        | None \<Rightarrow>
            (c\<lparr>inflight := map_put host (length (calls c)) (inflight c),
               calls := calls c @ [\<lparr>call_host = host, call_phase = Running\<rparr>]\<rparr>,
             Inr (length (calls c))))
      in case map_of (entries c) host of
           Some r \<Rightarrow> if now < expires r then (c, Inl (answer r)) else join
         | None \<Rightarrow> join)"

definition ttl_of :: "ip list result \<Rightarrow> int" where
  "ttl_of res = (case res of
     Inl err \<Rightarrow> if \<not> is_not_found err then lookup_error_ttl else lookup_cache_ttl
   | Inr _ \<Rightarrow> lookup_cache_ttl)"

definition run_answer :: "int \<Rightarrow> ip list result \<Rightarrow> lookup_result" where
  "run_answer now res = \<lparr>answer = res, expires = now + ttl_of res\<rparr>"

definition set_phase :: "nat \<Rightarrow> phase \<Rightarrow> lookup_cache \<Rightarrow> lookup_cache" where
  "set_phase i p c = c\<lparr>calls := (calls c)[i := (calls c ! i)\<lparr>call_phase := p\<rparr>]\<rparr>"

text \<open>The critical section of \<^verbatim>\<open>run\<close>.\<close>

definition run_store :: "string \<Rightarrow> lookup_result \<Rightarrow> lookup_cache \<Rightarrow> lookup_cache" where
  "run_store host res c =
     (let es = (if lookup_cache_max \<le> length (entries c) then [] else entries c)
      in c\<lparr>entries := map_put host res es, inflight := map_delete host (inflight c)\<rparr>)"

section \<open>Executions\<close>

datatype event =
    Tick int
  | Enter string "ip list result + nat"
  | Answer nat string "ip list result"
  | Store nat
  | Close nat
  | Receive nat "ip list result"
  | GiveUp

record world =
  clock :: int
  shared :: lookup_cache

inductive cstep :: "world \<Rightarrow> event \<Rightarrow> world \<Rightarrow> bool" where
  s_tick: "0 \<le> d \<Longrightarrow> cstep w (Tick d) (w\<lparr>clock := clock w + d\<rparr>)"
| s_enter: "lookup_enter (clock w) host (shared w) = (c', out) \<Longrightarrow>
    cstep w (Enter host out) (w\<lparr>shared := c'\<rparr>)"
| s_answer: "i < length (calls (shared w)) \<Longrightarrow> call_phase (calls (shared w) ! i) = Running \<Longrightarrow>
    cstep w (Answer i (call_host (calls (shared w) ! i)) res)
      (w\<lparr>shared := set_phase i (Resolved (run_answer (clock w) res)) (shared w)\<rparr>)"
| s_store: "i < length (calls (shared w)) \<Longrightarrow> call_phase (calls (shared w) ! i) = Resolved r \<Longrightarrow>
    cstep w (Store i)
      (w\<lparr>shared := set_phase i (Stored r) (run_store (call_host (calls (shared w) ! i)) r (shared w))\<rparr>)"
| s_close: "i < length (calls (shared w)) \<Longrightarrow> call_phase (calls (shared w) ! i) = Stored r \<Longrightarrow>
    cstep w (Close i) (w\<lparr>shared := set_phase i (Closed r) (shared w)\<rparr>)"
| s_receive: "i < length (calls (shared w)) \<Longrightarrow> call_phase (calls (shared w) ! i) = Closed r \<Longrightarrow>
    cstep w (Receive i (answer r)) w"
| s_give_up: "cstep w GiveUp w"

inductive_cases cstep_cases: "cstep w e w'"
inductive_cases cstep_EnterE: "cstep w (Enter host out) w'"
inductive_cases cstep_ReceiveE: "cstep w (Receive i res) w'"

text \<open>\<open>runs tr w\<close>: the events \<open>tr\<close>, each with its time, lead from the empty cache to \<open>w\<close>.\<close>

inductive runs :: "(int \<times> event) list \<Rightarrow> world \<Rightarrow> bool" where
  start: "runs [] \<lparr>clock = t0, shared = empty_cache\<rparr>"
| extend: "runs tr w \<Longrightarrow> cstep w e w' \<Longrightarrow> runs (tr @ [(clock w, e)]) w'"

section \<open>Invariant\<close>

text \<open>The resolver gave the result for this host, and its lifetime counts from that moment.\<close>

definition given :: "(int \<times> event) list \<Rightarrow> int \<Rightarrow> string \<Rightarrow> lookup_result \<Rightarrow> bool" where
  "given tr now host r \<longleftrightarrow>
     (\<exists>t i. (t, Answer i host (answer r)) \<in> set tr \<and> expires r = t + ttl_of (answer r) \<and> t \<le> now)"

definition phase_result :: "phase \<Rightarrow> lookup_result option" where
  "phase_result p = (case p of Running \<Rightarrow> None | Resolved r \<Rightarrow> Some r | Stored r \<Rightarrow> Some r | Closed r \<Rightarrow> Some r)"

definition pending :: "phase \<Rightarrow> bool" where
  "pending p = (case p of Running \<Rightarrow> True | Resolved _ \<Rightarrow> True | _ \<Rightarrow> False)"

lemma pending_simps [simp]:
  "pending Running" "pending (Resolved r)" "\<not> pending (Stored r)" "\<not> pending (Closed r)"
  by (simp_all add: pending_def)

definition entries_ok :: "(int \<times> event) list \<Rightarrow> world \<Rightarrow> bool" where
  "entries_ok tr w \<longleftrightarrow>
     distinct (map fst (entries (shared w))) \<and> length (entries (shared w)) \<le> lookup_cache_max \<and>
     (\<forall>(h, r)\<in>set (entries (shared w)). given tr (clock w) h r)"

definition calls_ok :: "(int \<times> event) list \<Rightarrow> world \<Rightarrow> bool" where
  "calls_ok tr w \<longleftrightarrow>
     (\<forall>i<length (calls (shared w)). \<forall>r. phase_result (call_phase (calls (shared w) ! i)) = Some r \<longrightarrow>
        given tr (clock w) (call_host (calls (shared w) ! i)) r)"

definition flight_ok :: "lookup_cache \<Rightarrow> bool" where
  "flight_ok c \<longleftrightarrow>
     (\<forall>h i. map_of (inflight c) h = Some i \<longleftrightarrow>
        i < length (calls c) \<and> call_host (calls c ! i) = h \<and> pending (call_phase (calls c ! i)))"

definition joins_ok :: "(int \<times> event) list \<Rightarrow> lookup_cache \<Rightarrow> bool" where
  "joins_ok tr c \<longleftrightarrow>
     (\<forall>t h i. (t, Enter h (Inr i)) \<in> set tr \<longrightarrow> i < length (calls c) \<and> call_host (calls c ! i) = h)"

lemma given_mono:
  "given tr now h r \<Longrightarrow> now \<le> now' \<Longrightarrow> set tr \<subseteq> set tr' \<Longrightarrow> given tr' now' h r"
  unfolding given_def by (meson order_trans subsetD)

lemma set_phase_calls [simp]:
  "entries (set_phase i p c) = entries c" "inflight (set_phase i p c) = inflight c"
  "length (calls (set_phase i p c)) = length (calls c)"
  by (simp_all add: set_phase_def)

lemma set_phase_nth:
  "i < length (calls c) \<Longrightarrow> calls (set_phase i p c) ! j =
     (if j = i then (calls c ! i)\<lparr>call_phase := p\<rparr> else calls c ! j)"
  by (simp add: set_phase_def nth_list_update)

lemma lookup_enter_cases:
  assumes "lookup_enter now h c = (c', out)"
  obtains (hit) r where "map_of (entries c) h = Some r" "now < expires r" "c' = c" "out = Inl (answer r)"
    | (join) i where "map_of (inflight c) h = Some i" "c' = c" "out = Inr i"
    | (call) "map_of (inflight c) h = None" "out = Inr (length (calls c))"
        "c' = c\<lparr>inflight := map_put h (length (calls c)) (inflight c),
                calls := calls c @ [\<lparr>call_host = h, call_phase = Running\<rparr>]\<rparr>"
proof (cases "\<exists>r. map_of (entries c) h = Some r \<and> now < expires r")
  case True
  then obtain r where "map_of (entries c) h = Some r" "now < expires r" by blast
  then show ?thesis using assms by (intro hit) (auto simp: lookup_enter_def)
next
  case False
  show ?thesis
  proof (cases "map_of (inflight c) h")
    case None
    have "(c', out) = (c\<lparr>inflight := map_put h (length (calls c)) (inflight c),
        calls := calls c @ [\<lparr>call_host = h, call_phase = Running\<rparr>]\<rparr>, Inr (length (calls c)))"
      using False None assms by (auto simp: lookup_enter_def Let_def split: option.splits)
    then show ?thesis using None by (intro call) simp_all
  next
    case (Some i)
    have "(c', out) = (c, Inr i)"
      using False Some assms by (auto simp: lookup_enter_def Let_def split: option.splits)
    then show ?thesis using Some by (intro join) simp_all
  qed
qed

lemma run_store_simps [simp]:
  "calls (run_store h r c) = calls c" "inflight (run_store h r c) = map_delete h (inflight c)"
  by (simp_all add: run_store_def Let_def)

lemma cstep_clock: "cstep w e w' \<Longrightarrow> clock w \<le> clock w'"
  by (erule cstep_cases) auto

lemma entries_ok_step:
  assumes ok: "entries_ok tr w" "calls_ok tr w" and s: "cstep w e w'"
  shows "entries_ok (tr @ [(clock w, e)]) w'"
proof -
  have mono: "given tr (clock w) h r \<Longrightarrow> given (tr @ [(clock w, e)]) (clock w') h r" for h r
    using given_mono [of tr "clock w" h r "clock w'" "tr @ [(clock w, e)]"] cstep_clock [OF s] by auto
  show ?thesis
  proof (cases "\<exists>i r. e = Store i \<and> i < length (calls (shared w)) \<and>
      call_phase (calls (shared w) ! i) = Resolved r \<and> clock w' = clock w \<and>
      entries (shared w') = entries (run_store (call_host (calls (shared w) ! i)) r (shared w))")
    case True
    then obtain i r where i: "i < length (calls (shared w))" "call_phase (calls (shared w) ! i) = Resolved r"
      and e: "entries (shared w') = entries (run_store (call_host (calls (shared w) ! i)) r (shared w))"
      by blast
    have g: "given tr (clock w) (call_host (calls (shared w) ! i)) r"
      using ok(2) i by (simp add: calls_ok_def phase_result_def)
    let ?es = "if lookup_cache_max \<le> length (entries (shared w)) then [] else entries (shared w)"
    have es: "entries (shared w') = map_put (call_host (calls (shared w) ! i)) r ?es"
      by (simp add: e run_store_def)
    have d: "distinct (map fst ?es)" and l: "length ?es < lookup_cache_max"
      and all: "\<forall>(h, r)\<in>set ?es. given tr (clock w) h r"
      using ok(1) by (auto simp: entries_ok_def lookup_cache_max_def)
    show ?thesis unfolding entries_ok_def es
      using distinct_map_put [OF d] length_map_put [of _ r ?es] l mono g all
        set_map_put [of "call_host (calls (shared w) ! i)" r ?es]
      by (fastforce intro: order_trans)
  next
    case False
    then have "entries (shared w') = entries (shared w)"
      using s by (auto elim!: cstep_cases lookup_enter_cases)
    then show ?thesis using ok(1) mono by (fastforce simp: entries_ok_def)
  qed
qed

lemma calls_ok_step:
  assumes ok: "calls_ok tr w" and s: "cstep w e w'"
  shows "calls_ok (tr @ [(clock w, e)]) w'"
proof -
  have mono: "given tr (clock w) h r \<Longrightarrow> given (tr @ [(clock w, e)]) (clock w') h r" for h r
    using given_mono [of tr "clock w" h r "clock w'" "tr @ [(clock w, e)]"] cstep_clock [OF s] by auto
  note ok' = ok [unfolded calls_ok_def, rule_format]
  show ?thesis
    using s
  proof cases
    case (s_enter h c' out)
    then show ?thesis
      using ok' mono by (auto simp: calls_ok_def phase_result_def nth_append elim!: lookup_enter_cases)
  next
    case (s_answer i res)
    have "given (tr @ [(clock w, e)]) (clock w) (call_host (calls (shared w) ! i))
        (run_answer (clock w) res)"
      unfolding given_def s_answer(1) run_answer_def by auto
    then show ?thesis
      using ok' mono s_answer by (auto simp: calls_ok_def set_phase_nth phase_result_def)
  next
    case (s_store i r)
    then show ?thesis
      using ok' mono by (auto simp: calls_ok_def set_phase_nth phase_result_def)
  next
    case (s_close i r)
    then show ?thesis
      using ok' mono by (auto simp: calls_ok_def set_phase_nth phase_result_def)
  qed (use ok' mono in \<open>auto simp: calls_ok_def\<close>)
qed

lemma flight_ok_step:
  assumes ok: "flight_ok (shared w)" and s: "cstep w e w'"
  shows "flight_ok (shared w')"
proof -
  note ok' = ok [unfolded flight_ok_def, rule_format]
  show ?thesis
    using s
  proof cases
    case (s_enter h c' out)
    from s_enter(3) show ?thesis
    proof (cases rule: lookup_enter_cases)
      case call
      have "\<not> pending (call_phase (calls (shared w) ! i))"
        if "i < length (calls (shared w))" "call_host (calls (shared w) ! i) = h" for i
        using call(1) ok' [of h i] that by simp
      then show ?thesis
        unfolding s_enter(2) call(3) flight_ok_def using ok' by (auto simp: nth_append less_Suc_eq)
    qed (use ok s_enter in simp_all)
  next
    case (s_answer i res)
    then show ?thesis using ok' by (auto simp: flight_ok_def set_phase_nth)
  next
    case (s_store i r)
    have mi: "map_of (inflight (shared w)) (call_host (calls (shared w) ! i)) = Some i"
      using s_store ok' by simp
    have uniq: "j = i" if "j < length (calls (shared w))" "pending (call_phase (calls (shared w) ! j))"
        "call_host (calls (shared w) ! j) = call_host (calls (shared w) ! i)" for j
    proof -
      have "map_of (inflight (shared w)) (call_host (calls (shared w) ! i)) = Some j"
        unfolding ok' by (intro conjI that)
      with mi show ?thesis by simp
    qed
    have "map_of (inflight (shared w')) h = Some j \<longleftrightarrow> j < length (calls (shared w')) \<and>
        call_host (calls (shared w') ! j) = h \<and> pending (call_phase (calls (shared w') ! j))" for h j
      using uniq [of j] ok' [of h j] by (auto simp: s_store(2,3) set_phase_nth)
    then show ?thesis by (simp add: flight_ok_def)
  next
    case (s_close i r)
    then show ?thesis using ok' by (auto simp: flight_ok_def set_phase_nth)
  qed (use ok in auto)
qed

lemma joins_ok_step:
  assumes fl: "flight_ok (shared w)" and ok: "joins_ok tr (shared w)" and s: "cstep w e w'"
  shows "joins_ok (tr @ [(clock w, e)]) (shared w')"
proof -
  note ok' = ok [unfolded joins_ok_def, rule_format] and fl' = fl [unfolded flight_ok_def, rule_format]
  show ?thesis
    using s
  proof cases
    case (s_enter h c' out)
    then show ?thesis
      using fl' by (auto simp: joins_ok_def nth_append intro: less_SucI elim!: lookup_enter_cases dest!: ok')
  qed (use ok' in \<open>auto simp: joins_ok_def set_phase_nth\<close>)
qed

lemma runs_invariant:
  "runs tr w \<Longrightarrow> entries_ok tr w \<and> calls_ok tr w \<and> flight_ok (shared w) \<and> joins_ok tr (shared w)"
proof (induction rule: runs.induct)
  case (start t0)
  show ?case
    by (simp add: entries_ok_def calls_ok_def flight_ok_def joins_ok_def empty_cache_def)
next
  case (extend tr w e w')
  then show ?case
    using entries_ok_step calls_ok_step flight_ok_step joins_ok_step by blast
qed

text \<open>One complete lookup, for the witnesses.\<close>

definition demo_world :: world where
  "demo_world = \<lparr>clock = 0, shared = \<lparr>
     entries = [(''h'', \<lparr>answer = Inr [[8, 8, 8, 8]], expires = lookup_cache_ttl\<rparr>)], inflight = [],
     calls = [\<lparr>call_host = ''h'',
       call_phase = Closed \<lparr>answer = Inr [[8, 8, 8, 8]], expires = lookup_cache_ttl\<rparr>\<rparr>]\<rparr>\<rparr>"

definition demo_trace :: "(int \<times> event) list" where
  "demo_trace = [(0, Enter ''h'' (Inr 0)), (0, Answer 0 ''h'' (Inr [[8, 8, 8, 8]])), (0, Store 0), (0, Close 0)]"

lemma demo_run: "runs demo_trace demo_world"
proof -
  let ?r = "\<lparr>answer = Inr [[8, 8, 8, 8]], expires = lookup_cache_ttl\<rparr>"
  let ?w = "\<lambda>e f p. \<lparr>clock = 0, shared = \<lparr>entries = e, inflight = f, calls = [\<lparr>call_host = ''h'', call_phase = p\<rparr>]\<rparr>\<rparr>"
  note eval = empty_cache_def lookup_enter_def map_put_def map_delete_def set_phase_def run_answer_def
    run_store_def ttl_of_def lookup_cache_max_def
  have "runs [] \<lparr>clock = 0, shared = empty_cache\<rparr>" by (rule start)
  moreover have "cstep \<lparr>clock = 0, shared = empty_cache\<rparr> (Enter ''h'' (Inr 0)) (?w [] [(''h'', 0)] Running)"
    using s_enter [of "\<lparr>clock = 0, shared = empty_cache\<rparr>" "''h''"] by (simp add: eval)
  ultimately have "runs [(0, Enter ''h'' (Inr 0))] (?w [] [(''h'', 0)] Running)"
    by (auto dest: extend)
  moreover have "cstep (?w [] [(''h'', 0)] Running) (Answer 0 ''h'' (Inr [[8, 8, 8, 8]]))
      (?w [] [(''h'', 0)] (Resolved ?r))"
    using s_answer [of 0 "?w [] [(''h'', 0)] Running" "Inr [[8, 8, 8, 8]]"] by (simp add: eval)
  ultimately have "runs [(0, Enter ''h'' (Inr 0)), (0, Answer 0 ''h'' (Inr [[8, 8, 8, 8]]))]
      (?w [] [(''h'', 0)] (Resolved ?r))" by (auto dest: extend)
  moreover have "cstep (?w [] [(''h'', 0)] (Resolved ?r)) (Store 0) (?w [(''h'', ?r)] [] (Stored ?r))"
    using s_store [of 0 "?w [] [(''h'', 0)] (Resolved ?r)"] by (simp add: eval)
  ultimately have "runs [(0, Enter ''h'' (Inr 0)), (0, Answer 0 ''h'' (Inr [[8, 8, 8, 8]])), (0, Store 0)]
      (?w [(''h'', ?r)] [] (Stored ?r))" by (auto dest: extend)
  moreover have "cstep (?w [(''h'', ?r)] [] (Stored ?r)) (Close 0) demo_world"
    using s_close [of 0 "?w [(''h'', ?r)] [] (Stored ?r)"] by (simp add: eval demo_world_def)
  ultimately show ?thesis by (auto simp: demo_trace_def dest: extend)
qed

lemma demo_hit: "cstep demo_world (Enter ''h'' (Inl (Inr [[8, 8, 8, 8]]))) demo_world"
  using s_enter [of demo_world "''h''"]
  by (simp add: demo_world_def lookup_enter_def lookup_cache_ttl_def)

lemma demo_receive: "cstep demo_world (Receive 0 (Inr [[8, 8, 8, 8]])) demo_world"
  using s_receive [of 0 demo_world] by (simp add: demo_world_def)

section \<open>Properties\<close>

text \<open>
  C25. A caller that is answered from the cache gets what the resolver answered for that very host
  less than the lifetime ago: 30 seconds for an answer or an unknown name, 5 seconds for any
  other failure.
\<close>

theorem hit_is_fresh_answer:
  assumes "runs tr w" and "cstep w (Enter host (Inl res)) w'"
  shows "\<exists>t i. (t, Answer i host res) \<in> set tr \<and> t \<le> clock w \<and> clock w < t + ttl_of res"
proof -
  obtain c' where "lookup_enter (clock w) host (shared w) = (c', Inl res)"
    using assms(2) by (auto elim: cstep_EnterE)
  then obtain r where r: "map_of (entries (shared w)) host = Some r" "clock w < expires r" "res = answer r"
    by (auto elim!: lookup_enter_cases)
  have "given tr (clock w) host r"
    using runs_invariant [OF assms(1)] map_of_SomeD [OF r(1)] by (auto simp: entries_ok_def)
  then show ?thesis using r by (auto simp: given_def)
qed

theorem hit_is_fresh_answer_witness:
  "\<exists>t i. (t, Answer i ''h'' (Inr [[8, 8, 8, 8]])) \<in> set demo_trace \<and> t \<le> clock demo_world \<and>
     clock demo_world < t + ttl_of (Inr [[8, 8, 8, 8]])"
  by (rule hit_is_fresh_answer [OF demo_run demo_hit])

text \<open>
  C26. A caller that joined or started a shared call and receives its result gets an answer the
  resolver gave for the host it asked about, however callers and lookups interleave.
\<close>

theorem waiter_gets_own_host:
  assumes "runs tr w" and "(t, Enter host (Inr i)) \<in> set tr" and "cstep w (Receive i res) w'"
  shows "\<exists>t j. (t, Answer j host res) \<in> set tr \<and> t \<le> clock w"
proof -
  obtain r where r: "i < length (calls (shared w))" "call_phase (calls (shared w) ! i) = Closed r"
    "res = answer r"
    using assms(3) by (auto elim: cstep_ReceiveE)
  have "call_host (calls (shared w) ! i) = host"
    using runs_invariant [OF assms(1)] assms(2) by (auto simp: joins_ok_def)
  moreover have "given tr (clock w) (call_host (calls (shared w) ! i)) r"
    using runs_invariant [OF assms(1)] r by (simp add: calls_ok_def phase_result_def)
  ultimately show ?thesis using r by (auto simp: given_def)
qed

theorem waiter_gets_own_host_witness:
  "\<exists>t j. (t, Answer j ''h'' (Inr [[8, 8, 8, 8]])) \<in> set demo_trace \<and> t \<le> clock demo_world"
  by (rule waiter_gets_own_host [OF demo_run _ demo_receive]) (simp add: demo_trace_def)

text \<open>
  C12. At most one lookup of a host is outstanding, and the cache never holds more than 1024
  names.
\<close>

theorem single_flight_bounded:
  assumes "runs tr w"
  shows "length (entries (shared w)) \<le> 1024 \<and>
    inj_on (\<lambda>i. call_host (calls (shared w) ! i))
      {i. i < length (calls (shared w)) \<and> pending (call_phase (calls (shared w) ! i))}"
proof
  note inv = runs_invariant [OF assms]
  show "length (entries (shared w)) \<le> 1024"
    using inv by (simp add: entries_ok_def lookup_cache_max_def)
  have fl: "map_of (inflight (shared w)) (call_host (calls (shared w) ! i)) = Some i"
    if "i < length (calls (shared w))" "pending (call_phase (calls (shared w) ! i))" for i
    using inv that by (simp add: flight_ok_def)
  show "inj_on (\<lambda>i. call_host (calls (shared w) ! i))
      {i. i < length (calls (shared w)) \<and> pending (call_phase (calls (shared w) ! i))}"
    by (rule inj_on_inverseI [where g = "\<lambda>h. the (map_of (inflight (shared w)) h)"]) (simp add: fl)
qed

theorem single_flight_bounded_witness: "length (entries (shared demo_world)) \<le> 1024"
  using single_flight_bounded [OF demo_run] by blast

end
