(* ===== verification/Test_Certificates.thy ===== *)
theory Test_Certificates
  imports Net_IP
begin

text \<open>
  \<^verbatim>\<open>internal/testcert/testcert.go\<close>: the throwaway certificate authority of the tests.  The
  cryptography is a parameter, \<open>crypto_env\<close>: key generation, signing, parsing and the encoding of
  keys, over a state that holds the source of randomness and the clock.  The PEM encoding, with the
  base64 encoding below it, is that of the standard library.
\<close>

unbundle bit_operations_syntax

section \<open>PEM\<close>

definition base64_chars :: string where
  "base64_chars = ''ABCDEFGHIJKLMNOPQRSTUVWXYZabcdefghijklmnopqrstuvwxyz0123456789+/''"

definition base64_digit :: "nat \<Rightarrow> char" where
  "base64_digit n = base64_chars ! (n mod 64)"

text \<open>\<^verbatim>\<open>base64.StdEncoding\<close>: groups of three bytes, the last one padded.\<close>

fun base64_encode :: "string \<Rightarrow> string" where
  "base64_encode [] = []"
| "base64_encode [a] = [base64_digit (byte a div 4), base64_digit (byte a * 16), CHR ''='', CHR ''='']"
| "base64_encode [a, b] =
     [base64_digit (byte a div 4), base64_digit (byte a * 16 + byte b div 16), base64_digit (byte b * 4), CHR ''='']"
| "base64_encode (a # b # c # s) =
     base64_digit (byte a div 4) # base64_digit (byte a * 16 + byte b div 16) #
     base64_digit (byte b * 4 + byte c div 64) # base64_digit (byte c) # base64_encode s"

text \<open>The line breaker of \<^verbatim>\<open>encoding/pem\<close>: 64 characters to a line.\<close>

function break_lines :: "string \<Rightarrow> string list" where
  "break_lines s = (if s = [] then [] else take 64 s # break_lines (drop 64 s))"
  by auto
termination by (relation "measure length") auto

declare break_lines.simps [simp del]

definition pem_lines :: "string \<Rightarrow> string \<Rightarrow> string list" where
  "pem_lines block_type bytes =
     [''-----BEGIN '' @ block_type @ ''-----''] @ break_lines (base64_encode bytes) @
     [''-----END '' @ block_type @ ''-----'']"

definition pem_encode :: "string \<Rightarrow> string \<Rightarrow> string" where
  "pem_encode block_type bytes = concat (map (\<lambda>l. l @ [CHR 0x0A]) (pem_lines block_type bytes))"

section \<open>Certificates\<close>

datatype ext_key_usage = ExtKeyUsageServerAuth | ExtKeyUsageClientAuth

text \<open>\<^verbatim>\<open>x509.Certificate\<close>, the fields the code sets and the public key; times are in nanoseconds.\<close>

record 'pub certificate =
  ct_serial :: int
  ct_common_name :: string
  ct_not_before :: int
  ct_not_after :: int
  ct_is_ca :: bool
  ct_key_usage :: "64 word"
  ct_ext_key_usage :: "ext_key_usage list"
  ct_constraints_valid :: bool
  ct_ips :: "ip list"
  ct_dns_names :: "string list"
  ct_public_key :: "'pub option"

definition key_usage_digital_signature :: "64 word" where
  "key_usage_digital_signature = 1"

definition key_usage_cert_sign :: "64 word" where
  "key_usage_cert_sign = push_bit 5 1"

definition hour :: int where
  "hour = 3600 * 10 ^ 9"

record ('key, 'pub, 'st) crypto_env =
  ce_generate :: "'st \<Rightarrow> 'st \<times> 'key result"
  ce_public :: "'key \<Rightarrow> 'pub"
  ce_now :: "'st \<Rightarrow> 'st \<times> int"
  ce_create :: "'st \<Rightarrow> 'pub certificate \<Rightarrow> 'pub certificate \<Rightarrow> 'pub \<Rightarrow> 'key \<Rightarrow> 'st \<times> string result"
  ce_parse :: "string \<Rightarrow> 'pub certificate result"
  ce_marshal :: "'key \<Rightarrow> string result"

text \<open>The two calls of \<^verbatim>\<open>time.Now\<close> in every template.\<close>

definition validity :: "('key, 'pub, 'st) crypto_env \<Rightarrow> 'st \<Rightarrow> 'st \<times> int \<times> int" where
  "validity env s =
     (case ce_now env s of (s1, a) \<Rightarrow> case ce_now env s1 of (s2, b) \<Rightarrow> (s2, a - hour, b + 24 * hour))"

record ('key, 'pub) ca =
  ca_pem :: string
  ca_cert :: "'pub certificate"
  ca_key :: 'key

definition new_ca :: "('key, 'pub, 'st) crypto_env \<Rightarrow> 'st \<Rightarrow> 'st \<times> ('key, 'pub) ca result" where
  "new_ca env s =
     (case ce_generate env s of
        (s1, Inl err) \<Rightarrow> (s1, Inl err)
      | (s1, Inr key) \<Rightarrow>
          (case validity env s1 of (s2, before, after) \<Rightarrow>
             let tmpl = \<lparr>ct_serial = 1, ct_common_name = ''grabber test CA'', ct_not_before = before,
                   ct_not_after = after, ct_is_ca = True,
                   ct_key_usage = key_usage_cert_sign OR key_usage_digital_signature,
                   ct_ext_key_usage = [], ct_constraints_valid = True, ct_ips = [], ct_dns_names = [],
                   ct_public_key = None\<rparr>
             in case ce_create env s2 tmpl tmpl (ce_public env key) key of
                  (s3, Inl err) \<Rightarrow> (s3, Inl err)
                | (s3, Inr der) \<Rightarrow>
                    (s3, case ce_parse env der of
                           Inl err \<Rightarrow> Inl err
                         | Inr cert \<Rightarrow>
                             Inr \<lparr>ca_pem = pem_encode ''CERTIFICATE'' der, ca_cert = cert, ca_key = key\<rparr>)))"

definition cert_pem :: "('key, 'pub) ca \<Rightarrow> string" where
  "cert_pem a = ca_pem a"

definition issue ::
  "('key, 'pub, 'st) crypto_env \<Rightarrow> ('key, 'pub) ca \<Rightarrow> 'pub certificate \<Rightarrow> 'st \<Rightarrow> 'st \<times> (string \<times> string) result" where
  "issue env a tmpl s =
     (case ce_generate env s of
        (s1, Inl err) \<Rightarrow> (s1, Inl err)
      | (s1, Inr key) \<Rightarrow>
          (case ce_create env s1 tmpl (ca_cert a) (ce_public env key) (ca_key a) of
             (s2, Inl err) \<Rightarrow> (s2, Inl err)
           | (s2, Inr der) \<Rightarrow>
               (s2, case ce_marshal env key of
                      Inl err \<Rightarrow> Inl err
                    | Inr key_der \<Rightarrow> Inr (pem_encode ''CERTIFICATE'' der, pem_encode ''EC PRIVATE KEY'' key_der))))"

text \<open>The template of a leaf certificate, as both callers of \<open>issue\<close> write it.\<close>

definition leaf_template :: "int \<Rightarrow> string \<Rightarrow> int \<Rightarrow> int \<Rightarrow> ext_key_usage \<Rightarrow> 'pub certificate" where
  "leaf_template serial name before after usage =
     \<lparr>ct_serial = serial, ct_common_name = name, ct_not_before = before, ct_not_after = after,
      ct_is_ca = False, ct_key_usage = key_usage_digital_signature, ct_ext_key_usage = [usage],
      ct_constraints_valid = False, ct_ips = [], ct_dns_names = [], ct_public_key = None\<rparr>"

text \<open>One round of the loop over the hosts.\<close>

definition add_host :: "'pub certificate \<Rightarrow> string \<Rightarrow> 'pub certificate" where
  "add_host tmpl h =
     (if parse_ip h \<noteq> [] then tmpl\<lparr>ct_ips := ct_ips tmpl @ [parse_ip h]\<rparr>
      else tmpl\<lparr>ct_dns_names := ct_dns_names tmpl @ [h]\<rparr>)"

definition issue_server ::
  "('key, 'pub, 'st) crypto_env \<Rightarrow> ('key, 'pub) ca \<Rightarrow> string list \<Rightarrow> 'st \<Rightarrow> 'st \<times> (string \<times> string) result" where
  "issue_server env a hosts s =
     (case hosts of
        [] \<Rightarrow> (s, Inl (Errorf ''at least one host is required'' [] []))
      | h # _ \<Rightarrow>
          (case validity env s of (s1, before, after) \<Rightarrow>
             issue env a (foldl add_host (leaf_template 2 h before after ExtKeyUsageServerAuth) hosts) s1))"

definition issue_client ::
  "('key, 'pub, 'st) crypto_env \<Rightarrow> ('key, 'pub) ca \<Rightarrow> string \<Rightarrow> 'st \<Rightarrow> 'st \<times> (string \<times> string) result" where
  "issue_client env a common_name s =
     (case validity env s of (s1, before, after) \<Rightarrow>
        issue env a (leaf_template 3 common_name before after ExtKeyUsageClientAuth) s1)"

section \<open>The encoding\<close>

text \<open>What a reader of PEM does: the values of the digits, four to a group.\<close>

definition base64_value :: "char \<Rightarrow> nat" where
  "base64_value c = length (takeWhile (\<lambda>d. d \<noteq> c) base64_chars)"

fun base64_decode :: "string \<Rightarrow> string" where
  "base64_decode (a # b # c # d # s) =
     (let va = base64_value a; vb = base64_value b; vc = base64_value c; vd = base64_value d;
          x = char_of (va * 4 + vb div 16); y = char_of (vb * 16 + vc div 4); z = char_of (vc * 64 + vd)
      in if c = CHR ''='' then [x] else if d = CHR ''='' then [x, y] else x # y # z # base64_decode s)"
| "base64_decode _ = []"

lemma base64_digit_values: "\<forall>n\<in>set [0..<64]. base64_value (base64_digit n) = n \<and> base64_digit n \<noteq> CHR ''=''"
  by code_simp

lemma base64_digit_mod: "base64_digit (n mod 64) = base64_digit n"
  by (simp add: base64_digit_def)

lemma base64_digit [simp]: "base64_value (base64_digit n) = n mod 64" "base64_digit n \<noteq> CHR ''=''"
  using bspec [OF base64_digit_values, of "n mod 64"] by (simp_all add: base64_digit_mod)

text \<open>Two neighbouring digits: the low bits of a byte and the high bits of the next one.\<close>

lemma digit_pair:
  fixes x y k m :: nat
  assumes "k * m = 64" and "y < m"
  shows "(x * m + y) mod 64 = x mod k * m + y" and "(x mod k * m + y) div m = x mod k"
proof -
  have k: "0 < k" using assms(1) by (cases k) auto
  have eq: "x * m + y = x div k * 64 + (x mod k * m + y)"
  proof -
    have "x * m + y = (x div k * k + x mod k) * m + y" by simp
    also have "\<dots> = x div k * 64 + (x mod k * m + y)" unfolding assms(1) [symmetric] by (simp only: algebra_simps)
    finally show ?thesis .
  qed
  have "x mod k * m + y < Suc (x mod k) * m" using assms(2) by simp
  moreover have "Suc (x mod k) * m \<le> k * m" using k by (intro mult_le_mono1) (simp add: Suc_leI)
  ultimately have "x mod k * m + y < 64" using assms(1) by simp
  then show "(x * m + y) mod 64 = x mod k * m + y" unfolding eq by simp
  show "(x mod k * m + y) div m = x mod k" using assms(2) by simp
qed

lemma char_of_high: "char_of (m * 256 + of_char c :: nat) = c"
  using char_of_mod_256 [of "m * 256 + of_char c :: nat"] by simp

lemma char_parts:
  fixes a b c :: nat
  assumes "a < 256" and "b < 256" and "c < 256"
  shows "a div 4 mod 64 * 4 + (a * 16 + b div 16) mod 64 div 16 = a"
    and "(a * 16 + b div 16) mod 64 * 16 + (b * 4 + c div 64) mod 64 div 4 = a mod 4 * 256 + b"
    and "(b * 4 + c div 64) mod 64 * 64 + c mod 64 = b mod 16 * 256 + c"
proof -
  have y: "b div 16 < 16" "c div 64 < 4" "a div 4 < 64" using assms by (simp_all add: less_mult_imp_div_less)
  note p = digit_pair [of 4 16 "b div 16" a] digit_pair [of 16 4 "c div 64" b]
  show "a div 4 mod 64 * 4 + (a * 16 + b div 16) mod 64 div 16 = a" using p y div_mult_mod_eq [of a 4] by simp
  show "(a * 16 + b div 16) mod 64 * 16 + (b * 4 + c div 64) mod 64 div 4 = a mod 4 * 256 + b"
    using p y div_mult_mod_eq [of b 16] by simp
  show "(b * 4 + c div 64) mod 64 * 64 + c mod 64 = b mod 16 * 256 + c"
    using p y div_mult_mod_eq [of c 64] by simp
qed

text \<open>Decoding gives the encoded bytes back.\<close>

lemmas group_simps = base64_encode.simps base64_decode.simps base64_digit Let_def refl if_True if_False char_of_char char_of_high

lemma base64_round_trip: "base64_decode (base64_encode s) = s"
proof (induction s rule: base64_encode.induct)
  case (2 a)
  note p = char_parts [OF byte_less [of a] zero_less_numeral zero_less_numeral, unfolded div_0 add_0_right]
  show ?case by (simp only: p group_simps)
next
  case (3 a b)
  note p = char_parts [OF byte_less [of a] byte_less [of b] zero_less_numeral, unfolded div_0 add_0_right]
  show ?case by (simp only: p group_simps)
next
  case (4 a b c s)
  note p = char_parts [OF byte_less [of a] byte_less [of b] byte_less [of c]]
  show ?case by (simp only: p group_simps 4)
qed (simp only: group_simps)

lemma break_lines_Nil: "break_lines [] = []"
  by (simp add: break_lines.simps)

lemma break_lines_concat: "concat (break_lines s) = s"
  by (induction s rule: break_lines.induct) (simp add: break_lines.simps [of s for s])

lemma break_lines_length: "l \<in> set (break_lines s) \<Longrightarrow> 0 < length l \<and> length l \<le> 64"
proof (induction s rule: break_lines.induct)
  case (1 s)
  then show ?case by (cases "s = []") (auto simp: break_lines.simps [of s] break_lines_Nil)
qed

text \<open>The body of a block decodes to the bytes it was given, and its lines are at most 64 long.\<close>

lemma pem_round_trip:
  "base64_decode (concat (butlast (tl (pem_lines t bytes)))) = bytes"
  "l \<in> set (butlast (tl (pem_lines t bytes))) \<Longrightarrow> length l \<le> 64"
  using break_lines_length by (auto simp: pem_lines_def break_lines_concat base64_round_trip)

section \<open>The certificates issued\<close>

lemma add_hosts:
  "ct_ips (foldl add_host t hs) = ct_ips t @ map parse_ip (filter (\<lambda>h. parse_ip h \<noteq> []) hs)"
  "ct_dns_names (foldl add_host t hs) = ct_dns_names t @ filter (\<lambda>h. parse_ip h = []) hs"
  "ct_is_ca (foldl add_host t hs) = ct_is_ca t" "ct_ext_key_usage (foldl add_host t hs) = ct_ext_key_usage t"
  "ct_serial (foldl add_host t hs) = ct_serial t" "ct_common_name (foldl add_host t hs) = ct_common_name t"
  by (induction hs arbitrary: t) (simp_all add: add_host_def)

lemma issue_success:
  assumes "issue env a tmpl s = (s2, Inr (crt, k))"
  obtains s1 key der key_der where "ce_generate env s = (s1, Inr key)"
    "ce_create env s1 tmpl (ca_cert a) (ce_public env key) (ca_key a) = (s2, Inr der)"
    "ce_marshal env key = Inr key_der" "crt = pem_encode ''CERTIFICATE'' der" "k = pem_encode ''EC PRIVATE KEY'' key_der"
  using assms that unfolding issue_def by (auto split: prod.splits sum.splits)

text \<open>
  A server certificate that is issued is signed by the authority for a fresh key, names every host
  it was asked for, literal addresses as addresses and all others as DNS names in their order, and
  nothing else; it is a certificate of a server and of no authority.
\<close>

theorem server_certificate_names:
  assumes "issue_server env a hosts s = (s2, Inr (crt, k))"
  shows "\<exists>tmpl key der s0 s1. ce_generate env s0 = (s1, Inr key) \<and>
    ce_create env s1 tmpl (ca_cert a) (ce_public env key) (ca_key a) = (s2, Inr der) \<and>
    crt = pem_encode ''CERTIFICATE'' der \<and> hosts \<noteq> [] \<and> ct_common_name tmpl = hd hosts \<and>
    ct_ips tmpl = map parse_ip (filter (\<lambda>h. parse_ip h \<noteq> []) hosts) \<and>
    ct_dns_names tmpl = filter (\<lambda>h. parse_ip h = []) hosts \<and>
    ct_ext_key_usage tmpl = [ExtKeyUsageServerAuth] \<and> \<not> ct_is_ca tmpl"
proof -
  obtain h hs where h: "hosts = h # hs" using assms by (cases hosts) (auto simp: issue_server_def)
  obtain s1 before after where v: "validity env s = (s1, before, after)" by (cases "validity env s") auto
  let ?t = "foldl add_host (leaf_template 2 h before after ExtKeyUsageServerAuth) hosts"
  have i: "issue env a ?t s1 = (s2, Inr (crt, k))" using assms h v by (simp add: issue_server_def)
  obtain s3 key der key_der where "ce_generate env s1 = (s3, Inr key)"
    "ce_create env s3 ?t (ca_cert a) (ce_public env key) (ca_key a) = (s2, Inr der)" "crt = pem_encode ''CERTIFICATE'' der"
    using issue_success [OF i] .
  moreover have "ct_common_name ?t = hd hosts" "ct_ext_key_usage ?t = [ExtKeyUsageServerAuth]" "\<not> ct_is_ca ?t"
    "ct_ips ?t = map parse_ip (filter (\<lambda>h. parse_ip h \<noteq> []) hosts)" "ct_dns_names ?t = filter (\<lambda>h. parse_ip h = []) hosts"
    using h by (simp_all add: add_hosts leaf_template_def del: foldl_Cons)
  ultimately show ?thesis using h by (intro exI conjI) (assumption | simp)+
qed

text \<open>Without a host nothing is generated and the state of the environment is left as it was.\<close>

lemma issue_server_no_host: "issue_server env a [] s = (s, Inl (Errorf ''at least one host is required'' [] []))"
  by (simp add: issue_server_def)

text \<open>The authority signs itself, and a client certificate is a client's only.\<close>

lemma new_ca_self_signed:
  assumes "new_ca env s = (s3, Inr a)"
  shows "\<exists>s2 tmpl der. ce_create env s2 tmpl tmpl (ce_public env (ca_key a)) (ca_key a) = (s3, Inr der) \<and>
    ct_is_ca tmpl \<and> ct_key_usage tmpl = 33 \<and> ce_parse env der = Inr (ca_cert a) \<and> cert_pem a = pem_encode ''CERTIFICATE'' der"
proof -
  obtain s0 key where g: "ce_generate env s = (s0, Inr key)"
    using assms unfolding new_ca_def by (cases "ce_generate env s") (auto split: sum.splits)
  obtain s2 before after where v: "validity env s0 = (s2, before, after)" by (cases "validity env s0") auto
  let ?t = "\<lparr>ct_serial = 1, ct_common_name = ''grabber test CA'', ct_not_before = before, ct_not_after = after,
    ct_is_ca = True, ct_key_usage = key_usage_cert_sign OR key_usage_digital_signature, ct_ext_key_usage = [],
    ct_constraints_valid = True, ct_ips = [], ct_dns_names = [], ct_public_key = None\<rparr>"
  obtain der where d: "ce_create env s2 ?t ?t (ce_public env key) key = (s3, Inr der)"
    using assms g v unfolding new_ca_def Let_def
    by (cases "ce_create env s2 ?t ?t (ce_public env key) key") (auto split: sum.splits)
  obtain cert where "ce_parse env der = Inr cert" "a = \<lparr>ca_pem = pem_encode ''CERTIFICATE'' der, ca_cert = cert, ca_key = key\<rparr>"
    using assms g v d unfolding new_ca_def Let_def by (auto split: sum.splits)
  moreover have "ct_is_ca ?t" "ct_key_usage ?t = 33"
    by (simp_all add: key_usage_cert_sign_def key_usage_digital_signature_def)
  ultimately show ?thesis using d by (intro exI [of _ s2] exI [of _ ?t] exI [of _ der]) (simp add: cert_pem_def)
qed

end
