(* ===== verification/Spec2Isabelle.thy ===== *)
theory Spec2Isabelle
  imports Delivery Unpack Lookup_Cache Ssrf_Proxied Options Netrc Small_Internal Test_Certificates
begin

text \<open>
  \<^bold>\<open>grabber\<close> fetches a file or a directory from a URL: over HTTP, from Git and Mercurial
  repositories, from S3 and GCS buckets, from OCI registries and from the local disk.  This
  development is a model of the Go program in Isabelle/HOL with the theorems that make it correct.
  The functions are translated one by one, with the names of the source in snake case; where a
  theory has a definition \<open>parse_git_url\<close>, the source has a function \<^verbatim>\<open>parseGitURL\<close>.

  \<^bold>\<open>The program.\<close>  \<^verbatim>\<open>Grabber.Grab\<close> (\<^verbatim>\<open>grabber.go\<close>) takes a URL and a destination.  It cuts the
  checksum out of the URL, makes a temporary directory, asks the protocols (\<^verbatim>\<open>protocols/\<close>) in the
  order of their priorities which of them recognises the URL, lets that one download into the
  temporary directory, verifies the checksum of a single file, extracts an archive
  (\<^verbatim>\<open>extract/\<close>) or moves the result to the destination, and removes the temporary directory.  The
  options (\<^verbatim>\<open>options.go\<close>) become one record of settings (\<^verbatim>\<open>settings/\<close>), from which a protocol takes
  its credentials, its limits and the HTTP transport for a host; the transport carries the SSRF
  guard (\<^verbatim>\<open>ssrf/\<close>), which keeps connections away from internal addresses.  \<^verbatim>\<open>cmd/grabber\<close> is the
  command on top.

  \<^bold>\<open>State.\<close>  A Go function is a HOL function that takes the state it reads and returns the state it
  leaves.  The state of the whole program is \<open>'n sys\<close> (theory \<open>Protocols\<close>): the file system
  \<open>sys_fs\<close> of the theory \<open>Files\<close> (directories, regular files and symbolic links under absolute
  paths, with the working directory) and \<open>sys_net\<close>, whatever the outside world keeps, of any type
  \<open>'n\<close>.  An error is a value of \<open>goerr\<close>, which keeps what \<^verbatim>\<open>errors.Is\<close> can see; \<open>'a result\<close> is
  \<^verbatim>\<open>(T, error)\<close> and \<open>goerr option\<close> is \<^verbatim>\<open>error\<close>.  Strings are lists of bytes, as in Go.  \<^verbatim>\<open>int64\<close>
  wraps where the code can overflow (\<open>wrap64\<close>); bytes of an address are \<open>8 word\<close>.

  \<^bold>\<open>The theories, from the bottom.\<close>

  \<^item> \<open>Prelude\<close>: errors, results, association lists.  \<open>Go_Strings\<close>, \<open>Go_Paths\<close>, \<open>Go_Url\<close> and
    \<open>Net_IP\<close>: the parts of \<^verbatim>\<open>strings\<close>, \<^verbatim>\<open>path/filepath\<close>, \<^verbatim>\<open>net/url\<close> and \<^verbatim>\<open>net\<close> the code calls, with
    the algebra of each (joining what was split, cleaning twice, the round trip of query
    encoding, the two forms of an IPv4 address).
  \<^item> \<open>Ssrf\<close> (\<^verbatim>\<open>ssrf/ssrf.go\<close>): levels, ordered by strictness, the allow list, the verdict on an
    address, the check of a host before the fetch and the check when dialling.  \<open>Ssrf_Proxied\<close>
    (\<^verbatim>\<open>ssrf/proxied.go\<close>): the check of a host that a proxy will resolve.  \<open>Lookup_Cache\<close>
    (\<^verbatim>\<open>ssrf/lookupcache.go\<close>): the cache of lookups shared by goroutines, as a labelled step
    relation \<open>cstep\<close> over the critical sections of its mutex, with one step for each.
  \<^item> \<open>Settings\<close>, \<open>Settings_Net\<close> and \<open>Options\<close> (\<^verbatim>\<open>settings/\<close>, \<^verbatim>\<open>options.go\<close>): which credential,
    key, certificate and proxy belongs to a host; the transport that is built for a host, the
    proxy of the environment and the connection probe; the functional options.
  \<^item> \<open>Safepath\<close> (\<^verbatim>\<open>internal/safepath\<close> and \<^verbatim>\<open>securePath\<close> of \<^verbatim>\<open>protocols/git/sparse.go\<close>): joining a
    name from outside to a root.  \<open>Small_Internal\<close>: bounded copying, the environment of child
    processes, the version.  \<open>Netrc\<close>: the netrc parser, whose pointers into its own list of
    machines are indices.  \<open>Test_Certificates\<close>: the certificate authority of the tests, with PEM.
  \<^item> \<open>Files\<close>: the file system with the operations of \<^verbatim>\<open>os\<close> the code uses, following links as the
    kernel does.  \<open>Copy_Tree\<close>: the copying and moving of trees of \<^verbatim>\<open>grabber.go\<close> and
    \<^verbatim>\<open>protocols/file/file.go\<close>.  \<open>Extract\<close> (\<^verbatim>\<open>extract/extract.go\<close>): all archive formats, with
    the budget of bytes.  \<open>Layout\<close>: the specification of directories and files laid out on a
    disk one after the other, as a map from paths to nodes, and that making directories and opening
    files implements it; \<open>Unpack\<close>: extraction against it.  \<open>Streams\<close>: saving a stream, walking
    through a paged listing, and a listing against \<open>Layout\<close>.
  \<^item> Git: \<open>Git_Url\<close> (the spellings of a remote), \<open>Git_Refs\<close> (the attempts at a ref and short
    hashes), \<open>Git_Auth\<close> (credentials, agents, known hosts, the credential helper), \<open>Git_Tree\<close>
    (the cone of a sparse checkout and its writing), \<open>Git_Archive\<close> (the archive endpoints of the
    hosting platforms), \<open>Git_Clone\<close> (the download as a whole, with all of its fallbacks).
  \<^item> \<open>Protocols\<close> (\<^verbatim>\<open>protocols/protocol.go\<close>) and one theory per protocol: \<open>File_Protocol\<close>,
    \<open>Http_Protocol\<close>, \<open>Hg_Protocol\<close>, \<open>Object_Stores\<close> (S3 and GCS), \<open>Oci_Protocol\<close>.
  \<^item> \<open>Grab\<close> (\<^verbatim>\<open>grabber.go\<close>): detection, checksums, delivery, \<open>grab\<close> itself.  \<open>Composition\<close>: the
    pipeline on the list of the protocols there are.  \<open>Cli\<close> (\<^verbatim>\<open>cmd/grabber/main.go\<close>).
    \<open>Tree_Invariant\<close> and \<open>Delivery\<close>: theorems over the whole program.

  \<^bold>\<open>What is shown.\<close>

  \<^item> \<^emph>\<open>End to end.\<close>  A local directory that is grabbed is reproduced at the destination
    (\<open>local_directory_grabbed\<close>); a file behind HTTPS arrives as the whole body of a successful
    response with the hash that was asked for (\<open>https_file_delivered\<close>); in both nothing else on the
    disk is left changed.  A checksum is never passed over once it is recognised
    (\<open>grab_verified\<close>).  A tree is copied with its modes and links (\<open>copy_dir_faithful\<close>).  An archive
    in order is extracted whole, and all objects below a prefix are downloaded: the disk is then the
    layout of the archive or of the listing, and nothing else (\<open>archive_laid_out\<close>,
    \<open>gcs_prefix_delivered\<close>).
  \<^item> \<^emph>\<open>Routing.\<close>  Which protocol handles which URL (\<open>url_routing\<close>, \<open>forced_prefix_commits\<close>).
  \<^item> \<^emph>\<open>Containment.\<close>  Archives, sparse checkouts, S3 listings, HTTP responses and subdirectory
    parameters change nothing outside the directory they are given, under hypotheses that name
    what the directory must be (\<open>extract_confined\<close>, \<open>materialise_confined\<close>, \<open>s3_download_confined\<close>,
    \<open>git_subdir_confined\<close>, \<open>safe_join_exact\<close>), and the lemmas ending in \<open>escapes\<close> or \<open>outside\<close> show
    where this fails.  The two guards with a hole are stated with it: an HTTP response goes to the
    one file its name leads to, inside the directory unless the \<^verbatim>\<open>archive\<close> parameter has a slash
    (\<open>http_download_exact\<close>); a local path is accepted only if its cleaned form, links followed,
    lies in an allowed directory, which is where it is read unless it climbs over a link
    (\<open>allowed_directories_respected\<close>).
  \<^item> \<^emph>\<open>The guard.\<close>  The internal level is exactly the documented list of networks; the checks before
    the fetch and for proxied hosts are characterised exactly; a transport that the settings build
    never connects to a blocked address unless a proxy or an allowed name explains it.
  \<^item> \<^emph>\<open>Concurrency.\<close>  Over all interleavings of the lookup cache: one lookup of a host at a time, a
    bounded cache, answers for the host that was asked about and not beyond their lifetime.
  \<^item> \<^emph>\<open>Bounds.\<close>  Bounded copies and extractions leave no more on the disk than their limit allows,
    but for the one byte that proves a file too long, and do in full what fits
    (\<open>limit_copy_correct\<close>, \<open>extract_within_budget\<close>).
  \<^item> \<^emph>\<open>Credentials and Git.\<close>  Which credentials are offered, in which order, and when the next one, the
    next scheme or the next spelling of a ref is tried (\<open>match_https_credentials_correct\<close>,
    \<open>credentials_in_order\<close>, \<open>scheme_fallback_exact\<close>, \<open>clone_by_attempts_first\<close>); which host keys
    pass (\<open>known_hosts_verdict\<close>); the netrc parser against a specification by splitting and searching.

  \<^bold>\<open>Interfaces.\<close>  Contracts that several parts share are locales, interpreted on the model where the
  provider is defined: \<open>archive_format\<close> (tar, zip: their steps unpack the members an archive is
  described by, so that what is proved of members holds for both), \<open>forced_detector\<close> (Git, Mercurial, S3, GCS,
  OCI), \<open>contained_join\<close> (\<open>safe_join\<close>, \<open>secure_path\<close>), \<open>host_scoped\<close> (the four lists of things that
  belong to a host), \<open>paged_store\<close> (the S3 and GCS listings), \<open>laying_store\<close> (a listing whose entries
  are laid out) and \<open>fs_invariant\<close>, whose assumptions are about nine operations of \<^verbatim>\<open>os\<close> and whose
  lemmas follow the code up to \<open>grab\<close>; it is interpreted for well-formed trees and for the working
  directory, and \<open>https_file_delivered\<close> rests on it.

  \<^bold>\<open>Loops, fuel and bounds.\<close>  Loops over data are recursive functions with their termination proved.
  Loops that depend on an answer from outside are \<open>partial_function (option)\<close>, where \<open>None\<close> stands
  for not returning: \<open>known_hosts_loop\<close> and \<open>pages\<close>.  They return if the parser consumes input for
  each entry (\<open>known_hosts_terminates\<close>) and if the listing has finitely many pages
  (\<open>gcs_prefix_delivered\<close>, which also says what has been done then).  The walk over a
  directory tree has a depth, \<open>gb_depth\<close>; one more than \<open>fs_depth\<close>, the length of the longest path
  there is, is enough, and the theorems about it say so in a hypothesis that the witnesses
  satisfy.  Following links stops after 40 of them in the kernel and 255 in \<^verbatim>\<open>filepath.EvalSymlinks\<close>,
  as in the originals.

  \<^bold>\<open>Parameters.\<close>  What is not in the repository is an argument of the definitions that use it, mostly
  gathered in a record per client: go-git, the \<^verbatim>\<open>hg\<close> and \<^verbatim>\<open>git\<close> processes, the AWS and GCS clients,
  oras, the exchange of \<^verbatim>\<open>net/http\<close> over a transport, the readers of compressed and archived data,
  the hash functions, \<^verbatim>\<open>golang.org/x/net/idna\<close>, the name resolver, the parsers of
  \<^verbatim>\<open>golang.org/x/crypto/ssh\<close>, \<^verbatim>\<open>crypto/x509\<close>, the random name of the temporary directory, whether it
  lies on another device, and how far each write gets.  Hypotheses about them are spelled out in the theorems.

  \<^bold>\<open>Not modelled.\<close>  The parsing of command-line flags and the handling of signals in \<^verbatim>\<open>cmd/grabber\<close>
  (the model starts from parsed flags); cancellation, except where the code asks whether the
  context has ended; closing of files, bodies and idle connections; timeouts other than those that
  end in an error of a parameter; the enforcement of file permissions, which are recorded as modes,
  and the umask, which is taken to be zero: the mode asked for is the mode recorded; fields of a
  caller's \<^verbatim>\<open>http.Transport\<close> other than the TLS configuration, the proxy and \<^verbatim>\<open>DialContext\<close>, so that
  a hook \<^verbatim>\<open>DialTLSContext\<close> is outside of what is shown of the guard; effects of the callbacks a
  caller passes in, and when they are called;
  case folding outside ASCII; log output.  The Go tests are not modelled.
\<close>

end
